(* ===== verification/LB_Prelude.thy ===== *)
theory LB_Prelude
  imports Main "HOL-Library.Word"
begin

text \<open>
  Shared vocabulary of the development: the fixed-width integer types of the C
  sources, the collections of facts that carry the component proofs, saturating
  addition in the two widths the library uses, and generic lemmas on lists indexed
  by machine words.
\<close>

unbundle bit_operations_syntax

section \<open>Machine integers\<close>

type_synonym u8 = "8 word"
type_synonym u16 = "16 word"
type_synonym u32 = "32 word"
type_synonym u64 = "64 word"

text \<open>A pointer or function pointer is an opaque handle; the handle 0 is NULL.\<close>

type_synonym ptr = nat

text \<open>
  \<open>frame\<close> collects the equations saying which fields an operation leaves alone,
  \<open>wordnat\<close> the equations that turn word arithmetic into arithmetic on \<open>nat\<close>.
\<close>

named_theorems frame
named_theorems wordnat

lemma unat_ucast_up [wordnat]:
  "LENGTH('a::len) \<le> LENGTH('b::len) \<Longrightarrow> unat (ucast (x :: 'a word) :: 'b word) = unat x"
  by (simp add: unsigned_ucast_eq take_bit_nat_eq_self_iff)
     (meson order_less_le_trans unsigned_less one_le_numeral power_increasing)

lemma unat_ucast_mod:
  "unat (ucast (x :: 'a::len word) :: 'b::len word) = unat x mod 2 ^ LENGTH('b)"
  by (simp add: unsigned_ucast_eq take_bit_eq_mod)

lemma unat_ucast_8_32 [simp, wordnat]: "unat (ucast (x :: u8) :: u32) = unat x"
  by (rule unat_ucast_up) simp

lemma unat_ucast_16_32 [simp, wordnat]: "unat (ucast (x :: u16) :: u32) = unat x"
  by (rule unat_ucast_up) simp

lemma unat_ucast_16_64 [simp, wordnat]: "unat (ucast (x :: u16) :: u64) = unat x"
  by (rule unat_ucast_up) simp

lemma unat_ucast_32_64 [simp, wordnat]: "unat (ucast (x :: u32) :: u64) = unat x"
  by (rule unat_ucast_up) simp

lemma unat_ucast_8_16 [simp, wordnat]: "unat (ucast (x :: u8) :: u16) = unat x"
  by (rule unat_ucast_up) simp

lemma unat_u8_bound: "unat (x :: u8) < 256"
  using unsigned_less [of x, where ?'a = nat] by simp

lemma unat_u16_bound: "unat (x :: u16) < 65536"
  using unsigned_less [of x, where ?'a = nat] by simp

lemma unat_u32_bound: "unat (x :: u32) < 4294967296"
  using unsigned_less [of x, where ?'a = nat] by simp

lemma unat_u64_bound: "unat (x :: u64) < 18446744073709551616"
  using unsigned_less [of x, where ?'a = nat] by simp

lemmas unat_bounds = unat_u8_bound unat_u16_bound unat_u32_bound unat_u64_bound

section \<open>Saturating addition\<close>

text \<open>
  \<open>sat_add16\<close> is the idiom \<open>sum = a + b; if (sum > 0xFFFF) sum = 0xFFFF\<close> computed in
  32 bits and stored in 16; \<open>sat_add32\<close> is \<open>if (0xFFFFFFFF - c < n) c = 0xFFFFFFFF; else c += n\<close>.
\<close>

definition sat16 :: "u32 \<Rightarrow> u16" where
  "sat16 s = ucast (if s > 0xFFFF then 0xFFFF else s)"

definition sat_add32 :: "u32 \<Rightarrow> u32 \<Rightarrow> u32" where
  "sat_add32 c n = (if 0xFFFFFFFF - c < n then 0xFFFFFFFF else c + n)"

lemma unat_sat16 [wordnat]: "unat (sat16 s) = min 65535 (unat s)"
  by (auto simp: sat16_def unat_ucast_mod word_less_nat_alt min_def)

lemma unat_sat_add32 [wordnat]: "unat (sat_add32 c n) = min 4294967295 (unat c + unat n)"
proof -
  have "unat (0xFFFFFFFF - c) = 4294967295 - unat c"
    by (subst unat_sub) (use unat_u32_bound [of c] in \<open>auto simp: word_le_nat_alt\<close>)
  then show ?thesis
    using unat_u32_bound [of c] unat_u32_bound [of n]
    by (auto simp add: sat_add32_def word_less_nat_alt min_def unat_plus_if')
qed

lemma unat_add_ucast16 [wordnat]:
  "unat ((ucast (a :: u16) :: u32) + ucast (b :: u16)) = unat a + unat b"
  using unat_u16_bound [of a] unat_u16_bound [of b] by (simp add: unat_plus_if')

lemma word_neq_0_unat: "(x :: 'a::len word) \<noteq> 0 \<longleftrightarrow> 0 < unat x"
  by (simp add: unat_gt_0)

section \<open>Tables\<close>

text \<open>
  Tables of the storage buffer are lists. \<open>upd_at\<close> applies a function to the
  entry at an index, as \<open>p = &table[i]; p->f = ...\<close> does.
\<close>

definition upd_at :: "nat \<Rightarrow> ('a \<Rightarrow> 'a) \<Rightarrow> 'a list \<Rightarrow> 'a list" where
  "upd_at i f xs = xs[i := f (xs ! i)]"

lemma length_upd_at [simp]: "length (upd_at i f xs) = length xs"
  by (simp add: upd_at_def)

lemma nth_upd_at: "j < length xs \<Longrightarrow> upd_at i f xs ! j = (if i = j then f (xs ! j) else xs ! j)"
  by (auto simp: upd_at_def nth_list_update)

lemma nth_upd_at_same [simp]: "i < length xs \<Longrightarrow> upd_at i f xs ! i = f (xs ! i)"
  by (simp add: nth_upd_at)

lemma nth_upd_at_other [simp]: "i \<noteq> j \<Longrightarrow> upd_at i f xs ! j = xs ! j"
  by (simp add: upd_at_def)

lemma upd_at_id: "f (xs ! i) = xs ! i \<Longrightarrow> upd_at i f xs = xs"
  by (simp add: upd_at_def)

lemma map_upd_at_invisible: "i < length xs \<Longrightarrow> g (f (xs ! i)) = g (xs ! i) \<Longrightarrow> map g (upd_at i f xs) = map g xs"
  by (rule nth_equalityI) (auto simp: nth_upd_at)

lemma list_all_upd_at:
  "list_all Q xs \<Longrightarrow> (i < length xs \<Longrightarrow> Q (f (xs ! i))) \<Longrightarrow> list_all Q (upd_at i f xs)"
  by (auto simp: list_all_length nth_upd_at)

text \<open>
  A table of fixed-size lists stored one after the other: the \<open>k\<close>-th chunk of \<open>n\<close>
  entries, as \<open>&table[k * n]\<close> addresses it, and its replacement.
\<close>

definition chunk :: "nat \<Rightarrow> nat \<Rightarrow> 'a list \<Rightarrow> 'a list" where
  "chunk n k xs = take n (drop (k * n) xs)"

definition set_chunk :: "nat \<Rightarrow> nat \<Rightarrow> 'a list \<Rightarrow> 'a list \<Rightarrow> 'a list" where
  "set_chunk n k ys xs = take (k * n) xs @ ys @ drop (k * n + n) xs"

lemma chunk_within: "k < m \<Longrightarrow> k * n + n \<le> m * (n :: nat)"
  by (metis Suc_leI add.commute mult_Suc mult_le_mono1)

lemma length_chunk: "length xs = m * n \<Longrightarrow> k < m \<Longrightarrow> length (chunk n k xs) = n"
  using chunk_within [of k m n] by (simp add: chunk_def)

lemma length_set_chunk [simp]:
  "length xs = m * n \<Longrightarrow> k < m \<Longrightarrow> length ys = n \<Longrightarrow> length (set_chunk n k ys xs) = m * n"
  using chunk_within [of k m n] by (simp add: set_chunk_def)

lemma chunk_nth: "length xs = m * n \<Longrightarrow> k < m \<Longrightarrow> i < n \<Longrightarrow> chunk n k xs ! i = xs ! (k * n + i)"
  using chunk_within [of k m n] by (simp add: chunk_def)

lemma chunk_set_same:
  "length xs = m * n \<Longrightarrow> k < m \<Longrightarrow> length ys = n \<Longrightarrow> chunk n k (set_chunk n k ys xs) = ys"
  using chunk_within [of k m n] by (simp add: chunk_def set_chunk_def)

lemma chunk_set_other:
  assumes "length xs = m * n" "k < m" "j < m" "j \<noteq> k" "length ys = n"
  shows "chunk n j (set_chunk n k ys xs) = chunk n j xs"
proof (rule nth_equalityI)
  show "length (chunk n j (set_chunk n k ys xs)) = length (chunk n j xs)"
    using assms by (simp add: length_chunk [where m = m])
  fix i
  assume "i < length (chunk n j (set_chunk n k ys xs))"
  then have i: "i < n" using assms by (simp add: length_chunk [where m = m])
  have k: "k * n + n \<le> length xs" and j: "j * n + n \<le> length xs"
    using assms chunk_within by auto
  have "set_chunk n k ys xs ! (j * n + i) = xs ! (j * n + i)"
  proof (cases "j < k")
    case True
    then have "j * n + n \<le> k * n" by (rule chunk_within)
    with i k show ?thesis by (simp add: set_chunk_def nth_append)
  next
    case False
    with assms(4) have "k * n + n \<le> j * n" by (intro chunk_within) simp
    then have "\<not> j * n + i - k * n < n" "\<not> j * n + i < k * n" by auto
    with \<open>k * n + n \<le> j * n\<close> i k j assms(5) show ?thesis
      by (auto simp add: set_chunk_def nth_append)
  qed
  with assms i show "chunk n j (set_chunk n k ys xs) ! i = chunk n j xs ! i"
    by (simp add: chunk_nth [where m = m])
qed

lemma set_chunk_same:
  "length xs = m * n \<Longrightarrow> k < m \<Longrightarrow> set_chunk n k (chunk n k xs) xs = xs"
  by (simp add: set_chunk_def chunk_def flip: drop_drop add.commute)

text \<open>The first index satisfying a predicate, as the linear scans of the library compute it.\<close>

fun first_index :: "('a \<Rightarrow> bool) \<Rightarrow> 'a list \<Rightarrow> nat option" where
  "first_index Q [] = None"
| "first_index Q (x # xs) = (if Q x then Some 0 else map_option Suc (first_index Q xs))"

lemma first_index_Some:
  "first_index Q xs = Some i \<Longrightarrow> i < length xs \<and> Q (xs ! i) \<and> (\<forall>j<i. \<not> Q (xs ! j))"
proof (induction xs arbitrary: i)
  case Nil
  then show ?case by simp
next
  case (Cons x xs)
  show ?case
  proof (cases "Q x")
    case True
    with Cons.prems show ?thesis by simp
  next
    case False
    with Cons.prems obtain k where k: "first_index Q xs = Some k" "i = Suc k" by auto
    with Cons.IH [OF k(1)] False show ?thesis by (auto simp: less_Suc_eq_0_disj)
  qed
qed

lemma first_index_None: "first_index Q xs = None \<longleftrightarrow> (\<forall>x\<in>set xs. \<not> Q x)"
  by (induction xs) auto

lemma first_index_unique:
  "i < length xs \<Longrightarrow> Q (xs ! i) \<Longrightarrow> (\<And>j. j < i \<Longrightarrow> \<not> Q (xs ! j)) \<Longrightarrow> first_index Q xs = Some i"
proof (induction xs arbitrary: i)
  case Nil
  then show ?case by simp
next
  case (Cons x xs)
  show ?case
  proof (cases i)
    case 0
    with Cons.prems show ?thesis by simp
  next
    case (Suc k)
    with Cons.prems(3) [of 0] have "\<not> Q x" by simp
    moreover have "first_index Q xs = Some k"
      using Cons.prems Suc by (intro Cons.IH) force+
    ultimately show ?thesis using Suc by simp
  qed
qed

text \<open>Counting the entries that satisfy a predicate.\<close>

definition count_if :: "('a \<Rightarrow> bool) \<Rightarrow> 'a list \<Rightarrow> nat" where
  "count_if Q xs = length (filter Q xs)"

lemma count_if_Nil [simp]: "count_if Q [] = 0"
  by (simp add: count_if_def)

lemma count_if_Cons [simp]: "count_if Q (x # xs) = (if Q x then Suc (count_if Q xs) else count_if Q xs)"
  by (simp add: count_if_def)

lemma count_if_le: "count_if Q xs \<le> length xs"
  by (simp add: count_if_def)

lemma count_if_list_update:
  "i < length xs \<Longrightarrow> count_if Q (xs[i := v]) + (if Q (xs ! i) then 1 else 0) =
     count_if Q xs + (if Q v then 1 else 0)"
proof (induction xs arbitrary: i)
  case Nil
  then show ?case by simp
next
  case (Cons x xs)
  then show ?case by (cases i) (auto split: if_splits)
qed

end
