(* ===== verification/LB_Types.thy ===== *)
theory LB_Types
  imports LB_Prelude
begin

text \<open>
  The data types of \<open>include/loxbudget.h\<close> and the storage structs of
  \<open>src/loxbudget_core.c\<close>: status codes, actions, pressure levels, resource kinds and
  reasons as datatypes with the header's constructors; decisions, profiles, leases,
  audit records and the instance struct as records; and the compile-time switches as
  the record \<open>build\<close>.

  Bytes of the tables that are cast to an enum (\<open>(loxbudget_action_t)mapped\<close>) go
  through \<open>action_of_u8\<close>, \<open>pressure_of_u8\<close> and \<open>kind_of_u8\<close>. A byte outside the
  enumeration is kept as it is by the extra constructor (\<open>ACTION_OTHER\<close> and so on),
  because the C cast keeps it too. The padding members of the structs are left out.

  The instance struct \<open>loxbudget_t\<close> and the tables in the caller's storage buffer form
  one record: the struct's members have the prefix \<open>b_\<close>, the tables \<open>t_\<close>. Theory
  \<open>LB_Layout\<close> justifies separate tables: their byte ranges are disjoint.
\<close>

section \<open>Compile-time configuration\<close>

text \<open>
  The feature macros are a parameter of the operations; the numeric limits are those of
  the header's defaults. Limits that the storage header ties together
  (\<open>sizeof(loxbudget_storage_hdr_t) == 32\<close>) cannot be changed independently.
\<close>

record build =
  audit_on :: bool          \<comment> \<open>LOXBUDGET_ENABLE_AUDIT_TRAIL\<close>
  rate_on :: bool           \<comment> \<open>LOXBUDGET_ENABLE_RATE_WINDOWS\<close>
  calib_on :: bool          \<comment> \<open>LOXBUDGET_ENABLE_CALIBRATION\<close>
  causality_on :: bool      \<comment> \<open>LOXBUDGET_ENABLE_CAUSALITY\<close>
  token_bucket :: bool      \<comment> \<open>LOXBUDGET_RATE_IMPL == LOXBUDGET_RATE_IMPL_TOKEN_BUCKET\<close>
  little_endian :: bool     \<comment> \<open>byte order of the target\<close>

abbreviation (input) LOXBUDGET_MAX_RESOURCES :: nat where "LOXBUDGET_MAX_RESOURCES \<equiv> 8"
abbreviation (input) LOXBUDGET_MAX_OPS :: nat where "LOXBUDGET_MAX_OPS \<equiv> 16"
abbreviation (input) LOXBUDGET_MAX_NEEDS_PER_OP :: nat where "LOXBUDGET_MAX_NEEDS_PER_OP \<equiv> 4"
abbreviation (input) LOXBUDGET_MAX_LEASES :: nat where "LOXBUDGET_MAX_LEASES \<equiv> 4"
abbreviation (input) LOXBUDGET_CAUSALITY_MAX_EDGES :: nat where "LOXBUDGET_CAUSALITY_MAX_EDGES \<equiv> 32"
abbreviation (input) LOXBUDGET_CAUSALITY_MAX_DEPTH :: u8 where "LOXBUDGET_CAUSALITY_MAX_DEPTH \<equiv> 3"
abbreviation (input) LOXBUDGET_CALIB_STATE_SIZE :: u32 where "LOXBUDGET_CALIB_STATE_SIZE \<equiv> 640"

section \<open>Enumerations\<close>

datatype loxbudget_status =
    LOXBUDGET_OK
  | LOXBUDGET_ERR_INVALID_ARG
  | LOXBUDGET_ERR_NOT_INITIALIZED
  | LOXBUDGET_ERR_NO_SPACE
  | LOXBUDGET_ERR_NOT_FOUND
  | LOXBUDGET_ERR_DUPLICATE
  | LOXBUDGET_ERR_OVERFLOW
  | LOXBUDGET_ERR_BAD_STATE
  | LOXBUDGET_ERR_FEATURE_DISABLED
  | LOXBUDGET_ERR_HAL_NOT_CONFIGURED
  | LOXBUDGET_ERR_ALIGNMENT
  | LOXBUDGET_ERR_VERSION_MISMATCH

datatype loxbudget_action =
    LOXBUDGET_ALLOW_FULL
  | LOXBUDGET_ALLOW_DEGRADED
  | LOXBUDGET_WAIT
  | LOXBUDGET_REJECT
  | LOXBUDGET_LOCKDOWN
  | ACTION_OTHER u8

datatype loxbudget_pressure =
    LOXBUDGET_PRESSURE_NORMAL
  | LOXBUDGET_PRESSURE_ELEVATED
  | LOXBUDGET_PRESSURE_CRITICAL
  | LOXBUDGET_PRESSURE_SURVIVAL
  | LOXBUDGET_PRESSURE_LOCKDOWN
  | PRESSURE_OTHER u8

datatype loxbudget_resource_kind =
    LOXBUDGET_RES_REUSABLE
  | LOXBUDGET_RES_CONSUMABLE
  | LOXBUDGET_RES_STATE
  | RES_OTHER u8

datatype loxbudget_reason =
    LOXBUDGET_REASON_OK
  | LOXBUDGET_REASON_INSUFFICIENT_RES
  | LOXBUDGET_REASON_RATE_LIMIT
  | LOXBUDGET_REASON_LIFETIME_EXHAUSTED
  | LOXBUDGET_REASON_PRESSURE_BLOCK
  | LOXBUDGET_REASON_LOCKDOWN_ACTIVE
  | LOXBUDGET_REASON_PRECONDITION_FAIL
  | LOXBUDGET_REASON_CAUSAL_CASCADE
  | LOXBUDGET_REASON_UNKNOWN_OP
  | LOXBUDGET_REASON_HAL_NOT_CONFIGURED

datatype loxbudget_pressure_hint =
    LOXBUDGET_PRESSURE_HOLDING
  | LOXBUDGET_PRESSURE_RISING
  | LOXBUDGET_PRESSURE_FALLING
  | LOXBUDGET_SHOULD_ABORT

text \<open>An enum passed by the caller is the machine integer it is passed as.\<close>

type_synonym c_enum = u32

definition action_of_u8 :: "u8 \<Rightarrow> loxbudget_action" where
  "action_of_u8 a =
     (if a = 0 then LOXBUDGET_ALLOW_FULL else if a = 1 then LOXBUDGET_ALLOW_DEGRADED
      else if a = 2 then LOXBUDGET_WAIT else if a = 3 then LOXBUDGET_REJECT
      else if a = 4 then LOXBUDGET_LOCKDOWN else ACTION_OTHER a)"

fun u8_of_action :: "loxbudget_action \<Rightarrow> u8" where
  "u8_of_action LOXBUDGET_ALLOW_FULL = 0"
| "u8_of_action LOXBUDGET_ALLOW_DEGRADED = 1"
| "u8_of_action LOXBUDGET_WAIT = 2"
| "u8_of_action LOXBUDGET_REJECT = 3"
| "u8_of_action LOXBUDGET_LOCKDOWN = 4"
| "u8_of_action (ACTION_OTHER a) = a"

definition pressure_of_u8 :: "u8 \<Rightarrow> loxbudget_pressure" where
  "pressure_of_u8 p =
     (if p = 0 then LOXBUDGET_PRESSURE_NORMAL else if p = 1 then LOXBUDGET_PRESSURE_ELEVATED
      else if p = 2 then LOXBUDGET_PRESSURE_CRITICAL else if p = 3 then LOXBUDGET_PRESSURE_SURVIVAL
      else if p = 4 then LOXBUDGET_PRESSURE_LOCKDOWN else PRESSURE_OTHER p)"

fun u8_of_pressure :: "loxbudget_pressure \<Rightarrow> u8" where
  "u8_of_pressure LOXBUDGET_PRESSURE_NORMAL = 0"
| "u8_of_pressure LOXBUDGET_PRESSURE_ELEVATED = 1"
| "u8_of_pressure LOXBUDGET_PRESSURE_CRITICAL = 2"
| "u8_of_pressure LOXBUDGET_PRESSURE_SURVIVAL = 3"
| "u8_of_pressure LOXBUDGET_PRESSURE_LOCKDOWN = 4"
| "u8_of_pressure (PRESSURE_OTHER p) = p"

definition kind_of_u8 :: "u8 \<Rightarrow> loxbudget_resource_kind" where
  "kind_of_u8 k =
     (if k = 0 then LOXBUDGET_RES_REUSABLE else if k = 1 then LOXBUDGET_RES_CONSUMABLE
      else if k = 2 then LOXBUDGET_RES_STATE else RES_OTHER k)"

fun u8_of_kind :: "loxbudget_resource_kind \<Rightarrow> u8" where
  "u8_of_kind LOXBUDGET_RES_REUSABLE = 0"
| "u8_of_kind LOXBUDGET_RES_CONSUMABLE = 1"
| "u8_of_kind LOXBUDGET_RES_STATE = 2"
| "u8_of_kind (RES_OTHER k) = k"

fun u8_of_reason :: "loxbudget_reason \<Rightarrow> u8" where
  "u8_of_reason LOXBUDGET_REASON_OK = 0"
| "u8_of_reason LOXBUDGET_REASON_INSUFFICIENT_RES = 1"
| "u8_of_reason LOXBUDGET_REASON_RATE_LIMIT = 2"
| "u8_of_reason LOXBUDGET_REASON_LIFETIME_EXHAUSTED = 3"
| "u8_of_reason LOXBUDGET_REASON_PRESSURE_BLOCK = 4"
| "u8_of_reason LOXBUDGET_REASON_LOCKDOWN_ACTIVE = 5"
| "u8_of_reason LOXBUDGET_REASON_PRECONDITION_FAIL = 6"
| "u8_of_reason LOXBUDGET_REASON_CAUSAL_CASCADE = 7"
| "u8_of_reason LOXBUDGET_REASON_UNKNOWN_OP = 8"
| "u8_of_reason LOXBUDGET_REASON_HAL_NOT_CONFIGURED = 9"

section \<open>Operation flags\<close>

definition LOXBUDGET_OPF_REQUIRES_BOOT_PROVEN :: u8 where "LOXBUDGET_OPF_REQUIRES_BOOT_PROVEN = 1"
definition LOXBUDGET_OPF_REQUIRES_VOLTAGE_OK :: u8 where "LOXBUDGET_OPF_REQUIRES_VOLTAGE_OK = 2"
definition LOXBUDGET_OPF_REQUIRES_NETWORK_UP :: u8 where "LOXBUDGET_OPF_REQUIRES_NETWORK_UP = 4"
definition LOXBUDGET_OPF_PERSIST_AUDIT :: u8 where "LOXBUDGET_OPF_PERSIST_AUDIT = 8"
definition LOXBUDGET_OPF_BYPASS_RATE_LIMIT :: u8 where "LOXBUDGET_OPF_BYPASS_RATE_LIMIT = 16"
definition LOXBUDGET_OPF_CALIBRATABLE :: u8 where "LOXBUDGET_OPF_CALIBRATABLE = 32"
definition LOXBUDGET_OPF_LOCKDOWN_PASS :: u8 where "LOXBUDGET_OPF_LOCKDOWN_PASS = 64"

lemmas opf_defs = LOXBUDGET_OPF_REQUIRES_BOOT_PROVEN_def LOXBUDGET_OPF_REQUIRES_VOLTAGE_OK_def
  LOXBUDGET_OPF_REQUIRES_NETWORK_UP_def LOXBUDGET_OPF_PERSIST_AUDIT_def
  LOXBUDGET_OPF_BYPASS_RATE_LIMIT_def LOXBUDGET_OPF_CALIBRATABLE_def
  LOXBUDGET_OPF_LOCKDOWN_PASS_def

text \<open>The test \<open>(p->flags & FLAG) != 0u\<close>.\<close>

definition has_flag :: "u8 \<Rightarrow> u8 \<Rightarrow> bool" where
  "has_flag fl f \<longleftrightarrow> fl AND f \<noteq> 0"

section \<open>Structs of the public header\<close>

record loxbudget_decision =
  d_action :: loxbudget_action
  d_pressure :: loxbudget_pressure
  d_denied_resource :: u8
  d_requested :: u16
  d_available :: u16
  d_reason :: loxbudget_reason

record loxbudget_op_profile =
  p_op_id :: u8
  p_priority :: u8
  p_action_normal :: u8
  p_action_elevated :: u8
  p_action_critical :: u8
  p_action_survival :: u8
  p_action_lockdown :: u8
  p_flags :: u8

record loxbudget_lease =
  l_acquired_at_ms :: u32
  l_magic :: u16
  l_id :: u8
  l_op :: u8

record loxbudget_decision_record =
  a_timestamp_ms :: u32
  a_op_id :: u8
  a_denied_resource :: u8
  a_requested :: u16
  a_available :: u16
  a_action :: u8
  a_pressure :: u8
  a_reason :: u8

record loxbudget_sample =
  s_ram_used :: u16
  s_stack_estimate :: u16
  s_flash_writes :: u16
  s_queue_peak :: u16
  s_duration_us :: u32

record loxbudget_suggested_profile =
  g_ram_p50 :: u16
  g_ram_p95 :: u16
  g_ram_p99 :: u16
  g_ram_max :: u16
  g_duration_p95_us :: u32
  g_duration_p99_us :: u32
  g_duration_max_us :: u32
  g_suggested_ram_limit :: u16
  g_suggested_time_limit_us :: u32
  g_outlier_count :: u16
  g_sample_count :: u32

record loxbudget_snapshot =
  n_pressure :: u8
  n_active_lease_count :: u8
  n_resource_count :: u8
  n_op_count :: u8
  n_total_decisions :: u32
  n_total_grants :: u32
  n_total_denials :: u32
  n_total_degradations :: u32
  n_uptime_ms :: u32

record loxbudget_burn_rate =
  br_per_minute :: u32
  br_per_hour :: u32
  br_estimated_exhaustion_ms :: u32

record loxbudget_hal_callbacks =
  cb_now_ms :: ptr
  cb_critical_enter :: ptr
  cb_critical_exit :: ptr
  cb_boot_proven :: ptr
  cb_voltage_ok :: ptr
  cb_network_up :: ptr

record loxbudget_config =
  cfg_max_resources :: u8
  cfg_max_ops :: u8
  cfg_max_concurrent_leases :: u8
  cfg_audit_size :: u8
  cfg_hal_strict :: u8
  cfg_flags :: u16
  cfg_hal_callbacks :: "loxbudget_hal_callbacks option"
  cfg_hal_user :: ptr

section \<open>Structs of the storage buffer\<close>

record loxbudget_resource =
  r_limit :: u16
  r_used :: u16
  r_reserved :: u16
  r_high_watermark :: u16
  r_kind :: u8
  r_flags :: u8

record loxbudget_need =
  n_resource :: u8
  n_amount :: u16

record loxbudget_lease_slot =
  ls_magic :: u16
  ls_active :: u8
  ls_acquired_pressure :: u8

record rate_window =
  w_window_start_ms :: u32
  w_window_duration_ms :: u32
  w_consumed :: u32
  w_limit :: u32

record rate_state =
  rs_windows :: "rate_window list"
  rs_consumed_lifetime :: u32
  rs_limit_lifetime :: u32

record causality_edge =
  e_parent :: u8
  e_child :: u8
  e_weight_q8 :: u8

record p2_estimator =
  q_marker_n :: "u32 list"
  q_marker_n_prime_q16 :: "u32 list"    \<comment> \<open>\<open>int32_t\<close>, read with \<open>sint\<close>\<close>
  q_marker_q_q16 :: "u32 list"
  q_dn_q16 :: "u32 list"
  q_count :: u32
  q_initial_buffer :: "u32 list"
  q_initialized :: u8

record calib_state =
  c_active :: u8
  c_op_id :: u8
  c_target_samples :: u32
  c_sample_count :: u32
  c_ram_p50 :: p2_estimator
  c_ram_p95 :: p2_estimator
  c_ram_p99 :: p2_estimator
  c_dur_p95 :: p2_estimator
  c_dur_p99 :: p2_estimator
  c_ram_max :: u16
  c_ram_max_at_500 :: u16
  c_outlier_count :: u16
  c_dur_max_us :: u32

record loxbudget =
  b_magic :: u32
  b_max_resources :: u8
  b_max_ops :: u8
  b_max_leases :: u8
  b_pressure :: u8
  b_lease_magic_base :: u16
  b_total_decisions :: u32
  b_total_grants :: u32
  b_total_denials :: u32
  b_total_degradations :: u32
  b_storage_size :: u32
  b_resources_off :: u32
  b_ops_off :: u32
  b_needs_off :: u32
  b_lease_slots_off :: u32
  b_audit_off :: u32
  b_rate_off :: u32
  b_calib_off :: u32
  b_audit_size :: u8
  b_audit_head :: u8
  b_audit_count :: u8
  b_decision_hook :: ptr
  b_decision_hook_user :: ptr
  b_hal_cb :: "loxbudget_hal_callbacks option"
  b_hal_user :: ptr
  b_hal_strict :: u8
  t_magic2 :: u32
  t_res_cfg :: "u8 list"
  t_op_cfg :: "u8 list"
  t_resources :: "loxbudget_resource list"
  t_ops :: "loxbudget_op_profile list"
  t_needs :: "loxbudget_need list"
  t_lease_slots :: "loxbudget_lease_slot list"
  t_audit :: "loxbudget_decision_record list"
  t_rate :: "rate_state list"
  t_calib :: "calib_state list"
  t_edge_count :: u16
  t_edges :: "causality_edge list"
  t_visited :: "u8 list"

section \<open>The enum casts as a codec\<close>

text \<open>
  The three casts share one contract: reading a byte and writing it back keeps it. From
  it follow injectivity and the equality test on bytes used by the range checks.
\<close>

locale enum_cast =
  fixes dec :: "u8 \<Rightarrow> 'e" and enc :: "'e \<Rightarrow> u8"
  assumes enc_dec [simp]: "enc (dec x) = x"
begin

lemma dec_inject [simp]: "dec x = dec y \<longleftrightarrow> x = y"
  by (metis enc_dec)

lemma dec_eqD: "dec x = e \<Longrightarrow> x = enc e"
  by auto

lemma dec_eq_iff: "dec (enc e) = e \<Longrightarrow> dec x = e \<longleftrightarrow> x = enc e"
  by (metis enc_dec)

end

interpretation action_cast: enum_cast action_of_u8 u8_of_action
  by unfold_locales (simp add: action_of_u8_def)

interpretation pressure_cast: enum_cast pressure_of_u8 u8_of_pressure
  by unfold_locales (simp add: pressure_of_u8_def)

interpretation kind_cast: enum_cast kind_of_u8 u8_of_kind
  by unfold_locales (simp add: kind_of_u8_def)

lemma kind_of_u8_iff [simp]:
  "kind_of_u8 k = LOXBUDGET_RES_REUSABLE \<longleftrightarrow> k = 0"
  "kind_of_u8 k = LOXBUDGET_RES_CONSUMABLE \<longleftrightarrow> k = 1"
  "kind_of_u8 k = LOXBUDGET_RES_STATE \<longleftrightarrow> k = 2"
  by (simp_all add: kind_of_u8_def)

lemma action_of_u8_iff [simp]:
  "action_of_u8 a = LOXBUDGET_ALLOW_FULL \<longleftrightarrow> a = 0"
  "action_of_u8 a = LOXBUDGET_ALLOW_DEGRADED \<longleftrightarrow> a = 1"
  "action_of_u8 a = LOXBUDGET_WAIT \<longleftrightarrow> a = 2"
  "action_of_u8 a = LOXBUDGET_REJECT \<longleftrightarrow> a = 3"
  "action_of_u8 a = LOXBUDGET_LOCKDOWN \<longleftrightarrow> a = 4"
  by (simp_all add: action_of_u8_def)

end
