(* ===== verification/LB_Hal.thy ===== *)
theory LB_Hal
  imports LB_Types
begin

text \<open>
  The HAL layer: the callbacks of the application, the weak default symbols of
  \<open>src/loxbudget_hal.c\<close>, and the wrappers of \<open>src/loxbudget_core.c\<close> that choose
  between them.

  Application code is a parameter. An environment of any type \<open>'e\<close> is threaded through
  every call, and a \<open>platform\<close> says what a function pointer (an opaque handle, 0 for
  NULL) does to it: a clock or a state query may answer differently each time it is
  asked, and the decision hook may have any effect on the environment. The hook is given
  the instance as it is at the time of the call, because the hooks under \<open>adapters/\<close>
  read it through the pointer they keep in their context.
\<close>

section \<open>Application code\<close>

record 'e platform =
  fn_now_ms :: "ptr \<Rightarrow> ptr \<Rightarrow> 'e \<Rightarrow> u32 \<times> 'e"
  fn_void :: "ptr \<Rightarrow> ptr \<Rightarrow> 'e \<Rightarrow> 'e"
  fn_bool :: "ptr \<Rightarrow> ptr \<Rightarrow> 'e \<Rightarrow> u8 \<times> 'e"
  fn_hook :: "ptr \<Rightarrow> ptr \<Rightarrow> loxbudget \<Rightarrow> loxbudget_decision \<Rightarrow> u8 \<Rightarrow> 'e \<Rightarrow> 'e"
  weak_now_ms :: "'e \<Rightarrow> u32 \<times> 'e"
  weak_critical_enter :: "'e \<Rightarrow> 'e"
  weak_critical_exit :: "'e \<Rightarrow> 'e"
  weak_boot_proven :: "'e \<Rightarrow> u8 \<times> 'e"
  weak_voltage_ok :: "'e \<Rightarrow> u8 \<times> 'e"
  weak_network_up :: "'e \<Rightarrow> u8 \<times> 'e"

text \<open>The member of the callback table, NULL when there is no table.\<close>

definition hal_member :: "loxbudget \<Rightarrow> (loxbudget_hal_callbacks \<Rightarrow> ptr) \<Rightarrow> ptr" where
  "hal_member b sel = (case b_hal_cb b of None \<Rightarrow> 0 | Some t \<Rightarrow> sel t)"

section \<open>The wrappers of the core\<close>

definition loxbudget_hal_bool' ::
    "'e platform \<Rightarrow> loxbudget \<Rightarrow> ptr \<Rightarrow> ('e \<Rightarrow> u8 \<times> 'e) \<Rightarrow> 'e \<Rightarrow> u8 \<times> 'e" where
  "loxbudget_hal_bool' P b cb weak e =
     (if b_hal_cb b \<noteq> None \<and> cb \<noteq> 0 then fn_bool P cb (b_hal_user b) e
      else if b_hal_strict b \<noteq> 0 then (2, e)
      else weak e)"

definition loxbudget_hal_boot_proven' :: "'e platform \<Rightarrow> loxbudget \<Rightarrow> 'e \<Rightarrow> u8 \<times> 'e" where
  "loxbudget_hal_boot_proven' P b e =
     loxbudget_hal_bool' P b (hal_member b cb_boot_proven) (weak_boot_proven P) e"

definition loxbudget_hal_voltage_ok' :: "'e platform \<Rightarrow> loxbudget \<Rightarrow> 'e \<Rightarrow> u8 \<times> 'e" where
  "loxbudget_hal_voltage_ok' P b e =
     loxbudget_hal_bool' P b (hal_member b cb_voltage_ok) (weak_voltage_ok P) e"

definition loxbudget_hal_network_up' :: "'e platform \<Rightarrow> loxbudget \<Rightarrow> 'e \<Rightarrow> u8 \<times> 'e" where
  "loxbudget_hal_network_up' P b e =
     loxbudget_hal_bool' P b (hal_member b cb_network_up) (weak_network_up P) e"

definition loxbudget_hal_now_ms' :: "'e platform \<Rightarrow> loxbudget \<Rightarrow> 'e \<Rightarrow> u32 \<times> 'e" where
  "loxbudget_hal_now_ms' P b e =
     (if b_hal_cb b \<noteq> None \<and> hal_member b cb_now_ms \<noteq> 0
      then fn_now_ms P (hal_member b cb_now_ms) (b_hal_user b) e
      else weak_now_ms P e)"

definition loxbudget_critical_enter' :: "'e platform \<Rightarrow> loxbudget \<Rightarrow> 'e \<Rightarrow> 'e" where
  "loxbudget_critical_enter' P b e =
     (if b_hal_cb b \<noteq> None \<and> hal_member b cb_critical_enter \<noteq> 0
      then fn_void P (hal_member b cb_critical_enter) (b_hal_user b) e
      else weak_critical_enter P e)"

definition loxbudget_critical_exit' :: "'e platform \<Rightarrow> loxbudget \<Rightarrow> 'e \<Rightarrow> 'e" where
  "loxbudget_critical_exit' P b e =
     (if b_hal_cb b \<noteq> None \<and> hal_member b cb_critical_exit \<noteq> 0
      then fn_void P (hal_member b cb_critical_exit) (b_hal_user b) e
      else weak_critical_exit P e)"

text \<open>\<open>if (budget->decision_hook != NULL) budget->decision_hook(user, out, op);\<close>\<close>

definition run_hook :: "'e platform \<Rightarrow> loxbudget \<Rightarrow> loxbudget_decision \<Rightarrow> u8 \<Rightarrow> 'e \<Rightarrow> 'e" where
  "run_hook P b d op e =
     (if b_decision_hook b \<noteq> 0 then fn_hook P (b_decision_hook b) (b_decision_hook_user b) b d op e
      else e)"

section \<open>The default HAL\<close>

text \<open>
  The functions of \<open>src/loxbudget_hal.c\<close>. They ignore the environment; the critical
  section pair does nothing. The four handles are the addresses of the static functions
  in the permissive table.
\<close>

definition loxbudget_hal_now_ms :: "'e \<Rightarrow> u32 \<times> 'e" where
  "loxbudget_hal_now_ms e = (0, e)"

definition loxbudget_hal_critical_enter :: "'e \<Rightarrow> 'e" where
  "loxbudget_hal_critical_enter e = e"

definition loxbudget_hal_critical_exit :: "'e \<Rightarrow> 'e" where
  "loxbudget_hal_critical_exit e = e"

definition loxbudget_hal_boot_proven :: "'e \<Rightarrow> u8 \<times> 'e" where
  "loxbudget_hal_boot_proven e = (0, e)"

definition loxbudget_hal_voltage_ok :: "'e \<Rightarrow> u8 \<times> 'e" where
  "loxbudget_hal_voltage_ok e = (0, e)"

definition loxbudget_hal_network_up :: "'e \<Rightarrow> u8 \<times> 'e" where
  "loxbudget_hal_network_up e = (0, e)"

definition loxbudget_hal_perm_now_ms' :: "ptr \<Rightarrow> 'e \<Rightarrow> u32 \<times> 'e" where
  "loxbudget_hal_perm_now_ms' user e = (0, e)"

definition loxbudget_hal_perm_crit_enter' :: "ptr \<Rightarrow> 'e \<Rightarrow> 'e" where
  "loxbudget_hal_perm_crit_enter' user e = e"

definition loxbudget_hal_perm_crit_exit' :: "ptr \<Rightarrow> 'e \<Rightarrow> 'e" where
  "loxbudget_hal_perm_crit_exit' user e = e"

definition loxbudget_hal_perm_true' :: "ptr \<Rightarrow> 'e \<Rightarrow> u8 \<times> 'e" where
  "loxbudget_hal_perm_true' user e = (1, e)"

definition loxbudget_hal_default_permissive :: loxbudget_hal_callbacks where
  "loxbudget_hal_default_permissive =
     \<lparr>cb_now_ms = 1, cb_critical_enter = 2, cb_critical_exit = 3,
      cb_boot_proven = 4, cb_voltage_ok = 4, cb_network_up = 4\<rparr>"

text \<open>
  A platform of a program that overrides nothing: the handles 1 to 4 are the permissive
  functions, the weak symbols keep their defaults. \<open>hook\<close> is the application's hook.
\<close>

definition host_platform ::
    "(ptr \<Rightarrow> ptr \<Rightarrow> loxbudget \<Rightarrow> loxbudget_decision \<Rightarrow> u8 \<Rightarrow> 'e \<Rightarrow> 'e) \<Rightarrow> 'e platform" where
  "host_platform hook =
     \<lparr>fn_now_ms = (\<lambda>f. loxbudget_hal_perm_now_ms'),
      fn_void = (\<lambda>f. if f = 2 then loxbudget_hal_perm_crit_enter' else loxbudget_hal_perm_crit_exit'),
      fn_bool = (\<lambda>f. loxbudget_hal_perm_true'),
      fn_hook = hook,
      weak_now_ms = loxbudget_hal_now_ms,
      weak_critical_enter = loxbudget_hal_critical_enter,
      weak_critical_exit = loxbudget_hal_critical_exit,
      weak_boot_proven = loxbudget_hal_boot_proven,
      weak_voltage_ok = loxbudget_hal_voltage_ok,
      weak_network_up = loxbudget_hal_network_up\<rparr>"

lemmas hal_c_defs = loxbudget_hal_now_ms_def loxbudget_hal_critical_enter_def
  loxbudget_hal_critical_exit_def loxbudget_hal_boot_proven_def loxbudget_hal_voltage_ok_def
  loxbudget_hal_network_up_def loxbudget_hal_perm_now_ms'_def loxbudget_hal_perm_crit_enter'_def
  loxbudget_hal_perm_crit_exit'_def loxbudget_hal_perm_true'_def host_platform_def
  loxbudget_hal_default_permissive_def

lemmas hal_wrapper_defs = loxbudget_hal_bool'_def loxbudget_hal_boot_proven'_def
  loxbudget_hal_voltage_ok'_def loxbudget_hal_network_up'_def loxbudget_hal_now_ms'_def
  loxbudget_critical_enter'_def loxbudget_critical_exit'_def hal_member_def

section \<open>What the wrappers depend on\<close>

text \<open>
  The wrappers (names ending in an underscore in C, in a prime here) read the callback table, the user pointer and the strictness flag, so a
  change to the rest of the instance does not change what they do.
\<close>

definition same_hal :: "loxbudget \<Rightarrow> loxbudget \<Rightarrow> bool" where
  "same_hal b c \<longleftrightarrow> b_hal_cb b = b_hal_cb c \<and> b_hal_user b = b_hal_user c \<and> b_hal_strict b = b_hal_strict c"

lemma same_hal_refl [simp]: "same_hal b b"
  by (simp add: same_hal_def)

lemma same_hal_trans: "same_hal a b \<Longrightarrow> same_hal b c \<Longrightarrow> same_hal a c"
  by (simp add: same_hal_def)

lemma same_hal_wrappers:
  assumes "same_hal b c"
  shows "loxbudget_hal_now_ms' P b = loxbudget_hal_now_ms' P c"
    and "loxbudget_critical_enter' P b = loxbudget_critical_enter' P c"
    and "loxbudget_critical_exit' P b = loxbudget_critical_exit' P c"
    and "loxbudget_hal_boot_proven' P b = loxbudget_hal_boot_proven' P c"
    and "loxbudget_hal_voltage_ok' P b = loxbudget_hal_voltage_ok' P c"
    and "loxbudget_hal_network_up' P b = loxbudget_hal_network_up' P c"
  using assms by (auto simp: same_hal_def hal_wrapper_defs fun_eq_iff)

section \<open>Fail-closed queries\<close>

text \<open>
  The contract behind the three state queries: the callback if there is one, else the
  sentinel 2 in strict mode, else the weak symbol. It is stated once for a query given
  by its table member and weak symbol.
\<close>

locale hal_query =
  fixes query :: "'e platform \<Rightarrow> loxbudget \<Rightarrow> 'e \<Rightarrow> u8 \<times> 'e"
    and member :: "loxbudget_hal_callbacks \<Rightarrow> ptr"
    and weak :: "'e platform \<Rightarrow> 'e \<Rightarrow> u8 \<times> 'e"
  assumes query_eq: "query P b e = loxbudget_hal_bool' P b (hal_member b member) (weak P) e"
begin

lemma configured:
  "b_hal_cb b = Some t \<Longrightarrow> member t \<noteq> 0 \<Longrightarrow> query P b e = fn_bool P (member t) (b_hal_user b) e"
  by (simp add: query_eq loxbudget_hal_bool'_def hal_member_def)

lemma strict_unconfigured:
  "b_hal_strict b \<noteq> 0 \<Longrightarrow> hal_member b member = 0 \<Longrightarrow> query P b e = (2, e)"
  by (simp add: query_eq loxbudget_hal_bool'_def)

lemma lax_unconfigured:
  "b_hal_strict b = 0 \<Longrightarrow> hal_member b member = 0 \<Longrightarrow> query P b e = weak P e"
  by (simp add: query_eq loxbudget_hal_bool'_def)

end

interpretation boot_query: hal_query loxbudget_hal_boot_proven' cb_boot_proven weak_boot_proven
  by unfold_locales (simp add: loxbudget_hal_boot_proven'_def)

interpretation voltage_query: hal_query loxbudget_hal_voltage_ok' cb_voltage_ok weak_voltage_ok
  by unfold_locales (simp add: loxbudget_hal_voltage_ok'_def)

interpretation network_query: hal_query loxbudget_hal_network_up' cb_network_up weak_network_up
  by unfold_locales (simp add: loxbudget_hal_network_up'_def)

section \<open>Critical sections\<close>

text \<open>
  What is assumed of an application's critical section: a nesting depth that only the
  enter and exit functions change, by plus and minus one.
\<close>

definition depth_discipline :: "'e platform \<Rightarrow> loxbudget \<Rightarrow> ('e \<Rightarrow> int) \<Rightarrow> bool" where
  "depth_discipline P b depth \<longleftrightarrow>
     (\<forall>e. depth (loxbudget_critical_enter' P b e) = depth e + 1) \<and>
     (\<forall>e. depth (loxbudget_critical_exit' P b e) = depth e - 1) \<and>
     (\<forall>e. depth (snd (loxbudget_hal_now_ms' P b e)) = depth e) \<and>
     (\<forall>e. depth (snd (loxbudget_hal_boot_proven' P b e)) = depth e) \<and>
     (\<forall>e. depth (snd (loxbudget_hal_voltage_ok' P b e)) = depth e) \<and>
     (\<forall>e. depth (snd (loxbudget_hal_network_up' P b e)) = depth e) \<and>
     (\<forall>f u c d op e. depth (fn_hook P f u c d op e) = depth e)"

lemma depth_discipline_cong: "same_hal b c \<Longrightarrow> depth_discipline P b depth = depth_discipline P c depth"
  by (simp add: depth_discipline_def same_hal_wrappers)

end
