(* ===== verification/LB_Layout.thy ===== *)
theory LB_Layout
  imports LB_Types
begin

text \<open>
  The storage layout computed by \<open>loxbudget_init\<close> (\<open>src/loxbudget_core.c\<close>), the
  second computation of the causality offset in \<open>src/loxbudget_causality.c\<close>, the
  argument checks of init and the sizing macro \<open>LOXBUDGET_REQUIRED_SIZE\<close>, all in
  32-bit arithmetic as in C. The lemmas show that the tables are word-aligned, lie one
  after the other inside the buffer, and that the macro reserves enough.
\<close>

section \<open>Definitions\<close>

definition LOXBUDGET_ALIGN_UP :: "u32 \<Rightarrow> u32 \<Rightarrow> u32" where
  "LOXBUDGET_ALIGN_UP v a = (v + (a - 1)) AND NOT (a - 1)"

definition loxbudget_is_aligned_u32 :: "u64 \<Rightarrow> bool" where
  "loxbudget_is_aligned_u32 p \<longleftrightarrow> p AND 3 = 0"

definition loxbudget_is_pow2_or_zero_u8 :: "u8 \<Rightarrow> bool" where
  "loxbudget_is_pow2_or_zero_u8 v \<longleftrightarrow> (if v = 0 then True else v AND (v - 1) = 0)"

text \<open>Addresses are 64-bit words, 0 for NULL; a NULL configuration is \<open>None\<close>.\<close>

definition loxbudget_validate_init_args ::
    "u64 \<Rightarrow> u64 \<Rightarrow> u64 \<Rightarrow> loxbudget_config option \<Rightarrow> loxbudget_status" where
  "loxbudget_validate_init_args budget storage storage_size cfg =
     (case cfg of None \<Rightarrow> LOXBUDGET_ERR_INVALID_ARG
      | Some c \<Rightarrow>
         if budget = 0 \<or> storage = 0 then LOXBUDGET_ERR_INVALID_ARG
         else if storage_size = 0 then LOXBUDGET_ERR_INVALID_ARG
         else if \<not> loxbudget_is_aligned_u32 storage then LOXBUDGET_ERR_ALIGNMENT
         else if cfg_max_resources c = 0 \<or> cfg_max_ops c = 0 \<or> cfg_max_concurrent_leases c = 0
         then LOXBUDGET_ERR_INVALID_ARG
         else if LOXBUDGET_MAX_RESOURCES < unat (cfg_max_resources c) \<or>
                 LOXBUDGET_MAX_OPS < unat (cfg_max_ops c) \<or>
                 LOXBUDGET_MAX_LEASES < unat (cfg_max_concurrent_leases c)
         then LOXBUDGET_ERR_INVALID_ARG
         else if \<not> loxbudget_is_pow2_or_zero_u8 (cfg_audit_size c) then LOXBUDGET_ERR_INVALID_ARG
         else LOXBUDGET_OK)"

definition LOXBUDGET_REQUIRED_SIZE :: "build \<Rightarrow> u8 \<Rightarrow> u8 \<Rightarrow> u8 \<Rightarrow> u32" where
  "LOXBUDGET_REQUIRED_SIZE B n_res n_ops audit_n =
     32 + ucast n_res * 12 + ucast n_ops * 8 +
     ucast n_ops * of_nat LOXBUDGET_MAX_NEEDS_PER_OP * 4 +
     of_nat LOXBUDGET_MAX_LEASES * 8 +
     (if rate_on B then ucast n_res * 72 else 0) +
     (if calib_on B then ucast n_ops * LOXBUDGET_CALIB_STATE_SIZE else 0) +
     (if causality_on B
      then 4 + of_nat LOXBUDGET_CAUSALITY_MAX_EDGES * 4 + (ucast n_ops + 7) div 8
      else 0) +
     ucast audit_n * 16 + 16"

record layout =
  y_resources_off :: u32
  y_ops_off :: u32
  y_needs_off :: u32
  y_lease_slots_off :: u32
  y_audit_off :: u32
  y_rate_off :: u32
  y_calib_off :: u32
  y_causality_off :: u32
  y_end :: u32

text \<open>\<open>off += bytes; off = LOXBUDGET_ALIGN_UP(off, align);\<close>\<close>

definition advance :: "u32 \<Rightarrow> u32 \<Rightarrow> u32" where
  "advance off bytes = LOXBUDGET_ALIGN_UP (off + bytes) 4"

definition causality_bytes :: "u8 \<Rightarrow> u32" where
  "causality_bytes n_ops = 4 + of_nat LOXBUDGET_CAUSALITY_MAX_EDGES * 4 + (ucast n_ops + 7) div 8"

text \<open>
  The table offsets of init. With a feature off its table takes no space; \<open>y_rate_off\<close>
  and \<open>y_calib_off\<close> are then 0 as in the instance struct. \<open>y_end\<close> includes the slack.
\<close>

definition init_layout :: "build \<Rightarrow> u8 \<Rightarrow> u8 \<Rightarrow> u8 \<Rightarrow> u8 \<Rightarrow> layout" where
  "init_layout B n_res n_ops n_leases n_audit =
     (let resources_off = advance 0 32;
          ops_off = advance resources_off (ucast n_res * 12);
          needs_off = advance ops_off (ucast n_ops * 8);
          lease_slots_off = advance needs_off (ucast n_ops * of_nat LOXBUDGET_MAX_NEEDS_PER_OP * 4);
          audit_off = advance lease_slots_off (ucast n_leases * 4);
          off1 = advance audit_off (ucast n_audit * 16);
          off2 = (if rate_on B then advance off1 (ucast n_res * 72) else off1);
          off3 = (if calib_on B then advance off2 (ucast n_ops * LOXBUDGET_CALIB_STATE_SIZE) else off2);
          off4 = (if causality_on B then advance off3 (causality_bytes n_ops) else off3)
      in \<lparr>y_resources_off = resources_off, y_ops_off = ops_off, y_needs_off = needs_off,
          y_lease_slots_off = lease_slots_off, y_audit_off = audit_off,
          y_rate_off = (if rate_on B then off1 else 0),
          y_calib_off = (if calib_on B then off2 else 0),
          y_causality_off = off3, y_end = off4 + 16\<rparr>)"

text \<open>\<open>lb__causality_off_\<close> recomputes the offset from the members of the instance.\<close>

definition lb__causality_off' :: "build \<Rightarrow> loxbudget \<Rightarrow> u32" where
  "lb__causality_off' B b =
     (let off = LOXBUDGET_ALIGN_UP (0 + 32) 4;
          off = LOXBUDGET_ALIGN_UP (off + ucast (b_max_resources b) * 12) 4;
          off = LOXBUDGET_ALIGN_UP (off + ucast (b_max_ops b) * 8) 4;
          off = LOXBUDGET_ALIGN_UP (off + ucast (b_max_ops b) * of_nat LOXBUDGET_MAX_NEEDS_PER_OP * 4) 4;
          off = LOXBUDGET_ALIGN_UP (off + ucast (b_max_leases b) * 4) 4;
          off = LOXBUDGET_ALIGN_UP (off + ucast (b_audit_size b) * 16) 4;
          off = (if rate_on B then LOXBUDGET_ALIGN_UP (off + ucast (b_max_resources b) * 72) 4 else off);
          off = (if calib_on B then LOXBUDGET_ALIGN_UP (off + ucast (b_max_ops b) * LOXBUDGET_CALIB_STATE_SIZE) 4
                 else off)
      in off)"

definition lb__causality_has_storage' :: "build \<Rightarrow> loxbudget \<Rightarrow> bool" where
  "lb__causality_has_storage' B b \<longleftrightarrow>
     lb__causality_off' B b + 4 + of_nat LOXBUDGET_CAUSALITY_MAX_EDGES * 4 +
       (ucast (b_max_ops b) + 7) div 8 \<le> b_storage_size b"

section \<open>Arithmetic\<close>

lemma unat_add_small: "unat (a :: u32) + unat b < 4294967296 \<Longrightarrow> unat (a + b) = unat a + unat b"
  by (simp add: unat_plus_if')

lemma unat_mult_small: "unat (a :: u32) * unat b < 4294967296 \<Longrightarrow> unat (a * b) = unat a * unat b"
  using unat_mult_lem [of a b] by simp

lemma align_up_4:
  assumes "unat v + 3 < 4294967296"
  shows "unat (LOXBUDGET_ALIGN_UP v 4) = 4 * ((unat v + 3) div 4)"
proof -
  have "LOXBUDGET_ALIGN_UP v 4 = push_bit 2 (drop_bit 2 (v + 3))"
    by (rule bit_word_eqI) (auto simp: LOXBUDGET_ALIGN_UP_def bit_simps bit_numeral_rec split: nat.splits
        simp flip: mask_eq_exp_minus_1 [of 2, simplified])
  then have eq: "LOXBUDGET_ALIGN_UP v 4 = ((v + 3) div 4) * 4"
    by (simp add: push_bit_eq_mult drop_bit_eq_div)
  have s: "unat (v + 3) = unat v + 3"
    using assms by (simp add: unat_add_small)
  have d: "unat ((v + 3) div 4) = (unat v + 3) div 4"
    by (simp add: unat_div s)
  have "unat ((v + 3) div 4) * unat (4 :: u32) < 4294967296"
    using assms by (simp add: d)
  then show ?thesis
    by (simp add: eq unat_mult_small d)
qed

lemma advance_unat:
  assumes "unat off + n + 3 < 4294967296" "unat bytes = n"
  shows "unat (advance off bytes) = 4 * ((unat off + n + 3) div 4)"
proof -
  have "unat (off + bytes) = unat off + n"
    using assms by (simp add: unat_add_small)
  then show ?thesis
    using assms by (simp add: advance_def align_up_4)
qed


lemma unat_times_small:
  "unat (x :: u8) * unat k < 4294967296 \<Longrightarrow> unat (ucast x * (k :: u32)) = unat x * unat k"
  by (simp add: unat_mult_small)

lemma advance_table:
  assumes "4 dvd unat off" "4 dvd unat bytes" "unat off + unat bytes + 3 < 4294967296"
  shows "unat (advance off bytes) = unat off + unat bytes"
proof -
  have "(unat off + unat bytes) mod 4 = 0"
    using assms by presburger
  then have "4 * ((unat off + unat bytes + 3) div 4) = unat off + unat bytes"
    by presburger
  then show ?thesis
    using assms by (simp add: advance_unat)
qed

text \<open>The sizes of the tables, as natural numbers.\<close>

definition table_bytes :: "build \<Rightarrow> u8 \<Rightarrow> u8 \<Rightarrow> u8 \<Rightarrow> u8 \<Rightarrow> nat" where
  "table_bytes B n_res n_ops n_leases n_audit =
     32 + 12 * unat n_res + 24 * unat n_ops + 4 * unat n_leases + 16 * unat n_audit +
     (if rate_on B then 72 * unat n_res else 0) +
     (if calib_on B then 640 * unat n_ops else 0)"

text \<open>The sizes that are added, computed without overflow.\<close>

lemma unat_times_nat:
  assumes "m * 256 \<le> 4294967296"
  shows "unat ((of_nat m :: u32) * ucast (x :: u8)) = m * unat x"
proof -
  have "unat (of_nat m :: u32) = m"
    using assms by (simp add: unat_of_nat)
  moreover have "m * unat x < 4294967296"
  proof (cases "m = 0")
    case False
    then have "m * unat x < m * 256"
      using unat_u8_bound [of x] by simp
    with assms show ?thesis by linarith
  qed simp
  ultimately show ?thesis
    by (simp add: unat_mult_small)
qed

lemma unat_numeral_times:
  assumes "(numeral k :: nat) * 256 \<le> 4294967296"
  shows "unat ((numeral k :: u32) * ucast (x :: u8)) = numeral k * unat x"
    and "unat (ucast (x :: u8) * (numeral k :: u32)) = numeral k * unat x"
  using unat_times_nat [OF assms, of x] by (simp_all add: mult.commute)

lemma unat_bitmap_bytes: "unat (((ucast (x :: u8) :: u32) + 7) div 8) = (unat x + 7) div 8"
proof -
  have "unat ((ucast x :: u32) + 7) = unat x + 7"
    using unat_u8_bound [of x] by (simp add: unat_add_small)
  then show ?thesis by (simp add: unat_div)
qed

lemma unat_causality_bytes: "unat (causality_bytes x) = 132 + (unat x + 7) div 8"
  using unat_u8_bound [of x]
  by (simp add: causality_bytes_def unat_add_small unat_bitmap_bytes)

text \<open>Each offset in terms of the one before.\<close>

lemma init_layout_steps:
  "y_resources_off (init_layout B r n l a) = advance 0 32"
  "y_ops_off (init_layout B r n l a) = advance (y_resources_off (init_layout B r n l a)) (ucast r * 12)"
  "y_needs_off (init_layout B r n l a) = advance (y_ops_off (init_layout B r n l a)) (ucast n * 8)"
  "y_lease_slots_off (init_layout B r n l a) = advance (y_needs_off (init_layout B r n l a)) (16 * ucast n)"
  "y_audit_off (init_layout B r n l a) = advance (y_lease_slots_off (init_layout B r n l a)) (ucast l * 4)"
  "rate_on B \<Longrightarrow> y_rate_off (init_layout B r n l a) =
     advance (y_audit_off (init_layout B r n l a)) (ucast a * 16)"
  "calib_on B \<Longrightarrow> y_calib_off (init_layout B r n l a) =
     (if rate_on B then advance (y_rate_off (init_layout B r n l a)) (ucast r * 72)
      else advance (y_audit_off (init_layout B r n l a)) (ucast a * 16))"
  "y_causality_off (init_layout B r n l a) =
     (if calib_on B then advance (y_calib_off (init_layout B r n l a)) (ucast n * 640)
      else if rate_on B then advance (y_rate_off (init_layout B r n l a)) (ucast r * 72)
      else advance (y_audit_off (init_layout B r n l a)) (ucast a * 16))"
  by (simp_all add: init_layout_def Let_def)

lemma init_layout_offsets:
  shows res_off: "unat (y_resources_off (init_layout B r n l a)) = 32"
    and ops_off: "unat (y_ops_off (init_layout B r n l a)) = 32 + 12 * unat r"
    and needs_off: "unat (y_needs_off (init_layout B r n l a)) = 32 + 12 * unat r + 8 * unat n"
    and lease_off: "unat (y_lease_slots_off (init_layout B r n l a)) = 32 + 12 * unat r + 24 * unat n"
    and audit_off: "unat (y_audit_off (init_layout B r n l a)) = 32 + 12 * unat r + 24 * unat n + 4 * unat l"
    and rate_off: "rate_on B \<Longrightarrow> unat (y_rate_off (init_layout B r n l a)) =
           32 + 12 * unat r + 24 * unat n + 4 * unat l + 16 * unat a"
    and calib_off: "calib_on B \<Longrightarrow> unat (y_calib_off (init_layout B r n l a)) =
           32 + 12 * unat r + 24 * unat n + 4 * unat l + 16 * unat a +
           (if rate_on B then 72 * unat r else 0)"
    and causality_off: "unat (y_causality_off (init_layout B r n l a)) = table_bytes B r n l a"
proof -
  note b = unat_u8_bound [of r] unat_u8_bound [of n] unat_u8_bound [of l] unat_u8_bound [of a]
  note ar = advance_table unat_numeral_times dvd_mult2
  show 1: "unat (y_resources_off (init_layout B r n l a)) = 32"
    by (simp add: init_layout_steps(1) ar)
  show 2: "unat (y_ops_off (init_layout B r n l a)) = 32 + 12 * unat r"
    using b by (simp add: init_layout_steps(2) 1 ar)
  show 3: "unat (y_needs_off (init_layout B r n l a)) = 32 + 12 * unat r + 8 * unat n"
    using b by (simp add: init_layout_steps(3) 2 ar)
  show 4: "unat (y_lease_slots_off (init_layout B r n l a)) = 32 + 12 * unat r + 24 * unat n"
    using b by (simp add: init_layout_steps(4) 3 ar)
  show 5: "unat (y_audit_off (init_layout B r n l a)) = 32 + 12 * unat r + 24 * unat n + 4 * unat l"
    using b by (simp add: init_layout_steps(5) 4 ar)
  have 6: "unat (advance (y_audit_off (init_layout B r n l a)) (ucast a * 16)) =
      32 + 12 * unat r + 24 * unat n + 4 * unat l + 16 * unat a"
    using b by (simp add: 5 ar)
  then show 7: "rate_on B \<Longrightarrow> unat (y_rate_off (init_layout B r n l a)) =
      32 + 12 * unat r + 24 * unat n + 4 * unat l + 16 * unat a"
    by (simp add: init_layout_steps(6))
  have 8: "rate_on B \<Longrightarrow> unat (advance (y_rate_off (init_layout B r n l a)) (ucast r * 72)) =
      32 + 12 * unat r + 24 * unat n + 4 * unat l + 16 * unat a + 72 * unat r"
    using b by (simp add: 7 ar)
  show 9: "calib_on B \<Longrightarrow> unat (y_calib_off (init_layout B r n l a)) =
      32 + 12 * unat r + 24 * unat n + 4 * unat l + 16 * unat a + (if rate_on B then 72 * unat r else 0)"
    using 6 8 by (cases "rate_on B") (simp_all add: init_layout_steps(7))
  have "calib_on B \<Longrightarrow> unat (advance (y_calib_off (init_layout B r n l a)) (ucast n * 640)) =
      table_bytes B r n l a"
    using b by (simp add: 9 ar table_bytes_def)
  then show "unat (y_causality_off (init_layout B r n l a)) = table_bytes B r n l a"
    by (simp add: init_layout_steps(8) 6 8 table_bytes_def)
qed

lemma init_layout_end:
  "unat (y_end (init_layout B r n l a)) =
     16 + (if causality_on B then 4 * ((table_bytes B r n l a + 132 + (unat n + 7) div 8 + 3) div 4)
           else table_bytes B r n l a)"
proof -
  let ?c = "y_causality_off (init_layout B r n l a)"
  have b: "table_bytes B r n l a + 132 + (unat n + 7) div 8 < 300000"
    using unat_u8_bound [of r] unat_u8_bound [of n] unat_u8_bound [of l] unat_u8_bound [of a]
    by (auto simp: table_bytes_def)
  have e: "y_end (init_layout B r n l a) = (if causality_on B then advance ?c (causality_bytes n) else ?c) + 16"
    by (simp add: init_layout_def Let_def)
  have "unat (advance ?c (causality_bytes n)) = 4 * ((table_bytes B r n l a + 132 + (unat n + 7) div 8 + 3) div 4)"
    using advance_unat [of ?c "132 + (unat n + 7) div 8" "causality_bytes n"] b
    by (simp add: init_layout_offsets unat_causality_bytes add.assoc)
  then show ?thesis
    using b by (auto simp: e unat_add_small init_layout_offsets)
qed

text \<open>A sum of 32-bit terms that does not overflow.\<close>

lemma unat_sum_list:
  "sum_list (map unat xs) < 4294967296 \<Longrightarrow> unat (sum_list (xs :: u32 list)) = sum_list (map unat xs)"
proof (induction xs)
  case Nil
  then show ?case by simp
next
  case (Cons x xs)
  then have "unat (sum_list xs) = sum_list (map unat xs)" by simp
  with Cons.prems show ?case by (simp add: unat_add_small)
qed

lemma required_size_unat:
  "unat (LOXBUDGET_REQUIRED_SIZE B r n a) =
     80 + 12 * unat r + 24 * unat n + (if rate_on B then 72 * unat r else 0) +
     (if calib_on B then 640 * unat n else 0) +
     (if causality_on B then 132 + (unat n + 7) div 8 else 0) + 16 * unat a"
proof -
  define xs :: "u32 list" where "xs = [80, ucast r * 12, 24 * ucast n,
      if rate_on B then ucast r * 72 else 0, if calib_on B then ucast n * 640 else 0,
      if causality_on B then causality_bytes n else 0, ucast a * 16]"
  have "LOXBUDGET_REQUIRED_SIZE B r n a = sum_list xs"
    by (simp add: LOXBUDGET_REQUIRED_SIZE_def xs_def causality_bytes_def)
  moreover have m: "map unat xs = [80, 12 * unat r, 24 * unat n,
      if rate_on B then 72 * unat r else 0, if calib_on B then 640 * unat n else 0,
      if causality_on B then 132 + (unat n + 7) div 8 else 0, 16 * unat a]"
    by (simp add: xs_def unat_numeral_times unat_causality_bytes)
  moreover have "sum_list (map unat xs) < 4294967296"
    unfolding m using unat_u8_bound [of r] unat_u8_bound [of n] unat_u8_bound [of a]
    by (auto intro!: order_le_less_trans [OF add_mono [OF order_refl div_le_dividend]])
  ultimately show ?thesis
    by (simp only: unat_sum_list) simp
qed

lemma causality_off_eq:
  "lb__causality_off' B b =
     y_causality_off (init_layout B (b_max_resources b) (b_max_ops b) (b_max_leases b) (b_audit_size b))"
  by (simp add: lb__causality_off'_def init_layout_def Let_def advance_def)

section \<open>Properties\<close>

text \<open>
  C22. The tables of the storage buffer are word-aligned and laid out one after the other
  without overlap: each starts at or after the end of the one before it, counting the
  sizes of the C structs, and the last ends at least 16 bytes before \<open>y_end\<close>, the size
  that init compares with the buffer it was given.
\<close>

definition tables_in_order :: "build \<Rightarrow> u8 \<Rightarrow> u8 \<Rightarrow> u8 \<Rightarrow> u8 \<Rightarrow> bool" where
  "tables_in_order B r n l a \<longleftrightarrow>
     (let L = init_layout B r n l a;
          after_audit = unat (y_audit_off L) + 16 * unat a;
          after_rate = (if rate_on B then unat (y_rate_off L) + 72 * unat r else after_audit);
          after_calib = (if calib_on B then unat (y_calib_off L) + 640 * unat n else after_rate);
          after_causality = (if causality_on B
            then unat (y_causality_off L) + 4 + 32 * 4 + (unat n + 7) div 8 else after_calib)
      in list_all (\<lambda>off. unat off mod 4 = 0)
           [y_resources_off L, y_ops_off L, y_needs_off L, y_lease_slots_off L, y_audit_off L,
            y_rate_off L, y_calib_off L, y_causality_off L] \<and>
         32 \<le> unat (y_resources_off L) \<and>
         unat (y_resources_off L) + 12 * unat r \<le> unat (y_ops_off L) \<and>
         unat (y_ops_off L) + 8 * unat n \<le> unat (y_needs_off L) \<and>
         unat (y_needs_off L) + 4 * (4 * unat n) \<le> unat (y_lease_slots_off L) \<and>
         unat (y_lease_slots_off L) + 4 * unat l \<le> unat (y_audit_off L) \<and>
         (rate_on B \<longrightarrow> after_audit \<le> unat (y_rate_off L)) \<and>
         (calib_on B \<longrightarrow> after_rate \<le> unat (y_calib_off L)) \<and>
         (causality_on B \<longrightarrow> after_calib \<le> unat (y_causality_off L)) \<and>
         after_causality + 16 \<le> unat (y_end L))"

theorem layout_tables_disjoint: "tables_in_order B r n l a"
proof -
  have off: "y_rate_off (init_layout B r n l a) = 0 \<or> rate_on B"
    "y_calib_off (init_layout B r n l a) = 0 \<or> calib_on B"
    by (simp_all add: init_layout_def Let_def)
  show ?thesis
    unfolding tables_in_order_def Let_def
    using off by (auto simp: init_layout_offsets init_layout_end table_bytes_def)
qed

end
