(* ===== verification/LB_Rate.thy ===== *)
theory LB_Rate
  imports LB_Types
begin

text \<open>
  Rate windows (\<open>LOXBUDGET_ENABLE_RATE_WINDOWS\<close>): the window arithmetic of
  \<open>src/loxbudget_core.c\<close> in both implementations selected by \<open>LOXBUDGET_RATE_IMPL\<close>,
  the fixed window and the Q16.16 token bucket. The API functions that use them on an
  instance are in \<open>LB_Rate_Api\<close>.

  In a token bucket \<open>w_consumed\<close> holds the tokens left, shifted left by 16, and
  \<open>w_window_start_ms\<close> the time of the last refill.
\<close>

section \<open>Definitions\<close>

definition lb__window_duration_ms :: "c_enum \<Rightarrow> u32" where
  "lb__window_duration_ms w =
     (if w = 0 then 1000 else if w = 1 then 60000 else if w = 2 then 3600000
      else if w = 3 then 86400000 else 0)"

definition token_cap :: "rate_window \<Rightarrow> u64" where
  "token_cap w = push_bit 16 (ucast (w_limit w))"

definition token_refill :: "rate_window \<Rightarrow> u32 \<Rightarrow> rate_window" where
  "token_refill w now =
     (let dt = now - w_window_start_ms w in
      if dt \<noteq> 0
      then let cap = token_cap w;
               add = (cap * ucast dt) div ucast (w_window_duration_ms w);
               tok = ucast (w_consumed w) + add;
               tok = (if tok > cap then cap else tok)
           in w\<lparr>w_consumed := ucast tok, w_window_start_ms := now\<rparr>
      else w)"

definition window_roll :: "rate_window \<Rightarrow> u32 \<Rightarrow> rate_window" where
  "window_roll w now =
     (if now - w_window_start_ms w \<ge> w_window_duration_ms w
      then w\<lparr>w_window_start_ms := now, w_consumed := 0\<rparr> else w)"

definition window_off :: "rate_window \<Rightarrow> bool" where
  "window_off w \<longleftrightarrow> w_limit w = 0 \<or> w_window_duration_ms w = 0"

definition lb__rate_roll_and_check :: "build \<Rightarrow> rate_window \<Rightarrow> u32 \<Rightarrow> u32 \<Rightarrow> rate_window \<times> bool" where
  "lb__rate_roll_and_check B w now_ms amount =
     (if window_off w then (w, True)
      else if token_bucket B
      then let w' = token_refill w now_ms; need = push_bit 16 (ucast amount :: u64)
           in (w', ucast (w_consumed w') \<ge> need)
      else let w' = window_roll w now_ms
           in if w_consumed w' > w_limit w' then (w', False)
              else if amount > w_limit w' - w_consumed w' then (w', False)
              else (w', True))"

definition lb__rate_commit :: "build \<Rightarrow> rate_window \<Rightarrow> u32 \<Rightarrow> u32 \<Rightarrow> rate_window" where
  "lb__rate_commit B w now_ms amount =
     (if window_off w then w
      else if token_bucket B
      then let w' = fst (lb__rate_roll_and_check B w now_ms 0); need = push_bit 16 (ucast amount :: u64)
           in if ucast (w_consumed w') \<ge> need
              then w'\<lparr>w_consumed := ucast (ucast (w_consumed w') - need :: u64)\<rparr>
              else w'\<lparr>w_consumed := 0\<rparr>
      else let w' = window_roll w now_ms
           in w'\<lparr>w_consumed := sat_add32 (w_consumed w') amount\<rparr>)"

section \<open>Fixed window\<close>

lemma window_roll_frame [simp, frame]:
  "w_limit (window_roll w now) = w_limit w"
  "w_window_duration_ms (window_roll w now) = w_window_duration_ms w"
  "window_off (window_roll w now) = window_off w"
  by (auto simp: window_roll_def window_off_def)

lemma window_roll_idem: "window_roll (window_roll w now) now = window_roll w now"
  by (auto simp: window_roll_def)

lemma window_roll_inside:
  "now - w_window_start_ms w < w_window_duration_ms w \<Longrightarrow> window_roll w now = w"
  by (simp add: window_roll_def)

lemma window_roll_consumed:
  "w_consumed (window_roll w now) = 0 \<or> w_consumed (window_roll w now) = w_consumed w"
  by (simp add: window_roll_def)

lemma fixed_check:
  "\<not> window_off w \<Longrightarrow> \<not> token_bucket B \<Longrightarrow>
   lb__rate_roll_and_check B w now a =
     (window_roll w now, unat (w_consumed (window_roll w now)) + unat a \<le> unat (w_limit w))"
  by (auto simp: lb__rate_roll_and_check_def Let_def word_less_nat_alt unat_sub word_le_nat_alt)

lemma fixed_commit:
  "\<not> window_off w \<Longrightarrow> \<not> token_bucket B \<Longrightarrow>
   lb__rate_commit B w now a =
     (window_roll w now)\<lparr>w_consumed := sat_add32 (w_consumed (window_roll w now)) a\<rparr>"
  by (simp add: lb__rate_commit_def Let_def)

section \<open>Token bucket\<close>

text \<open>
  With limits below 65536 the capacity fits in the 32 bits of \<open>w_consumed\<close> and the
  64-bit product of the refill does not overflow.
\<close>

definition bucket_ok :: "rate_window \<Rightarrow> bool" where
  "bucket_ok w \<longleftrightarrow> unat (w_limit w) < 65536 \<and> unat (w_consumed w) \<le> unat (w_limit w) * 65536"

lemma unat_push16: "unat (push_bit 16 (ucast (x :: u32)) :: u64) = unat x * 65536"
proof -
  have "unat (push_bit 16 (ucast x :: u64)) = unat ((2 ^ 16 :: u64) * ucast x)"
    by (simp add: push_bit_eq_mult mult.commute)
  also have "\<dots> = 65536 * unat x"
    using unat_u32_bound [of x] unat_mult_lem [of "2 ^ 16 :: u64" "ucast x"] by simp
  finally show ?thesis by simp
qed

lemma unat_token_cap: "unat (token_cap w) = unat (w_limit w) * 65536"
  by (simp add: token_cap_def unat_push16)

lemma token_refill_frame [simp, frame]:
  "w_limit (token_refill w now) = w_limit w"
  "w_window_duration_ms (token_refill w now) = w_window_duration_ms w"
  "window_off (token_refill w now) = window_off w"
  by (auto simp: token_refill_def window_off_def Let_def)

lemma token_refill_idem: "token_refill (token_refill w now) now = token_refill w now"
  by (auto simp: token_refill_def Let_def)

lemma token_refill_start: "w_window_start_ms (token_refill w now) = now"
  by (auto simp: token_refill_def Let_def)

text \<open>The refill in \<open>nat\<close>: the tokens grow by \<open>cap * dt div duration\<close>, up to the capacity.\<close>

lemma token_refill_consumed:
  assumes "bucket_ok w"
  shows "unat (w_consumed (token_refill w now)) =
           min (unat (w_limit w) * 65536)
               (unat (w_consumed w) +
                (unat (w_limit w) * 65536 * unat (now - w_window_start_ms w)) div unat (w_window_duration_ms w))"
proof -
  let ?dt = "now - w_window_start_ms w" and ?l = "unat (w_limit w)"
  let ?add = "(token_cap w * ucast ?dt) div ucast (w_window_duration_ms w)"
  have l: "?l < 65536" and c: "unat (w_consumed w) \<le> ?l * 65536"
    using assms by (auto simp: bucket_ok_def)
  have "?l * 65536 * unat ?dt \<le> 65535 * 65536 * 4294967295"
    using l unat_u32_bound [of ?dt] by (intro mult_le_mono) auto
  then have p: "?l * 65536 * unat ?dt < 18446744073709551616" by simp
  then have m: "unat (token_cap w * ucast ?dt) = ?l * 65536 * unat ?dt"
    using unat_mult_lem [of "token_cap w" "ucast ?dt"] by (simp add: unat_token_cap)
  then have a: "unat ?add = (?l * 65536 * unat ?dt) div unat (w_window_duration_ms w)"
    by (simp add: unat_div)
  have "?l * 65536 * unat ?dt \<le> 65535 * 65536 * 4294967295"
    using l unat_u32_bound [of ?dt] by (intro mult_le_mono) auto
  then have "unat ?add \<le> 65535 * 65536 * 4294967295"
    unfolding a by (meson div_le_dividend order_trans)
  then have s: "unat (ucast (w_consumed w) + ?add) = unat (w_consumed w) + unat ?add"
    using unat_add_lem [of "ucast (w_consumed w) :: u64" ?add] unat_u32_bound [of "w_consumed w"] by simp
  have lo: "unat (ucast (t :: u64) :: u32) = unat t" if "unat t \<le> ?l * 65536" for t
    using that l by (simp add: unat_ucast_mod)
  show ?thesis
  proof (cases "?dt = 0")
    case True
    with c show ?thesis by (simp add: token_refill_def Let_def)
  next
    case False
    then show ?thesis
      by (auto simp: token_refill_def Let_def word_less_nat_alt s a unat_token_cap lo min_def)
  qed
qed

lemma token_refill_ok: "bucket_ok w \<Longrightarrow> bucket_ok (token_refill w now)"
  using token_refill_consumed [of w now] by (simp add: bucket_ok_def)

lemma token_check:
  "\<not> window_off w \<Longrightarrow> token_bucket B \<Longrightarrow>
   lb__rate_roll_and_check B w now a =
     (token_refill w now, unat a * 65536 \<le> unat (w_consumed (token_refill w now)))"
  by (simp add: lb__rate_roll_and_check_def Let_def word_le_nat_alt unat_push16)

lemma token_commit:
  assumes "\<not> window_off w" "token_bucket B"
  shows "\<exists>c. lb__rate_commit B w now a = (token_refill w now)\<lparr>w_consumed := c\<rparr> \<and>
             unat c = unat (w_consumed (token_refill w now)) - unat a * 65536"
proof -
  let ?w = "token_refill w now" and ?need = "push_bit 16 (ucast a) :: u64"
  have "unat (ucast (ucast (w_consumed ?w) - ?need :: u64) :: u32) = unat (w_consumed ?w) - unat a * 65536"
    if "?need \<le> ucast (w_consumed ?w)"
    using that unat_u32_bound [of "w_consumed ?w"]
    by (simp add: unat_ucast_mod unat_sub unat_push16 less_imp_diff_less)
  then show ?thesis
    using assms
    by (auto simp: lb__rate_commit_def token_check Let_def word_le_nat_alt unat_push16)
qed

section \<open>The contract of a limiter\<close>

text \<open>
  Both implementations are limiters of one kind: \<open>room\<close> is what may still be admitted
  (in units that \<open>cost\<close> converts an amount to), asking may refill it by at most \<open>gain\<close>,
  a request is admitted exactly when it fits, and committing an admitted request takes
  its cost out of the room.
\<close>

locale rate_limiter =
  fixes roll_check :: "'w \<Rightarrow> u32 \<Rightarrow> u32 \<Rightarrow> 'w \<times> bool"
    and commit :: "'w \<Rightarrow> u32 \<Rightarrow> u32 \<Rightarrow> 'w"
    and inv :: "'w \<Rightarrow> bool"
    and room :: "'w \<Rightarrow> nat"
    and cap :: "'w \<Rightarrow> nat"
    and cost :: "nat \<Rightarrow> nat"
    and gain :: "'w \<Rightarrow> u32 \<Rightarrow> nat"
  assumes inv_roll: "inv w \<Longrightarrow> inv (fst (roll_check w now a))"
    and room_le_cap: "inv w \<Longrightarrow> room w \<le> cap w"
    and cap_roll: "inv w \<Longrightarrow> cap (fst (roll_check w now a)) = cap w"
    and room_roll: "inv w \<Longrightarrow> room (fst (roll_check w now a)) \<le> room w + gain w now"
    and admit_iff: "inv w \<Longrightarrow> snd (roll_check w now a) \<longleftrightarrow> cost (unat a) \<le> room (fst (roll_check w now a))"
    and roll_idem: "inv w \<Longrightarrow> roll_check (fst (roll_check w now a)) now c =
          (fst (roll_check w now a), snd (roll_check w now c))"
    and commit_inv: "inv w \<Longrightarrow> snd (roll_check w now a) \<Longrightarrow> inv (commit w now a)"
    and commit_cap: "inv w \<Longrightarrow> cap (commit w now a) = cap w"
    and commit_room: "inv w \<Longrightarrow> snd (roll_check w now a) \<Longrightarrow>
          room (commit w now a) + cost (unat a) = room (fst (roll_check w now a))"
begin

lemma rolled_room_le_cap: "inv w \<Longrightarrow> room (fst (roll_check w now a)) \<le> cap w"
  using room_le_cap [OF inv_roll] cap_roll by metis

lemma admitted_within_cap:
  "inv w \<Longrightarrow> snd (roll_check w now a) \<Longrightarrow> cost (unat a) \<le> cap w"
  using admit_iff rolled_room_le_cap le_trans by blast

lemma admitted_step:
  assumes "inv w" "snd (roll_check w now a)"
  shows "inv (commit (fst (roll_check w now a)) now a)"
    and "room (commit (fst (roll_check w now a)) now a) + cost (unat a) \<le> room w + gain w now"
    and "cap (commit (fst (roll_check w now a)) now a) = cap w"
proof -
  let ?w = "fst (roll_check w now a)"
  have i: "inv ?w" using assms(1) by (rule inv_roll)
  have r: "roll_check ?w now a = (?w, True)"
    using roll_idem [OF assms(1), of now a a] assms(2) by simp
  show "inv (commit ?w now a)" using commit_inv [OF i, of now a] r by simp
  show "room (commit ?w now a) + cost (unat a) \<le> room w + gain w now"
    using commit_room [OF i, of now a] r room_roll [OF assms(1), of now a] by simp
  show "cap (commit ?w now a) = cap w"
    using commit_cap [OF i] cap_roll [OF assms(1)] by simp
qed

end

definition window_ok :: "rate_window \<Rightarrow> bool" where
  "window_ok w \<longleftrightarrow> \<not> window_off w \<and> unat (w_consumed w) \<le> unat (w_limit w)"

text \<open>Two builds with every feature, one per implementation.\<close>

definition fixed_build :: build where
  "fixed_build = \<lparr>audit_on = True, rate_on = True, calib_on = True, causality_on = True, token_bucket = False,
     little_endian = True\<rparr>"

definition token_build :: build where
  "token_build = fixed_build\<lparr>token_bucket := True\<rparr>"

lemma rate_build_cong:
  "token_bucket B = token_bucket C \<Longrightarrow> lb__rate_roll_and_check B = lb__rate_roll_and_check C"
  "token_bucket B = token_bucket C \<Longrightarrow> lb__rate_commit B = lb__rate_commit C"
  by (simp_all add: lb__rate_roll_and_check_def lb__rate_commit_def fun_eq_iff Let_def)

text \<open>What a roll can gain: everything already consumed, but only once the window has passed.\<close>

definition fixed_gain :: "rate_window \<Rightarrow> u32 \<Rightarrow> nat" where
  "fixed_gain w now =
     (if now - w_window_start_ms w \<ge> w_window_duration_ms w then unat (w_consumed w) else 0)"

definition token_gain :: "rate_window \<Rightarrow> u32 \<Rightarrow> nat" where
  "token_gain w now =
     (unat (w_limit w) * 65536 * unat (now - w_window_start_ms w)) div unat (w_window_duration_ms w)"

lemma window_roll_ok: "window_ok w \<Longrightarrow> window_ok (window_roll w now)"
  using window_roll_consumed [of w now] by (auto simp: window_ok_def)

lemma window_roll_le: "window_ok w \<Longrightarrow> unat (w_consumed (window_roll w now)) \<le> unat (w_limit w)"
  using window_roll_ok [of w now] by (simp add: window_ok_def)

lemma token_refill_le: "bucket_ok w \<Longrightarrow> unat (w_consumed (token_refill w now)) \<le> unat (w_limit w) * 65536"
  using token_refill_ok [of w now] by (simp add: bucket_ok_def)

interpretation fixed: rate_limiter "lb__rate_roll_and_check fixed_build" "lb__rate_commit fixed_build"
  window_ok "\<lambda>w. unat (w_limit w) - unat (w_consumed w)" "\<lambda>w. unat (w_limit w)" "\<lambda>n. n" fixed_gain
proof (unfold_locales, goal_cases)
  case (4 w now a)
  then show ?case
    by (auto simp: window_ok_def fixed_check fixed_build_def fixed_gain_def window_roll_def)
next
  case (5 w now a)
  then show ?case
    using window_roll_le [of w now]
    by (simp add: window_ok_def fixed_check fixed_build_def le_diff_conv2 add.commute)
next
  case (7 w now a)
  then show ?case
    by (auto simp: window_ok_def fixed_check fixed_commit fixed_build_def unat_sat_add32 window_off_def)
next
  case (9 w now a)
  then show ?case
    using unat_u32_bound [of "w_limit w"]
    by (auto simp: window_ok_def fixed_check fixed_commit fixed_build_def unat_sat_add32)
qed (use window_roll_ok in \<open>auto simp: window_ok_def fixed_check fixed_commit fixed_build_def window_roll_idem\<close>)

interpretation token: rate_limiter "lb__rate_roll_and_check token_build" "lb__rate_commit token_build"
  "\<lambda>w. \<not> window_off w \<and> bucket_ok w" "\<lambda>w. unat (w_consumed w)" "\<lambda>w. unat (w_limit w) * 65536"
  "\<lambda>n. n * 65536" token_gain
proof (unfold_locales, goal_cases)
  case (4 w now a)
  then show ?case
    by (simp add: token_check token_build_def token_refill_consumed token_gain_def)
next
  case (7 w now a)
  then show ?case
    using token_commit [of w token_build now a] token_refill_ok [of w now]
    by (auto simp: token_check token_build_def bucket_ok_def window_off_def)
next
  case (8 w now a)
  then show ?case
    using token_commit [of w token_build now a] by (auto simp: token_build_def)
next
  case (9 w now a)
  then show ?case
    using token_commit [of w token_build now a] by (auto simp: token_check token_build_def)
next
  case (2 w)
  then show ?case by (simp add: bucket_ok_def)
qed (auto simp: token_check token_build_def token_refill_idem token_refill_ok)

section \<open>Sequences of requests\<close>

text \<open>
  \<open>serve\<close> plays a list of requests (time, amount) on one window the way
  \<open>loxbudget_enter\<close> does: roll and check, and commit what was admitted. The second
  component of the result is the total amount admitted.
\<close>

fun serve :: "build \<Rightarrow> rate_window \<Rightarrow> (u32 \<times> u32) list \<Rightarrow> rate_window \<times> nat" where
  "serve B w [] = (w, 0)"
| "serve B w ((now, a) # rs) =
     (case lb__rate_roll_and_check B w now a of (w1, ok) \<Rightarrow>
        if ok then (case serve B (lb__rate_commit B w1 now a) rs of (w2, n) \<Rightarrow> (w2, unat a + n))
        else serve B w1 rs)"

text \<open>The time that passes over the requests, as the unsigned differences measure it.\<close>

fun elapsed :: "u32 \<Rightarrow> (u32 \<times> u32) list \<Rightarrow> nat" where
  "elapsed s [] = 0"
| "elapsed s ((now, a) # rs) = unat (now - s) + elapsed now rs"

lemma serve_fixed_bound:
  assumes "window_ok w"
    and "\<forall>(now, a)\<in>set rs. now - w_window_start_ms w < w_window_duration_ms w"
  shows "snd (serve fixed_build w rs) \<le> unat (w_limit w) - unat (w_consumed w)"
  using assms
proof (induction rs arbitrary: w)
  case Nil
  then show ?case by simp
next
  case (Cons r rs)
  obtain now a where r: "r = (now, a)" by (cases r)
  have roll: "window_roll w now = w"
    using Cons.prems(2) r by (simp add: window_roll_inside)
  show ?case
  proof (cases "unat (w_consumed w) + unat a \<le> unat (w_limit w)")
    case True
    define w' where "w' = w\<lparr>w_consumed := sat_add32 (w_consumed w) a\<rparr>"
    have c: "lb__rate_commit fixed_build w now a = w'" "unat (w_consumed w') = unat (w_consumed w) + unat a"
      using Cons.prems(1) True roll unat_u32_bound [of "w_limit w"]
      by (auto simp: fixed_commit fixed_build_def window_ok_def w'_def unat_sat_add32)
    have "snd (serve fixed_build w' rs) \<le> unat (w_limit w') - unat (w_consumed w')"
      using Cons.prems True c(2) by (intro Cons.IH) (auto simp: window_ok_def w'_def window_off_def)
    then show ?thesis
      using Cons.prems(1) True roll c r
      by (auto simp: fixed_check fixed_build_def window_ok_def w'_def split: prod.splits)
  next
    case False
    have "snd (serve fixed_build w rs) \<le> unat (w_limit w) - unat (w_consumed w)"
      using Cons.prems by (intro Cons.IH) auto
    then show ?thesis
      using Cons.prems(1) False roll r by (auto simp: fixed_check fixed_build_def window_ok_def)
  qed
qed

lemma div_add_div_le: "x div d + y div d \<le> (x + y) div (d :: nat)"
  by (metis add_le_cancel_left div_add1_eq le_add1)

lemma token_step:
  fixes now a :: u32
  assumes "\<not> window_off w" "bucket_ok w"
  defines "R \<equiv> lb__rate_roll_and_check token_build w now a"
  defines "v \<equiv> (if snd R then lb__rate_commit token_build (fst R) now a else fst R)"
  shows "\<not> window_off v" "bucket_ok v" "w_limit v = w_limit w"
    and "w_window_duration_ms v = w_window_duration_ms w" "w_window_start_ms v = now"
    and "unat (w_consumed v) + (if snd R then unat a * 65536 else 0) \<le> unat (w_consumed w) + token_gain w now"
proof -
  have w: "\<not> window_off w \<and> bucket_ok w" using assms by simp
  have f: "fst R = token_refill w now"
    using assms by (simp add: R_def token_check token_build_def)
  have i: "\<not> window_off (fst R) \<and> bucket_ok (fst R)"
    unfolding R_def using w by (rule token.inv_roll)
  obtain c where c: "lb__rate_commit token_build (fst R) now a = (token_refill (fst R) now)\<lparr>w_consumed := c\<rparr>"
    using token_commit [of "fst R" token_build now a] i by (auto simp: token_build_def)
  have fields: "w_limit v = w_limit w \<and> w_window_duration_ms v = w_window_duration_ms w \<and> w_window_start_ms v = now"
    using c f by (auto simp: v_def token_refill_idem token_refill_start)
  then show "w_limit v = w_limit w" "w_window_duration_ms v = w_window_duration_ms w" "w_window_start_ms v = now"
    by auto
  show "\<not> window_off v" using fields w by (simp add: window_off_def)
  show "bucket_ok v"
    using i token.admitted_step(1) [OF w, of now a] by (cases "snd R") (auto simp: v_def R_def)
  show "unat (w_consumed v) + (if snd R then unat a * 65536 else 0) \<le> unat (w_consumed w) + token_gain w now"
    using token.admitted_step(2) [OF w, of now a] token.room_roll [OF w, of now a]
    by (auto simp: v_def R_def)
qed

lemma serve_token_bound:
  assumes "\<not> window_off w" "bucket_ok w"
  shows "snd (serve token_build w rs) * 65536 \<le>
     unat (w_consumed w) +
     (unat (w_limit w) * 65536 * elapsed (w_window_start_ms w) rs) div unat (w_window_duration_ms w)"
  using assms
proof (induction rs arbitrary: w)
  case Nil
  then show ?case by simp
next
  case (Cons r rs)
  obtain now a where r: "r = (now, a)" by (cases r)
  define R where "R = lb__rate_roll_and_check token_build w now a"
  define v where "v = (if snd R then lb__rate_commit token_build (fst R) now a else fst R)"
  let ?k = "unat (w_limit w) * 65536" and ?d = "unat (w_window_duration_ms w)"
  note step = token_step [OF Cons.prems, of now a, folded R_def, folded v_def]
  have "snd (serve token_build v rs) * 65536 \<le> unat (w_consumed v) + (?k * elapsed now rs) div ?d"
    using Cons.IH [OF step(1,2)] step(3-5) by simp
  moreover have "(?k * unat (now - w_window_start_ms w)) div ?d + (?k * elapsed now rs) div ?d
      \<le> (?k * (unat (now - w_window_start_ms w) + elapsed now rs)) div ?d"
    by (metis add_mult_distrib2 div_add_div_le)
  ultimately show ?case
    using step(6) r
    by (auto simp: token_gain_def R_def v_def split: prod.splits if_splits)
qed

lemma serve_cong: "token_bucket B = token_bucket C \<Longrightarrow> serve B w rs = serve C w rs"
proof (induction rs arbitrary: w)
  case Nil
  then show ?case by simp
next
  case (Cons r rs)
  then show ?case
    using rate_build_cong [OF Cons.prems] by (cases r) (auto split: prod.splits)
qed

text \<open>
  C16. Fixed window: whatever the requests, the amounts admitted while the clock stays inside one
  window, together with what was consumed before, do not exceed the window's limit.
\<close>

theorem fixed_window_limit:
  assumes "\<not> token_bucket B" and "window_ok w"
    and "\<forall>(now, a)\<in>set rs. now - w_window_start_ms w < w_window_duration_ms w"
  shows "snd (serve B w rs) + unat (w_consumed w) \<le> unat (w_limit w)"
proof -
  have "serve B w rs = serve fixed_build w rs"
    using assms(1) by (intro serve_cong) (simp add: fixed_build_def)
  with serve_fixed_bound [OF assms(2,3)] assms(2) show ?thesis
    by (auto simp: window_ok_def)
qed

theorem fixed_window_limit_witness:
  "snd (serve fixed_build \<lparr>w_window_start_ms = 100, w_window_duration_ms = 1000, w_consumed = 2, w_limit = 10\<rparr>
      [(150, 3), (900, 9), (1099, 5)]) + 2 \<le> 10"
  using fixed_window_limit [of fixed_build
      "\<lparr>w_window_start_ms = 100, w_window_duration_ms = 1000, w_consumed = 2, w_limit = 10\<rparr>"
      "[(150, 3), (900, 9), (1099, 5)]"]
  by (simp add: fixed_build_def window_ok_def window_off_def)

text \<open>
  C17. Token bucket with a limit below 65536: the amount admitted by any sequence of requests is at
  most the tokens left at the start plus the limit prorated over the time that passed.
\<close>

theorem token_bucket_limit:
  assumes "token_bucket B" and "\<not> window_off w" and "bucket_ok w"
  shows "snd (serve B w rs) * 65536 \<le>
     unat (w_consumed w) +
     (unat (w_limit w) * 65536 * elapsed (w_window_start_ms w) rs) div unat (w_window_duration_ms w)"
proof -
  have "serve B w rs = serve token_build w rs"
    using assms(1) by (intro serve_cong) (simp add: token_build_def)
  with serve_token_bound [OF assms(2,3)] show ?thesis by simp
qed

theorem token_bucket_limit_witness:
  "snd (serve token_build \<lparr>w_window_start_ms = 0, w_window_duration_ms = 1000, w_consumed = 655360, w_limit = 10\<rparr>
      [(0, 10), (0, 1), (200, 2), (400, 3)]) * 65536 \<le> 655360 + (10 * 65536 * 400) div 1000"
  using token_bucket_limit [of token_build
      "\<lparr>w_window_start_ms = 0, w_window_duration_ms = 1000, w_consumed = 655360, w_limit = 10\<rparr>"
      "[(0, 10), (0, 1), (200, 2), (400, 3)]"]
  by (simp add: token_build_def fixed_build_def bucket_ok_def window_off_def)

text \<open>
  The refill rounds down and restarts the clock, so requests that come faster than one
  Q16 unit accrues never refill the bucket.
\<close>

fun polled_fast :: "rate_window \<Rightarrow> u32 \<Rightarrow> (u32 \<times> u32) list \<Rightarrow> bool" where
  "polled_fast w s [] \<longleftrightarrow> True"
| "polled_fast w s ((now, a) # rs) \<longleftrightarrow>
     a \<noteq> 0 \<and> unat (w_limit w) * 65536 * unat (now - s) < unat (w_window_duration_ms w) \<and> polled_fast w now rs"

lemma polled_fast_cong:
  "w_limit v = w_limit w \<Longrightarrow> w_window_duration_ms v = w_window_duration_ms w \<Longrightarrow>
   polled_fast v s rs = polled_fast w s rs"
  by (induction rs arbitrary: s) auto

lemma token_refill_fast:
  assumes "bucket_ok w" "unat (w_limit w) * 65536 * unat (now - w_window_start_ms w) < unat (w_window_duration_ms w)"
  shows "unat (w_consumed (token_refill w now)) = unat (w_consumed w)"
  using assms token_refill_consumed [of w now] by (simp add: bucket_ok_def)

text \<open>
  C40. Token bucket starvation: once less than one whole token is left, any number of requests that
  each come before one Q16 unit has accrued is refused, however long they go on; a bucket of
  one token per day asked every second is refused forever.
\<close>

theorem token_bucket_polling_starves:
  assumes "token_bucket B" and "\<not> window_off w" and "bucket_ok w"
    and "unat (w_consumed w) < 65536" and "polled_fast w (w_window_start_ms w) rs"
  shows "snd (serve B w rs) = 0"
  using assms(2-)
proof (induction rs arbitrary: w)
  case Nil
  then show ?case by simp
next
  case (Cons r rs)
  obtain now a where r: "r = (now, a)" by (cases r)
  let ?v = "token_refill w now"
  have c: "unat (w_consumed ?v) = unat (w_consumed w)"
    using Cons.prems r by (intro token_refill_fast) auto
  have "1 \<le> unat a" using Cons.prems(4) r by (simp add: Suc_le_eq unat_gt_0)
  then have "65536 \<le> unat a * 65536" by simp
  then have no: "\<not> unat a * 65536 \<le> unat (w_consumed ?v)" using c Cons.prems(3) by linarith
  have "polled_fast w now rs" using Cons.prems(4) r by simp
  then have fast: "polled_fast ?v now rs"
    using polled_fast_cong [of ?v w now rs] by simp
  have "snd (serve B ?v rs) = 0"
    using Cons.prems c fast token_refill_ok [of w now]
    by (intro Cons.IH) (auto simp: token_refill_start)
  then show ?case
    using Cons.prems assms(1) no r by (simp add: token_check)
qed

theorem token_bucket_polling_starves_witness:
  "snd (serve token_build \<lparr>w_window_start_ms = 0, w_window_duration_ms = 86400000, w_consumed = 0, w_limit = 1\<rparr>
      [(1000, 1), (2000, 1), (3000, 1), (4000, 1)]) = 0"
  using token_bucket_polling_starves [of token_build
      "\<lparr>w_window_start_ms = 0, w_window_duration_ms = 86400000, w_consumed = 0, w_limit = 1\<rparr>"
      "[(1000, 1), (2000, 1), (3000, 1), (4000, 1)]"]
  by (simp add: token_build_def fixed_build_def bucket_ok_def window_off_def)

end
