(* ===== verification/LB_Instance.thy ===== *)
theory LB_Instance
  imports LB_Hal LB_Layout LB_Rate
begin

text \<open>
  The life of an instance: \<open>loxbudget_init\<close>, \<open>loxbudget_deinit\<close>, the snapshot, the
  pressure state and the decision hook (\<open>src/loxbudget_core.c\<close>), and the convenience
  constructors of \<open>include/loxbudget.h\<close>. \<open>lb_shape\<close> is the well-formedness of the
  tables that every operation of the library keeps.
\<close>

section \<open>Definitions\<close>

definition LOXBUDGET_MAGIC_INIT :: u32 where
  "LOXBUDGET_MAGIC_INIT = 0x4C58424D"

text \<open>A NULL pointer is \<open>None\<close>.\<close>

definition loxbudget_validate_budget :: "loxbudget option \<Rightarrow> loxbudget_status" where
  "loxbudget_validate_budget bp =
     (case bp of None \<Rightarrow> LOXBUDGET_ERR_INVALID_ARG
      | Some b \<Rightarrow> if b_magic b \<noteq> LOXBUDGET_MAGIC_INIT then LOXBUDGET_ERR_NOT_INITIALIZED
                  else LOXBUDGET_OK)"

subsection \<open>Zeroed memory\<close>

definition zero_resource :: loxbudget_resource where
  "zero_resource = \<lparr>r_limit = 0, r_used = 0, r_reserved = 0, r_high_watermark = 0, r_kind = 0, r_flags = 0\<rparr>"

definition zero_profile :: loxbudget_op_profile where
  "zero_profile = \<lparr>p_op_id = 0, p_priority = 0, p_action_normal = 0, p_action_elevated = 0,
     p_action_critical = 0, p_action_survival = 0, p_action_lockdown = 0, p_flags = 0\<rparr>"

definition zero_need :: loxbudget_need where
  "zero_need = \<lparr>n_resource = 0, n_amount = 0\<rparr>"

definition zero_slot :: loxbudget_lease_slot where
  "zero_slot = \<lparr>ls_magic = 0, ls_active = 0, ls_acquired_pressure = 0\<rparr>"

definition zero_record :: loxbudget_decision_record where
  "zero_record = \<lparr>a_timestamp_ms = 0, a_op_id = 0, a_denied_resource = 0, a_requested = 0,
     a_available = 0, a_action = 0, a_pressure = 0, a_reason = 0\<rparr>"

definition zero_window :: rate_window where
  "zero_window = \<lparr>w_window_start_ms = 0, w_window_duration_ms = 0, w_consumed = 0, w_limit = 0\<rparr>"

definition zero_rate :: rate_state where
  "zero_rate = \<lparr>rs_windows = replicate 4 zero_window, rs_consumed_lifetime = 0, rs_limit_lifetime = 0\<rparr>"

definition zero_edge :: causality_edge where
  "zero_edge = \<lparr>e_parent = 0, e_child = 0, e_weight_q8 = 0\<rparr>"

definition zero_p2 :: p2_estimator where
  "zero_p2 = \<lparr>q_marker_n = replicate 5 0, q_marker_n_prime_q16 = replicate 5 0,
     q_marker_q_q16 = replicate 5 0, q_dn_q16 = replicate 5 0, q_count = 0,
     q_initial_buffer = replicate 5 0, q_initialized = 0\<rparr>"

definition zero_calib :: calib_state where
  "zero_calib = \<lparr>c_active = 0, c_op_id = 0, c_target_samples = 0, c_sample_count = 0,
     c_ram_p50 = zero_p2, c_ram_p95 = zero_p2, c_ram_p99 = zero_p2, c_dur_p95 = zero_p2,
     c_dur_p99 = zero_p2, c_ram_max = 0, c_ram_max_at_500 = 0, c_outlier_count = 0, c_dur_max_us = 0\<rparr>"

text \<open>\<open>memset(budget, 0, sizeof *budget)\<close>: no storage, hence no tables.\<close>

definition zero_budget :: loxbudget where
  "zero_budget = \<lparr>b_magic = 0, b_max_resources = 0, b_max_ops = 0, b_max_leases = 0, b_pressure = 0,
     b_lease_magic_base = 0, b_total_decisions = 0, b_total_grants = 0, b_total_denials = 0,
     b_total_degradations = 0, b_storage_size = 0, b_resources_off = 0, b_ops_off = 0,
     b_needs_off = 0, b_lease_slots_off = 0, b_audit_off = 0, b_rate_off = 0, b_calib_off = 0,
     b_audit_size = 0, b_audit_head = 0, b_audit_count = 0, b_decision_hook = 0,
     b_decision_hook_user = 0, b_hal_cb = None, b_hal_user = 0, b_hal_strict = 0,
     t_magic2 = 0, t_res_cfg = [], t_op_cfg = [], t_resources = [], t_ops = [], t_needs = [],
     t_lease_slots = [], t_audit = [], t_rate = [], t_calib = [], t_edge_count = 0,
     t_edges = [], t_visited = []\<rparr>"

subsection \<open>Initialisation\<close>

text \<open>
  The struct after the member assignments and the layout computation, and the tables as
  cleared by the memsets. With a feature off its table does not exist.
\<close>

definition init_struct :: "build \<Rightarrow> u64 \<Rightarrow> loxbudget_config \<Rightarrow> loxbudget" where
  "init_struct B storage_size cfg =
     (let L = init_layout B (cfg_max_resources cfg) (cfg_max_ops cfg)
                (cfg_max_concurrent_leases cfg) (cfg_audit_size cfg)
      in zero_budget
        \<lparr>b_magic := LOXBUDGET_MAGIC_INIT,
         b_max_resources := cfg_max_resources cfg,
         b_max_ops := cfg_max_ops cfg,
         b_max_leases := cfg_max_concurrent_leases cfg,
         b_pressure := u8_of_pressure LOXBUDGET_PRESSURE_NORMAL,
         b_storage_size := ucast storage_size,
         b_hal_cb := cfg_hal_callbacks cfg,
         b_hal_user := cfg_hal_user cfg,
         b_hal_strict := (if cfg_hal_strict cfg \<noteq> 0 then 1 else 0),
         b_audit_size := cfg_audit_size cfg,
         b_audit_head := 0,
         b_audit_count := 0,
         b_decision_hook := 0,
         b_decision_hook_user := 0,
         b_resources_off := y_resources_off L,
         b_ops_off := y_ops_off L,
         b_needs_off := y_needs_off L,
         b_lease_slots_off := y_lease_slots_off L,
         b_audit_off := y_audit_off L,
         b_rate_off := y_rate_off L,
         b_calib_off := y_calib_off L\<rparr>)"

definition init_tables :: "build \<Rightarrow> loxbudget \<Rightarrow> loxbudget" where
  "init_tables B b =
     (let r = unat (b_max_resources b); n = unat (b_max_ops b) in
      b\<lparr>t_magic2 := 0x4C584248,
        t_res_cfg := replicate LOXBUDGET_MAX_RESOURCES 0,
        t_op_cfg := replicate LOXBUDGET_MAX_OPS 0,
        t_resources := replicate r zero_resource,
        t_ops := replicate n zero_profile,
        t_needs := replicate (n * LOXBUDGET_MAX_NEEDS_PER_OP) zero_need,
        t_lease_slots := replicate (unat (b_max_leases b)) zero_slot,
        t_audit := replicate (unat (b_audit_size b)) zero_record,
        t_rate := (if rate_on B then replicate r zero_rate else []),
        t_calib := (if calib_on B then replicate n zero_calib else []),
        t_edge_count := 0,
        t_edges := (if causality_on B then replicate LOXBUDGET_CAUSALITY_MAX_EDGES zero_edge else []),
        t_visited := (if causality_on B then replicate ((n + 7) div 8) 0 else [])\<rparr>)"

definition lease_magic_seed :: "u64 \<Rightarrow> u32 \<Rightarrow> u16" where
  "lease_magic_seed addr t =
     (let base = ucast ((addr XOR ucast t) AND 0xFFFF) :: u16 in if base = 0 then 0xA5C3 else base)"

text \<open>
  \<open>b0\<close> is the instance struct before the call; it is left alone when the arguments are
  refused and zeroed when the storage is too small.
\<close>

definition loxbudget_init ::
    "build \<Rightarrow> 'e platform \<Rightarrow> u64 \<Rightarrow> u64 \<Rightarrow> u64 \<Rightarrow> loxbudget_config option \<Rightarrow> loxbudget \<Rightarrow> 'e \<Rightarrow>
     loxbudget_status \<times> loxbudget \<times> 'e" where
  "loxbudget_init B P budget_addr storage_addr storage_size cfg b0 e =
     (let st = loxbudget_validate_init_args budget_addr storage_addr storage_size cfg in
      if st \<noteq> LOXBUDGET_OK then (st, b0, e)
      else case cfg of None \<Rightarrow> (st, b0, e) | Some c \<Rightarrow>
        if y_end (init_layout B (cfg_max_resources c) (cfg_max_ops c) (cfg_max_concurrent_leases c)
              (cfg_audit_size c)) > ucast storage_size
        then (LOXBUDGET_ERR_NO_SPACE, zero_budget, e)
        else let b = init_tables B (init_struct B storage_size c);
                 (t, e') = loxbudget_hal_now_ms' P b e
             in (LOXBUDGET_OK, b\<lparr>b_lease_magic_base := lease_magic_seed budget_addr t\<rparr>, e'))"

definition loxbudget_config_simple :: "u8 \<Rightarrow> u8 \<Rightarrow> loxbudget_config" where
  "loxbudget_config_simple max_resources max_ops =
     \<lparr>cfg_max_resources = max_resources, cfg_max_ops = max_ops,
      cfg_max_concurrent_leases = of_nat LOXBUDGET_MAX_LEASES, cfg_audit_size = 0,
      cfg_hal_strict = 0, cfg_flags = 0,
      cfg_hal_callbacks = Some loxbudget_hal_default_permissive, cfg_hal_user = 0\<rparr>"

definition loxbudget_init_simple ::
    "build \<Rightarrow> 'e platform \<Rightarrow> u64 \<Rightarrow> u64 \<Rightarrow> u64 \<Rightarrow> u8 \<Rightarrow> u8 \<Rightarrow> loxbudget \<Rightarrow> 'e \<Rightarrow>
     loxbudget_status \<times> loxbudget \<times> 'e" where
  "loxbudget_init_simple B P budget_addr storage_addr storage_size max_resources max_ops b0 e =
     loxbudget_init B P budget_addr storage_addr storage_size
       (Some (loxbudget_config_simple max_resources max_ops)) b0 e"

definition loxbudget_op_profile_default :: "u8 \<Rightarrow> loxbudget_op_profile" where
  "loxbudget_op_profile_default op_id =
     \<lparr>p_op_id = op_id, p_priority = 1, p_action_normal = u8_of_action LOXBUDGET_ALLOW_FULL,
      p_action_elevated = u8_of_action LOXBUDGET_ALLOW_FULL,
      p_action_critical = u8_of_action LOXBUDGET_ALLOW_FULL,
      p_action_survival = u8_of_action LOXBUDGET_ALLOW_FULL,
      p_action_lockdown = u8_of_action LOXBUDGET_ALLOW_FULL, p_flags = 0\<rparr>"

definition loxbudget_deinit :: "loxbudget \<Rightarrow> loxbudget_status \<times> loxbudget" where
  "loxbudget_deinit b =
     (let st = loxbudget_validate_budget (Some b) in
      if st \<noteq> LOXBUDGET_OK then (st, b) else (LOXBUDGET_OK, b\<lparr>b_magic := 0\<rparr>))"

subsection \<open>Snapshot, pressure, hook\<close>

text \<open>The counting loop over the lease slots; the counter is a \<open>uint8_t\<close>.\<close>

definition active_lease_count :: "loxbudget \<Rightarrow> u8" where
  "active_lease_count b =
     fold (\<lambda>s cnt. if ls_active s \<noteq> 0 then cnt + 1 else cnt)
       (take (unat (b_max_leases b)) (t_lease_slots b)) 0"

definition loxbudget_snapshot_of ::
    "'e platform \<Rightarrow> loxbudget \<Rightarrow> bool \<Rightarrow> 'e \<Rightarrow> loxbudget_status \<times> loxbudget_snapshot option \<times> 'e" where
  "loxbudget_snapshot_of P b out_ok e =
     (let st = loxbudget_validate_budget (Some b) in
      if st \<noteq> LOXBUDGET_OK \<or> \<not> out_ok
      then (if \<not> out_ok then LOXBUDGET_ERR_INVALID_ARG else st, None, e)
      else let (now, e') = loxbudget_hal_now_ms' P b e in
        (LOXBUDGET_OK,
         Some \<lparr>n_pressure = b_pressure b, n_active_lease_count = active_lease_count b,
           n_resource_count = b_max_resources b, n_op_count = b_max_ops b,
           n_total_decisions = b_total_decisions b, n_total_grants = b_total_grants b,
           n_total_denials = b_total_denials b, n_total_degradations = b_total_degradations b,
           n_uptime_ms = now\<rparr>, e'))"

definition loxbudget_set_decision_hook :: "loxbudget \<Rightarrow> ptr \<Rightarrow> ptr \<Rightarrow> loxbudget_status \<times> loxbudget" where
  "loxbudget_set_decision_hook b fn user =
     (let st = loxbudget_validate_budget (Some b) in
      if st \<noteq> LOXBUDGET_OK then (st, b)
      else (LOXBUDGET_OK, b\<lparr>b_decision_hook := fn, b_decision_hook_user := user\<rparr>))"

text \<open>The range check looks at the low byte of the enum argument only, as \<open>(uint8_t)pressure\<close> does.\<close>

definition loxbudget_set_pressure ::
    "'e platform \<Rightarrow> loxbudget \<Rightarrow> c_enum \<Rightarrow> 'e \<Rightarrow> loxbudget_status \<times> loxbudget \<times> 'e" where
  "loxbudget_set_pressure P b pressure e =
     (let st = loxbudget_validate_budget (Some b) in
      if st \<noteq> LOXBUDGET_OK then (st, b, e)
      else if (ucast pressure :: u8) > u8_of_pressure LOXBUDGET_PRESSURE_LOCKDOWN
      then (LOXBUDGET_ERR_INVALID_ARG, b, e)
      else let e1 = loxbudget_critical_enter' P b e; b' = b\<lparr>b_pressure := ucast pressure\<rparr>
           in (LOXBUDGET_OK, b', loxbudget_critical_exit' P b' e1))"

definition loxbudget_get_pressure :: "loxbudget option \<Rightarrow> loxbudget_pressure" where
  "loxbudget_get_pressure bp =
     (if loxbudget_validate_budget bp \<noteq> LOXBUDGET_OK then LOXBUDGET_PRESSURE_LOCKDOWN
      else case bp of None \<Rightarrow> LOXBUDGET_PRESSURE_LOCKDOWN | Some b \<Rightarrow> pressure_of_u8 (b_pressure b))"

section \<open>Well-formed instances\<close>

text \<open>
  The limits checked by init, the lengths of the tables and the ranges of the ring and
  edge counters. \<open>audit_shape\<close> is the part about the audit ring.
\<close>

definition audit_shape :: "loxbudget \<Rightarrow> bool" where
  "audit_shape b \<longleftrightarrow>
     loxbudget_is_pow2_or_zero_u8 (b_audit_size b) \<and>
     length (t_audit b) = unat (b_audit_size b) \<and>
     (b_audit_size b \<noteq> 0 \<longrightarrow> unat (b_audit_head b) < unat (b_audit_size b)) \<and>
     unat (b_audit_count b) \<le> unat (b_audit_size b)"

definition size_shape :: "loxbudget \<Rightarrow> bool" where
  "size_shape b \<longleftrightarrow>
     b_magic b = LOXBUDGET_MAGIC_INIT \<and>
     0 < unat (b_max_resources b) \<and> unat (b_max_resources b) \<le> LOXBUDGET_MAX_RESOURCES \<and>
     0 < unat (b_max_ops b) \<and> unat (b_max_ops b) \<le> LOXBUDGET_MAX_OPS \<and>
     0 < unat (b_max_leases b) \<and> unat (b_max_leases b) \<le> LOXBUDGET_MAX_LEASES \<and>
     length (t_res_cfg b) = LOXBUDGET_MAX_RESOURCES \<and>
     length (t_op_cfg b) = LOXBUDGET_MAX_OPS \<and>
     length (t_resources b) = unat (b_max_resources b) \<and>
     length (t_ops b) = unat (b_max_ops b) \<and>
     length (t_needs b) = unat (b_max_ops b) * LOXBUDGET_MAX_NEEDS_PER_OP \<and>
     length (t_lease_slots b) = unat (b_max_leases b)"

definition feature_shape :: "build \<Rightarrow> loxbudget \<Rightarrow> bool" where
  "feature_shape B b \<longleftrightarrow>
     (rate_on B \<longrightarrow> length (t_rate b) = unat (b_max_resources b)) \<and>
     list_all (\<lambda>r. length (rs_windows r) = 4) (t_rate b) \<and>
     (calib_on B \<longrightarrow> length (t_calib b) = unat (b_max_ops b)) \<and>
     (causality_on B \<longrightarrow>
        length (t_edges b) = LOXBUDGET_CAUSALITY_MAX_EDGES \<and>
        unat (t_edge_count b) \<le> LOXBUDGET_CAUSALITY_MAX_EDGES \<and>
        length (t_visited b) = (unat (b_max_ops b) + 7) div 8)"

definition lb_shape :: "build \<Rightarrow> loxbudget \<Rightarrow> bool" where
  "lb_shape B b \<longleftrightarrow> size_shape b \<and> audit_shape b \<and> feature_shape B b"

lemma validate_Some [simp]:
  "loxbudget_validate_budget (Some b) =
     (if b_magic b = LOXBUDGET_MAGIC_INIT then LOXBUDGET_OK else LOXBUDGET_ERR_NOT_INITIALIZED)"
  by (simp add: loxbudget_validate_budget_def)

lemma validate_None [simp]: "loxbudget_validate_budget None = LOXBUDGET_ERR_INVALID_ARG"
  by (simp add: loxbudget_validate_budget_def)

lemma shape_magic: "lb_shape B b \<Longrightarrow> b_magic b = LOXBUDGET_MAGIC_INIT"
  by (simp add: lb_shape_def size_shape_def)

section \<open>Initialisation establishes the shape\<close>

lemma valid_args_cfg:
  "loxbudget_validate_init_args ba sa n cfg = LOXBUDGET_OK \<longleftrightarrow>
   (\<exists>c. cfg = Some c \<and> ba \<noteq> 0 \<and> sa \<noteq> 0 \<and> n \<noteq> 0 \<and> loxbudget_is_aligned_u32 sa \<and>
      0 < unat (cfg_max_resources c) \<and> unat (cfg_max_resources c) \<le> LOXBUDGET_MAX_RESOURCES \<and>
      0 < unat (cfg_max_ops c) \<and> unat (cfg_max_ops c) \<le> LOXBUDGET_MAX_OPS \<and>
      0 < unat (cfg_max_concurrent_leases c) \<and>
      unat (cfg_max_concurrent_leases c) \<le> LOXBUDGET_MAX_LEASES \<and>
      loxbudget_is_pow2_or_zero_u8 (cfg_audit_size c))"
  by (auto simp: loxbudget_validate_init_args_def unat_gt_0 split: option.splits)

lemma init_struct_simps [simp]:
  "b_magic (init_struct B n c) = LOXBUDGET_MAGIC_INIT"
  "b_max_resources (init_struct B n c) = cfg_max_resources c"
  "b_max_ops (init_struct B n c) = cfg_max_ops c"
  "b_max_leases (init_struct B n c) = cfg_max_concurrent_leases c"
  "b_pressure (init_struct B n c) = 0"
  "b_audit_size (init_struct B n c) = cfg_audit_size c"
  "b_audit_head (init_struct B n c) = 0"
  "b_audit_count (init_struct B n c) = 0"
  "b_storage_size (init_struct B n c) = ucast n"
  "b_decision_hook (init_struct B n c) = 0"
  "b_hal_cb (init_struct B n c) = cfg_hal_callbacks c"
  "b_hal_user (init_struct B n c) = cfg_hal_user c"
  "b_total_decisions (init_struct B n c) = 0"
  "b_total_grants (init_struct B n c) = 0"
  "b_total_denials (init_struct B n c) = 0"
  by (simp_all add: init_struct_def Let_def zero_budget_def)

lemma init_tables_simps [simp]:
  "t_res_cfg (init_tables B b) = replicate LOXBUDGET_MAX_RESOURCES 0"
  "t_op_cfg (init_tables B b) = replicate LOXBUDGET_MAX_OPS 0"
  "t_resources (init_tables B b) = replicate (unat (b_max_resources b)) zero_resource"
  "t_ops (init_tables B b) = replicate (unat (b_max_ops b)) zero_profile"
  "t_needs (init_tables B b) = replicate (unat (b_max_ops b) * LOXBUDGET_MAX_NEEDS_PER_OP) zero_need"
  "t_lease_slots (init_tables B b) = replicate (unat (b_max_leases b)) zero_slot"
  "t_edge_count (init_tables B b) = 0"
  "b_magic (init_tables B b) = b_magic b"
  "b_max_leases (init_tables B b) = b_max_leases b"
  "b_max_ops (init_tables B b) = b_max_ops b"
  "b_max_resources (init_tables B b) = b_max_resources b"
  "b_pressure (init_tables B b) = b_pressure b"
  "b_audit_size (init_tables B b) = b_audit_size b"
  by (simp_all add: init_tables_def Let_def)

lemma init_tables_shape:
  assumes "loxbudget_validate_init_args ba sa n (Some c) = LOXBUDGET_OK"
  shows "lb_shape B ((init_tables B (init_struct B n c))\<lparr>b_lease_magic_base := m\<rparr>)"
  using assms
  by (auto simp: valid_args_cfg lb_shape_def size_shape_def audit_shape_def feature_shape_def
      init_tables_def Let_def zero_rate_def unat_gt_0 list_all_length)

lemma init_OK_D:
  assumes "loxbudget_init B P ba sa n cfg b0 e = (LOXBUDGET_OK, b, e')"
  obtains c where "cfg = Some c" "loxbudget_validate_init_args ba sa n cfg = LOXBUDGET_OK"
    and "y_end (init_layout B (cfg_max_resources c) (cfg_max_ops c) (cfg_max_concurrent_leases c)
              (cfg_audit_size c)) \<le> ucast n"
    and "b = (init_tables B (init_struct B n c))\<lparr>b_lease_magic_base :=
               lease_magic_seed ba (fst (loxbudget_hal_now_ms' P (init_tables B (init_struct B n c)) e))\<rparr>"
  using assms
  by (auto simp: loxbudget_init_def valid_args_cfg Let_def split: option.splits if_splits prod.splits)

lemma init_shape:
  assumes "loxbudget_init B P ba sa n cfg b0 e = (LOXBUDGET_OK, b, e')"
  shows "lb_shape B b"
  using assms by (rule init_OK_D) (auto intro: init_tables_shape)

lemma lease_magic_seed_nonzero: "lease_magic_seed a t \<noteq> 0"
  by (simp add: lease_magic_seed_def Let_def)

lemma layout_within_required:
  assumes "unat l \<le> LOXBUDGET_MAX_LEASES"
  shows "y_end (init_layout B r n l a) \<le> LOXBUDGET_REQUIRED_SIZE B r n a"
proof -
  have "4 * ((x + 3) div 4) \<le> x + 3" for x :: nat by simp
  from this [of "table_bytes B r n l a + 132 + (unat n + 7) div 8"] show ?thesis
    using assms by (auto simp: word_le_nat_alt init_layout_end required_size_unat table_bytes_def)
qed

lemma init_returns:
  assumes "loxbudget_validate_init_args ba sa n (Some c) = LOXBUDGET_OK"
    and "unat n < 4294967296"
    and "unat (LOXBUDGET_REQUIRED_SIZE B (cfg_max_resources c) (cfg_max_ops c) (cfg_audit_size c)) \<le> unat n"
  shows "\<exists>x e'. loxbudget_init B P ba sa n (Some c) b0 e =
     (LOXBUDGET_OK, (init_tables B (init_struct B n c))\<lparr>b_lease_magic_base := x\<rparr>, e') \<and> x \<noteq> 0"
proof -
  have l: "unat (cfg_max_concurrent_leases c) \<le> LOXBUDGET_MAX_LEASES"
    using assms(1) by (auto simp: valid_args_cfg)
  have "unat (ucast n :: u32) = unat n"
    using assms(2) by (simp add: unat_ucast_mod)
  with layout_within_required [OF l, of B "cfg_max_resources c" "cfg_max_ops c" "cfg_audit_size c"] assms(3)
  have fits: "\<not> y_end (init_layout B (cfg_max_resources c) (cfg_max_ops c) (cfg_max_concurrent_leases c)
              (cfg_audit_size c)) > ucast n"
    by (simp add: word_le_nat_alt word_less_nat_alt)
  obtain t e' where "loxbudget_hal_now_ms' P (init_tables B (init_struct B n c)) e = (t, e')" by fastforce
  then show ?thesis
    using assms(1) fits lease_magic_seed_nonzero [of ba t] by (auto simp: loxbudget_init_def Let_def)
qed

text \<open>
  C23. A buffer of \<open>LOXBUDGET_REQUIRED_SIZE\<close> bytes is always enough: with arguments that pass the
  checks, init succeeds, whichever features are compiled in, and the instance it leaves is
  well-formed with nothing configured, NORMAL pressure and a nonzero lease magic base.
\<close>

theorem init_with_required_size:
  assumes "loxbudget_validate_init_args ba sa n (Some c) = LOXBUDGET_OK"
    and "unat n < 4294967296"
    and "unat (LOXBUDGET_REQUIRED_SIZE B (cfg_max_resources c) (cfg_max_ops c) (cfg_audit_size c)) \<le> unat n"
  shows "\<exists>b e'. loxbudget_init B P ba sa n (Some c) b0 e = (LOXBUDGET_OK, b, e') \<and> lb_shape B b \<and>
     set (t_res_cfg b) = {0} \<and> set (t_op_cfg b) = {0} \<and> active_lease_count b = 0 \<and>
     loxbudget_get_pressure (Some b) = LOXBUDGET_PRESSURE_NORMAL \<and> b_lease_magic_base b \<noteq> 0"
proof -
  obtain x e' where init: "loxbudget_init B P ba sa n (Some c) b0 e =
      (LOXBUDGET_OK, (init_tables B (init_struct B n c))\<lparr>b_lease_magic_base := x\<rparr>, e')" "x \<noteq> 0"
    using init_returns [OF assms, of P b0 e] by blast
  define b where "b = (init_tables B (init_struct B n c))\<lparr>b_lease_magic_base := x\<rparr>"
  have "fold (\<lambda>s cnt. if ls_active s \<noteq> 0 then cnt + 1 else cnt) (replicate k zero_slot) y = (y :: u8)" for k y
    by (induction k arbitrary: y) (simp_all add: zero_slot_def)
  then have "active_lease_count b = 0"
    by (simp add: active_lease_count_def b_def)
  moreover have "lb_shape B b" "b_lease_magic_base b \<noteq> 0"
    using init_tables_shape [OF assms(1)] init(2) by (simp_all add: b_def)
  moreover have "set (t_res_cfg b) = {0}" "set (t_op_cfg b) = {0}"
    and "loxbudget_get_pressure (Some b) = LOXBUDGET_PRESSURE_NORMAL"
    by (simp_all add: b_def loxbudget_get_pressure_def pressure_of_u8_def)
  ultimately show ?thesis using init(1) by (auto simp: b_def)
qed

theorem init_with_required_size_witness:
  "\<exists>b e'. loxbudget_init fixed_build (host_platform (\<lambda>_ _ _ _ _ e. e)) 0x1000 0x2000 4096
      (Some (loxbudget_config_simple 2 3)) zero_budget () = (LOXBUDGET_OK, b, e') \<and> lb_shape fixed_build b \<and>
     set (t_res_cfg b) = {0} \<and> set (t_op_cfg b) = {0} \<and> active_lease_count b = 0 \<and>
     loxbudget_get_pressure (Some b) = LOXBUDGET_PRESSURE_NORMAL \<and> b_lease_magic_base b \<noteq> 0"
  by (rule init_with_required_size)
     (simp_all add: valid_args_cfg loxbudget_config_simple_def loxbudget_is_aligned_u32_def
        loxbudget_is_pow2_or_zero_u8_def required_size_unat fixed_build_def)

section \<open>The other operations keep the shape\<close>

lemma shape_cong:
  assumes "b_magic c = b_magic b" "b_max_resources c = b_max_resources b" "b_max_ops c = b_max_ops b"
    and "b_max_leases c = b_max_leases b" "length (t_res_cfg c) = length (t_res_cfg b)"
    and "length (t_op_cfg c) = length (t_op_cfg b)" "length (t_resources c) = length (t_resources b)"
    and "length (t_ops c) = length (t_ops b)" "length (t_needs c) = length (t_needs b)"
    and "length (t_lease_slots c) = length (t_lease_slots b)"
  shows "size_shape c = size_shape b"
  using assms by (simp add: size_shape_def)

lemma shape_simple_update:
  "lb_shape B (b\<lparr>b_pressure := p\<rparr>) = lb_shape B b"
  "lb_shape B (b\<lparr>b_decision_hook := f, b_decision_hook_user := u\<rparr>) = lb_shape B b"
  by (simp_all add: lb_shape_def size_shape_def audit_shape_def feature_shape_def)

lemma set_pressure_shape:
  "lb_shape B b \<Longrightarrow> lb_shape B (fst (snd (loxbudget_set_pressure P b p e)))"
  by (simp add: loxbudget_set_pressure_def Let_def shape_simple_update)

lemma set_decision_hook_shape:
  "lb_shape B b \<Longrightarrow> lb_shape B (snd (loxbudget_set_decision_hook b f u))"
  by (simp add: loxbudget_set_decision_hook_def shape_simple_update)

lemma set_pressure_range:
  assumes "loxbudget_set_pressure P b p e = (LOXBUDGET_OK, b', e')"
  shows "unat (b_pressure b') \<le> 4" "b_pressure b' = ucast p"
  using assms
  by (auto simp: loxbudget_set_pressure_def Let_def word_less_nat_alt split: if_splits)

lemma fold_count:
  assumes "unat x + length xs < 256"
  shows "unat (fold (\<lambda>s cnt. if ls_active s \<noteq> 0 then cnt + 1 else cnt) xs (x :: u8)) =
     unat x + count_if (\<lambda>s. ls_active s \<noteq> 0) xs"
  using assms
proof (induction xs arbitrary: x)
  case Nil
  then show ?case by simp
next
  case (Cons s xs)
  have "unat (x + 1) = unat x + 1"
    using Cons.prems by (simp add: unat_plus_if')
  then show ?case using Cons by simp
qed

lemma active_lease_count_eq:
  assumes "size_shape b"
  shows "unat (active_lease_count b) = count_if (\<lambda>s. ls_active s \<noteq> 0) (t_lease_slots b)"
  using assms fold_count [of 0 "t_lease_slots b"]
  by (simp add: active_lease_count_def size_shape_def)

end
