(* ===== verification/LB_Audit.thy ===== *)
theory LB_Audit
  imports LB_Instance
begin

text \<open>
  The audit trail (\<open>LOXBUDGET_ENABLE_AUDIT_TRAIL\<close>): the ring buffer written by
  \<open>loxbudget_audit_record_\<close> of \<open>src/loxbudget_core.c\<close> and read by
  \<open>src/loxbudget_audit.c\<close>. Its size is a power of two and indices are masked, so the
  arithmetic is on words; the contract is that of a bounded log, newest entry first.
\<close>

section \<open>Definitions\<close>

definition audit_mask :: "loxbudget \<Rightarrow> u32 \<Rightarrow> u8" where
  "audit_mask b i = ucast (i AND ucast (b_audit_size b - 1))"

definition audit_entry :: "u32 \<Rightarrow> u8 \<Rightarrow> loxbudget_decision \<Rightarrow> loxbudget_decision_record" where
  "audit_entry now op d =
     \<lparr>a_timestamp_ms = now, a_op_id = op, a_denied_resource = d_denied_resource d,
      a_requested = d_requested d, a_available = d_available d,
      a_action = u8_of_action (d_action d), a_pressure = u8_of_pressure (d_pressure d),
      a_reason = u8_of_reason (d_reason d)\<rparr>"

definition audit_push :: "loxbudget_decision_record \<Rightarrow> loxbudget \<Rightarrow> loxbudget" where
  "audit_push r b =
     b\<lparr>t_audit := (t_audit b)[unat (b_audit_head b) := r],
       b_audit_head := audit_mask b (ucast (b_audit_head b) + 1),
       b_audit_count := (if b_audit_count b < b_audit_size b then b_audit_count b + 1 else b_audit_count b)\<rparr>"

definition loxbudget_audit_record ::
    "build \<Rightarrow> 'e platform \<Rightarrow> loxbudget \<Rightarrow> u8 \<Rightarrow> loxbudget_decision \<Rightarrow> 'e \<Rightarrow> loxbudget \<times> 'e" where
  "loxbudget_audit_record B P b op d e =
     (if \<not> audit_on B then (b, e)
      else if b_audit_size b = 0 then (b, e)
      else let e1 = loxbudget_critical_enter' P b e;
               (now, e2) = loxbudget_hal_now_ms' P b e1;
               b' = audit_push (audit_entry now op d) b
           in (b', loxbudget_critical_exit' P b' e2))"

definition audit_reset :: "loxbudget \<Rightarrow> loxbudget" where
  "audit_reset b = b\<lparr>b_audit_head := 0, b_audit_count := 0,
     t_audit := replicate (unat (b_audit_size b)) zero_record\<rparr>"

text \<open>The i-th newest entry, as the copy loop of \<open>loxbudget_audit_get_recent\<close> indexes it.\<close>

definition audit_nth :: "loxbudget \<Rightarrow> nat \<Rightarrow> loxbudget_decision_record" where
  "audit_nth b i = t_audit b ! unat (audit_mask b (ucast (b_audit_head b) - 1 - of_nat i))"

definition audit_recent :: "loxbudget \<Rightarrow> u64 \<Rightarrow> loxbudget_decision_record list" where
  "audit_recent b max_records =
     (let to_copy = (ucast (if max_records < ucast (b_audit_count b) then max_records
                            else ucast (b_audit_count b)) :: u8)
      in map (audit_nth b) [0..<unat to_copy])"

definition loxbudget_audit_clear ::
    "'e platform \<Rightarrow> loxbudget \<Rightarrow> 'e \<Rightarrow> loxbudget_status \<times> loxbudget \<times> 'e" where
  "loxbudget_audit_clear P b e =
     (let st = loxbudget_validate_budget (Some b) in
      if st \<noteq> LOXBUDGET_OK then (st, b, e)
      else if b_audit_size b = 0 then (LOXBUDGET_OK, b, e)
      else let e1 = loxbudget_critical_enter' P b e; b' = audit_reset b
           in (LOXBUDGET_OK, b', loxbudget_critical_exit' P b' e1))"

text \<open>
  \<open>out_ok\<close> and \<open>count_ok\<close> say that the two output pointers are not NULL. The result
  has what is written to \<open>*out_count\<close> (\<open>None\<close>: not written) and to \<open>out\<close>.
\<close>

definition loxbudget_audit_get_recent ::
    "'e platform \<Rightarrow> loxbudget \<Rightarrow> bool \<Rightarrow> u64 \<Rightarrow> bool \<Rightarrow> 'e \<Rightarrow>
     loxbudget_status \<times> nat option \<times> loxbudget_decision_record list \<times> 'e" where
  "loxbudget_audit_get_recent P b out_ok max_records count_ok e =
     (let st = loxbudget_validate_budget (Some b) in
      if st \<noteq> LOXBUDGET_OK \<or> \<not> count_ok
      then (if \<not> count_ok then LOXBUDGET_ERR_INVALID_ARG else st, None, [], e)
      else if b_audit_size b = 0 \<or> max_records = 0 \<or> \<not> out_ok then (LOXBUDGET_OK, Some 0, [], e)
      else let e1 = loxbudget_critical_enter' P b e; rs = audit_recent b max_records
           in (LOXBUDGET_OK, Some (length rs), rs, loxbudget_critical_exit' P b e1))"

section \<open>Masked indices\<close>

lemma pow2_nat:
  fixes n :: nat
  assumes "0 < n" "n AND (n - 1) = 0"
  shows "\<exists>k. n = 2 ^ k"
  using assms
proof (induction n rule: less_induct)
  case (less n)
  show ?case
  proof (cases "even n")
    case True
    then obtain m where m: "n = 2 * m" by (rule evenE)
    with less.prems(1) have "(n - 1) div 2 = m - 1" by linarith
    moreover have "n AND (n - 1) = 2 * ((n div 2) AND ((n - 1) div 2))"
      using True by (subst and_rec) simp
    ultimately have "m AND (m - 1) = 0" "m < n" "0 < m"
      using m less.prems by auto
    then obtain k where "m = 2 ^ k" using less.IH by blast
    with m have "n = 2 ^ Suc k" by simp
    then show ?thesis by blast
  next
    case False
    then obtain m where m: "n = 2 * m + 1" by (rule oddE)
    have "n AND (n - 1) = 2 * m"
      by (simp add: m and_rec [of "Suc (2 * m)" "2 * m"])
    with less.prems(2) m have "n = 2 ^ 0" by simp
    then show ?thesis by blast
  qed
qed

lemma pow2_u8_cases:
  assumes "loxbudget_is_pow2_or_zero_u8 v" "v \<noteq> 0"
  shows "\<exists>k\<le>7. v = 2 ^ k"
proof -
  have "unat (v - 1) = unat v - 1"
    using assms(2) by (simp add: unat_minus_one)
  moreover have "unat (v AND (v - 1)) = 0"
    using assms by (simp add: loxbudget_is_pow2_or_zero_u8_def)
  ultimately have "unat v AND (unat v - 1) = 0"
    by (simp add: unsigned_and_eq)
  then obtain k where k: "unat v = 2 ^ k"
    using pow2_nat [of "unat v"] assms(2) by (auto simp: unat_gt_0)
  have "k \<le> 7"
  proof (rule ccontr)
    assume "\<not> k \<le> 7"
    then have "(2 :: nat) ^ 8 \<le> 2 ^ k" by (intro power_increasing) auto
    with k unat_u8_bound [of v] show False by simp
  qed
  moreover have "v = 2 ^ k"
    using arg_cong [OF k, of "of_nat :: nat \<Rightarrow> u8"] by simp
  ultimately show ?thesis by blast
qed

lemma mask_u8: "k \<le> 7 \<Longrightarrow> ucast ((2 :: u8) ^ k - 1) = (mask k :: u32)"
proof -
  assume "k \<le> 7"
  then have "k = 0 \<or> k = 1 \<or> k = 2 \<or> k = 3 \<or> k = 4 \<or> k = 5 \<or> k = 6 \<or> k = 7" by arith
  then show ?thesis by (auto simp: mask_numeral mask_Suc_double)
qed

lemma audit_mask_int:
  assumes "b_audit_size b = 2 ^ k" "k \<le> 7"
  shows "int (unat (audit_mask b i)) = uint i mod 2 ^ k"
proof -
  have "i AND ucast (b_audit_size b - 1) = take_bit k i"
    using assms by (simp add: mask_u8 take_bit_eq_mask)
  then have "unat (audit_mask b i) = unat (take_bit k i) mod 256"
    by (simp add: audit_mask_def unat_ucast_mod)
  moreover have "unat (take_bit k i) < 2 ^ k"
    by (simp add: unsigned_take_bit_eq)
  moreover have "(2 :: nat) ^ k \<le> 2 ^ 7"
    using assms(2) by (intro power_increasing) auto
  ultimately have "unat (audit_mask b i) = unat (take_bit k i)"
    by simp
  moreover have "uint (take_bit k i) = uint i mod 2 ^ k"
    by (simp only: unsigned_take_bit_eq take_bit_eq_mod [of k "uint i"])
  ultimately show ?thesis
    by (metis uint_nat)
qed

section \<open>The ring as a bounded log\<close>

text \<open>The invariant of the ring and the list it stands for, newest entry first.\<close>

definition audit_ok :: "loxbudget \<Rightarrow> bool" where
  "audit_ok b \<longleftrightarrow>
     loxbudget_is_pow2_or_zero_u8 (b_audit_size b) \<and> b_audit_size b \<noteq> 0 \<and>
     length (t_audit b) = unat (b_audit_size b) \<and>
     unat (b_audit_head b) < unat (b_audit_size b) \<and>
     unat (b_audit_count b) \<le> unat (b_audit_size b)"

definition audit_log :: "loxbudget \<Rightarrow> loxbudget_decision_record list" where
  "audit_log b = map (audit_nth b) [0..<unat (b_audit_count b)]"

definition stepback :: "nat \<Rightarrow> nat \<Rightarrow> nat \<Rightarrow> nat" where
  "stepback h S i = nat ((int h - 1 - int i) mod int S)"

definition ring_pos :: "loxbudget \<Rightarrow> nat \<Rightarrow> nat" where
  "ring_pos b i = stepback (unat (b_audit_head b)) (unat (b_audit_size b)) i"

text \<open>Stepping back \<open>i + 1\<close> places from \<open>h\<close> on a ring of \<open>S\<close> places.\<close>

lemma stepback_less: "0 < S \<Longrightarrow> stepback h S i < S"
  by (simp add: stepback_def nat_less_iff)

lemma stepback_step_0: "h < S \<Longrightarrow> stepback ((h + 1) mod S) S 0 = h"
  by (simp add: stepback_def zmod_int mod_simps)

lemma stepback_step_Suc: "stepback ((h + 1) mod S) S (Suc i) = stepback h S i"
proof -
  have "((int h + 1) mod int S - (2 + int i)) mod int S = (int h + 1 - (2 + int i)) mod int S"
    by (rule mod_diff_left_eq)
  then show ?thesis
    by (simp add: stepback_def zmod_int algebra_simps)
qed

lemma stepback_neq:
  assumes "h < S" "Suc i < S"
  shows "stepback h S i \<noteq> h"
proof
  assume "stepback h S i = h"
  moreover have "0 \<le> (int h - 1 - int i) mod int S"
    using assms by (intro pos_mod_sign) simp
  ultimately have "(int h - 1 - int i) mod int S = int h"
    unfolding stepback_def by (metis int_nat_eq)
  then have "(int h - 1 - int i) mod int S = int h mod int S"
    using assms by simp
  then have "int S dvd (int h - 1 - int i) - int h"
    by (simp only: mod_eq_dvd_iff)
  then have "int S dvd int (Suc i)"
    by (metis (no_types, opaque_lifting) diff_add_cancel diff_diff_eq dvd_minus_iff minus_diff_eq
        of_nat_Suc add.commute)
  with assms(2) show False by (auto dest: zdvd_imp_le)
qed

lemma audit_size_pow2:
  assumes "audit_ok b"
  obtains k where "k \<le> 7" "b_audit_size b = 2 ^ k" "unat (b_audit_size b) = 2 ^ k"
proof -
  obtain k where k: "k \<le> 7" "b_audit_size b = 2 ^ k"
    using assms pow2_u8_cases [of "b_audit_size b"] by (auto simp: audit_ok_def)
  have "k = 0 \<or> k = 1 \<or> k = 2 \<or> k = 3 \<or> k = 4 \<or> k = 5 \<or> k = 6 \<or> k = 7"
    using k(1) by arith
  then have "unat ((2 :: u8) ^ k) = 2 ^ k"
    by auto
  with k show thesis by (intro that) auto
qed

lemma audit_index:
  assumes "audit_ok b" "i < 256"
  shows "unat (audit_mask b (ucast (b_audit_head b) - 1 - of_nat i)) = ring_pos b i"
proof -
  obtain k where k: "k \<le> 7" "b_audit_size b = 2 ^ k" "unat (b_audit_size b) = 2 ^ k"
    using assms(1) by (rule audit_size_pow2)
  let ?h = "ucast (b_audit_head b) :: u32"
  let ?x = "?h - 1 - of_nat i"
  have h: "uint ?h = int (unat (b_audit_head b))"
    by (simp only: uint_nat unat_ucast_8_32)
  have "uint (of_nat i :: u32) = int i"
    using assms(2) by (simp add: uint_nat unat_of_nat)
  then have "uint ?x = ((uint ?h - 1) mod 2 ^ 32 - int i) mod 2 ^ 32"
    by (simp only: uint_word_ariths uint_1 len_of_numeral_defs) simp
  then have "uint ?x = (int (unat (b_audit_head b)) - 1 - int i) mod 2 ^ 32"
    by (simp only: h mod_diff_left_eq)
  moreover have "(2 :: int) ^ k dvd 2 ^ 32"
    using k(1) by (intro le_imp_power_dvd) simp
  ultimately have "uint ?x mod 2 ^ k = (int (unat (b_audit_head b)) - 1 - int i) mod 2 ^ k"
    by (simp add: mod_mod_cancel)
  then have "int (unat (audit_mask b ?x)) = (int (unat (b_audit_head b)) - 1 - int i) mod 2 ^ k"
    using audit_mask_int [OF k(2,1)] by simp
  then have "nat (int (unat (audit_mask b ?x))) = nat ((int (unat (b_audit_head b)) - 1 - int i) mod 2 ^ k)"
    by (rule arg_cong)
  then show ?thesis
    by (simp only: nat_int ring_pos_def stepback_def k(3) of_nat_power of_nat_numeral)
qed

lemma audit_next_head:
  assumes "audit_ok b"
  shows "unat (audit_mask b (ucast (b_audit_head b) + 1)) = (unat (b_audit_head b) + 1) mod unat (b_audit_size b)"
proof -
  obtain k where k: "k \<le> 7" "b_audit_size b = 2 ^ k" "unat (b_audit_size b) = 2 ^ k"
    using assms by (rule audit_size_pow2)
  let ?h = "ucast (b_audit_head b) :: u32"
  have "unat (?h + 1) = unat (b_audit_head b) + 1"
    using unat_u8_bound [of "b_audit_head b"] by (simp add: unat_add_small)
  then have "uint (?h + 1) = int (unat (b_audit_head b) + 1)"
    by (simp only: uint_nat)
  then have "int (unat (audit_mask b (?h + 1))) = int ((unat (b_audit_head b) + 1) mod 2 ^ k)"
    using audit_mask_int [OF k(2,1), of "?h + 1"] by (simp only: zmod_int of_nat_power of_nat_numeral)
  then show ?thesis by (simp only: of_nat_eq_iff k(3))
qed

lemma ring_pos_less: "audit_ok b \<Longrightarrow> ring_pos b i < unat (b_audit_size b)"
  unfolding ring_pos_def by (rule stepback_less) (simp add: audit_ok_def unat_gt_0)

lemma audit_nth_eq: "audit_ok b \<Longrightarrow> i < 256 \<Longrightarrow> audit_nth b i = t_audit b ! ring_pos b i"
  by (simp add: audit_nth_def audit_index)

lemma audit_push_size [simp]: "b_audit_size (audit_push r b) = b_audit_size b"
  by (simp add: audit_push_def)

lemma audit_push_count:
  assumes "audit_ok b"
  shows "unat (b_audit_count (audit_push r b)) = min (unat (b_audit_size b)) (Suc (unat (b_audit_count b)))"
proof (cases "b_audit_count b < b_audit_size b")
  case True
  then have "unat (b_audit_count b) < unat (b_audit_size b)" by (simp add: word_less_nat_alt)
  then have "unat (b_audit_count b + 1) = unat (b_audit_count b) + 1"
    using unat_u8_bound [of "b_audit_size b"] by (simp add: unat_plus_if')
  with True show ?thesis by (simp add: audit_push_def word_less_nat_alt)
next
  case False
  with assms show ?thesis by (auto simp: audit_push_def audit_ok_def word_less_nat_alt)
qed

lemma audit_push_ok:
  assumes "audit_ok b"
  shows "audit_ok (audit_push r b)"
proof -
  have "unat (b_audit_head (audit_push r b)) < unat (b_audit_size b)"
    using audit_next_head [OF assms] assms by (simp add: audit_push_def audit_ok_def unat_gt_0)
  moreover have "length (t_audit (audit_push r b)) = unat (b_audit_size b)"
    using assms by (simp add: audit_push_def audit_ok_def)
  ultimately show ?thesis
    using assms audit_push_count [OF assms, of r] by (simp add: audit_ok_def)
qed

text \<open>After a push the new entry is at position 0 and every other moves back by one.\<close>

lemma ring_pos_push:
  assumes "audit_ok b"
  shows "ring_pos (audit_push r b) 0 = unat (b_audit_head b)"
    and "ring_pos (audit_push r b) (Suc i) = ring_pos b i"
proof -
  have n: "unat (b_audit_head (audit_push r b)) = (unat (b_audit_head b) + 1) mod unat (b_audit_size b)"
    using audit_next_head [OF assms] by (simp add: audit_push_def)
  show "ring_pos (audit_push r b) 0 = unat (b_audit_head b)"
    unfolding ring_pos_def n audit_push_size by (rule stepback_step_0) (use assms in \<open>simp add: audit_ok_def\<close>)
  show "ring_pos (audit_push r b) (Suc i) = ring_pos b i"
    unfolding ring_pos_def n audit_push_size by (rule stepback_step_Suc)
qed

text \<open>Within one turn of the ring the older entries are not at the head.\<close>

lemma ring_pos_not_head:
  assumes "audit_ok b" "Suc i < unat (b_audit_size b)"
  shows "ring_pos b i \<noteq> unat (b_audit_head b)"
  unfolding ring_pos_def by (rule stepback_neq) (use assms in \<open>simp_all add: audit_ok_def\<close>)

lemma audit_log_push:
  assumes "audit_ok b"
  shows "audit_log (audit_push r b) = take (unat (b_audit_size b)) (r # audit_log b)"
proof (rule nth_equalityI)
  let ?S = "unat (b_audit_size b)" and ?c = "unat (b_audit_count b)"
  have S: "0 < ?S" "?S < 256" "?c \<le> ?S"
    using assms by (auto simp: audit_ok_def unat_gt_0 unat_u8_bound)
  show "length (audit_log (audit_push r b)) = length (take ?S (r # audit_log b))"
    using assms S by (simp add: audit_log_def audit_push_count min.commute)
  fix i
  assume "i < length (audit_log (audit_push r b))"
  then have i: "i < ?S" "i < Suc ?c"
    using assms by (auto simp: audit_log_def audit_push_count)
  have l: "audit_log (audit_push r b) ! i = t_audit (audit_push r b) ! ring_pos (audit_push r b) i"
    using assms i S by (simp add: audit_log_def audit_push_count audit_nth_eq audit_push_ok del: upt_Suc)
  have t: "t_audit (audit_push r b) = (t_audit b)[unat (b_audit_head b) := r]"
    by (simp add: audit_push_def)
  show "audit_log (audit_push r b) ! i = take ?S (r # audit_log b) ! i"
  proof (cases i)
    case 0
    have "unat (b_audit_head b) < length (t_audit b)" using assms by (simp add: audit_ok_def)
    with l assms i t 0 S show ?thesis
      by (simp add: ring_pos_push)
  next
    case (Suc j)
    have "ring_pos b j \<noteq> unat (b_audit_head b)"
      using assms i Suc by (intro ring_pos_not_head) auto
    with l Suc i assms S show ?thesis
      by (simp add: ring_pos_push t audit_log_def audit_nth_eq)
  qed
qed

lemma audit_recent_log:
  assumes "audit_ok b"
  shows "audit_recent b n = take (unat n) (audit_log b)"
proof -
  let ?c = "unat (b_audit_count b)"
  have c: "unat (ucast (b_audit_count b) :: u64) = ?c"
    by (rule unat_ucast_up) simp
  have "unat (ucast (if n < ucast (b_audit_count b) then n else ucast (b_audit_count b)) :: u8) = min (unat n) ?c"
    using unat_u8_bound [of "b_audit_count b"] by (auto simp: unat_ucast_mod word_less_nat_alt c min_def)
  then show ?thesis
    by (simp add: audit_recent_def audit_log_def take_map take_upt Let_def min_def)
qed

text \<open>
  The contract of a bounded log: pushing prepends and keeps the newest \<open>cap\<close> entries,
  reading returns the newest ones first, clearing empties it.
\<close>

locale bounded_log =
  fixes inv :: "'s \<Rightarrow> bool"
    and cap :: "'s \<Rightarrow> nat"
    and contents :: "'s \<Rightarrow> 'a list"
    and push :: "'a \<Rightarrow> 's \<Rightarrow> 's"
    and recent :: "'s \<Rightarrow> u64 \<Rightarrow> 'a list"
    and reset :: "'s \<Rightarrow> 's"
  assumes inv_push: "inv s \<Longrightarrow> inv (push x s)"
    and cap_push: "cap (push x s) = cap s"
    and contents_push: "inv s \<Longrightarrow> contents (push x s) = take (cap s) (x # contents s)"
    and recent_contents: "inv s \<Longrightarrow> recent s n = take (unat n) (contents s)"
    and inv_reset: "inv s \<Longrightarrow> inv (reset s)"
    and cap_reset: "cap (reset s) = cap s"
    and contents_reset: "inv s \<Longrightarrow> contents (reset s) = []"
begin

lemma inv_fold: "inv s \<Longrightarrow> inv (fold push xs s)"
  by (induction xs arbitrary: s) (auto simp: inv_push)

lemma cap_fold: "cap (fold push xs s) = cap s"
  by (induction xs arbitrary: s) (auto simp: cap_push)

lemma contents_fold:
  "inv s \<Longrightarrow> length (contents s) \<le> cap s \<Longrightarrow> contents (fold push xs s) = take (cap s) (rev xs @ contents s)"
proof (induction xs arbitrary: s)
  case Nil
  then show ?case by simp
next
  case (Cons x xs)
  have "contents (fold push xs (push x s)) = take (cap s) (rev xs @ take (cap s) (x # contents s))"
    using Cons by (simp add: inv_push cap_push contents_push)
  then show ?case by (simp add: min_def)
qed

lemma recent_after_pushes:
  "inv s \<Longrightarrow> recent (fold push xs (reset s)) n = take (min (unat n) (cap s)) (rev xs)"
  by (simp add: recent_contents inv_fold inv_reset contents_fold contents_reset cap_reset)

end

interpretation ring: bounded_log audit_ok "\<lambda>b. unat (b_audit_size b)" audit_log audit_push audit_recent audit_reset
proof unfold_locales
  show "audit_ok (audit_reset b)" if "audit_ok b" for b
    using that by (simp add: audit_ok_def audit_reset_def unat_gt_0)
  show "audit_log (audit_reset b) = []" if "audit_ok b" for b
    by (simp add: audit_log_def audit_reset_def)
qed (simp_all add: audit_push_ok audit_log_push audit_recent_log audit_reset_def)

text \<open>
  C18. Audit trail: after the ring is cleared and any number of entries is recorded, asking for up to
  \<open>n\<close> of them returns the most recent ones, newest first, as many as \<open>n\<close> and the size
  of the ring allow, in the same order and without a gap.
\<close>

theorem audit_keeps_most_recent:
  assumes "audit_ok b"
  shows "audit_recent (fold audit_push rs (audit_reset b)) n =
         take (min (unat n) (unat (b_audit_size b))) (rev rs)"
  using assms by (rule ring.recent_after_pushes)

theorem audit_keeps_most_recent_witness:
  "let b = (init_tables fixed_build (init_struct fixed_build 4096
              ((loxbudget_config_simple 1 1)\<lparr>cfg_audit_size := 2\<rparr>)));
       r = (\<lambda>i. zero_record\<lparr>a_op_id := i\<rparr>)
   in audit_recent (fold audit_push [r 1, r 2, r 3] (audit_reset b)) 7 = [r 3, r 2]"
proof -
  have ok: "audit_ok (init_tables fixed_build (init_struct fixed_build 4096
      ((loxbudget_config_simple 1 1)\<lparr>cfg_audit_size := 2\<rparr>)))"
    by (simp add: audit_ok_def init_tables_def Let_def loxbudget_config_simple_def
        loxbudget_is_pow2_or_zero_u8_def)
  show ?thesis
    using audit_keeps_most_recent [OF ok, of "[zero_record\<lparr>a_op_id := 1\<rparr>, zero_record\<lparr>a_op_id := 2\<rparr>,
        zero_record\<lparr>a_op_id := 3\<rparr>]" 7]
    by (simp add: loxbudget_config_simple_def)
qed

section \<open>What recording changes\<close>

lemma audit_ok_shape: "b_audit_size b \<noteq> 0 \<Longrightarrow> audit_ok b = audit_shape b"
  by (auto simp: audit_ok_def audit_shape_def)

text \<open>Recording changes the ring and its two counters and nothing else.\<close>

definition same_but_audit :: "loxbudget \<Rightarrow> loxbudget \<Rightarrow> bool" where
  "same_but_audit b c \<longleftrightarrow>
     (\<exists>ring head n. c = b\<lparr>t_audit := ring, b_audit_head := head, b_audit_count := n\<rparr>)"

lemma same_but_audit_refl [simp]: "same_but_audit b b"
  unfolding same_but_audit_def
  by (rule exI [of _ "t_audit b"], rule exI [of _ "b_audit_head b"], rule exI [of _ "b_audit_count b"]) simp

lemma audit_push_frame: "same_but_audit b (audit_push r b)"
  unfolding same_but_audit_def audit_push_def
  by (intro exI) (rule refl)

lemma audit_record_frame: "same_but_audit b (fst (loxbudget_audit_record B P b op d e))"
  by (simp add: loxbudget_audit_record_def Let_def audit_push_frame split: prod.splits)

lemma audit_record_shape:
  assumes "audit_shape b"
  shows "audit_shape (fst (loxbudget_audit_record B P b op d e))"
proof (cases "audit_on B \<and> b_audit_size b \<noteq> 0")
  case True
  with assms have "audit_shape (audit_push r b)" for r
    using audit_push_ok [of b r] audit_ok_shape [of b] audit_ok_shape [of "audit_push r b"] by simp
  with True show ?thesis
    by (simp add: loxbudget_audit_record_def Let_def split: prod.splits)
next
  case False
  with assms show ?thesis by (auto simp: loxbudget_audit_record_def)
qed

lemma same_but_audit_hal: "same_but_audit b c \<Longrightarrow> same_hal b c"
  by (auto simp: same_but_audit_def same_hal_def)

end
