(* ===== verification/LB_Config.thy ===== *)
theory LB_Config
  imports LB_Instance
begin

text \<open>
  The configuration of an instance (\<open>src/loxbudget_core.c\<close>): resources, operation
  profiles and the needs of an operation, and the accessors the decision engine reads
  them with. The needs of an operation are four entries of a table; they implement a
  map from resources to amounts of at most four keys, and that contract is stated as a
  locale. \<open>config_ok\<close> is what registration guarantees to the decision engine.
\<close>

section \<open>Definitions\<close>

subsection \<open>Accessors\<close>

definition loxbudget_available_u16 :: "u16 \<Rightarrow> u16 \<Rightarrow> u16 \<Rightarrow> u16" where
  "loxbudget_available_u16 limit used reserved =
     (let v = ucast limit :: u32;
          v = (if ucast used > v then 0 else v - ucast used);
          v = (if ucast reserved > v then 0 else v - ucast reserved)
      in ucast v)"

definition available :: "loxbudget_resource \<Rightarrow> u16" where
  "available r = loxbudget_available_u16 (r_limit r) (r_used r) (r_reserved r)"

definition loxbudget_profile_c :: "loxbudget \<Rightarrow> u8 \<Rightarrow> loxbudget_op_profile option" where
  "loxbudget_profile_c b op =
     (if op \<ge> b_max_ops b then None
      else if t_op_cfg b ! unat op = 0 then None
      else Some (t_ops b ! unat op))"

definition loxbudget_mapped_action :: "loxbudget_op_profile \<Rightarrow> u8 \<Rightarrow> u8" where
  "loxbudget_mapped_action p pressure =
     (case pressure_of_u8 pressure of
        LOXBUDGET_PRESSURE_NORMAL \<Rightarrow> p_action_normal p
      | LOXBUDGET_PRESSURE_ELEVATED \<Rightarrow> p_action_elevated p
      | LOXBUDGET_PRESSURE_CRITICAL \<Rightarrow> p_action_critical p
      | LOXBUDGET_PRESSURE_SURVIVAL \<Rightarrow> p_action_survival p
      | _ \<Rightarrow> p_action_lockdown p)"

text \<open>\<open>&loxbudget_needs_(budget)[op * LOXBUDGET_MAX_NEEDS_PER_OP]\<close>: the four needs of an operation.\<close>

definition op_needs :: "loxbudget \<Rightarrow> u8 \<Rightarrow> loxbudget_need list" where
  "op_needs b op =
     chunk LOXBUDGET_MAX_NEEDS_PER_OP (unat op) (t_needs b)"

subsection \<open>Operations\<close>

definition loxbudget_set_resource ::
    "loxbudget \<Rightarrow> u8 \<Rightarrow> u16 \<Rightarrow> c_enum \<Rightarrow> loxbudget_status \<times> loxbudget" where
  "loxbudget_set_resource b rid limit kind =
     (let st = loxbudget_validate_budget (Some b) in
      if st \<noteq> LOXBUDGET_OK then (st, b)
      else if rid \<ge> b_max_resources b then (LOXBUDGET_ERR_INVALID_ARG, b)
      else if (ucast kind :: u8) > u8_of_kind LOXBUDGET_RES_STATE then (LOXBUDGET_ERR_INVALID_ARG, b)
      else (LOXBUDGET_OK,
        b\<lparr>t_resources := (t_resources b)[unat rid :=
            \<lparr>r_limit = limit, r_used = 0, r_reserved = 0, r_high_watermark = 0,
             r_kind = ucast kind, r_flags = 1\<rparr>],
          t_res_cfg := (t_res_cfg b)[unat rid := 1]\<rparr>))"

text \<open>The requirement of strict mode: a flag needs its callback.\<close>

definition strict_hal_missing :: "loxbudget \<Rightarrow> u8 \<Rightarrow> bool" where
  "strict_hal_missing b f \<longleftrightarrow>
     has_flag f LOXBUDGET_OPF_REQUIRES_BOOT_PROVEN \<and> (b_hal_cb b = None \<or> hal_member b cb_boot_proven = 0) \<or>
     has_flag f LOXBUDGET_OPF_REQUIRES_VOLTAGE_OK \<and> (b_hal_cb b = None \<or> hal_member b cb_voltage_ok = 0) \<or>
     has_flag f LOXBUDGET_OPF_REQUIRES_NETWORK_UP \<and> (b_hal_cb b = None \<or> hal_member b cb_network_up = 0)"

definition profile_in_range :: "loxbudget_op_profile \<Rightarrow> bool" where
  "profile_in_range p \<longleftrightarrow>
     \<not> (p_action_normal p > u8_of_action LOXBUDGET_LOCKDOWN \<or>
        p_action_elevated p > u8_of_action LOXBUDGET_LOCKDOWN \<or>
        p_action_critical p > u8_of_action LOXBUDGET_LOCKDOWN \<or>
        p_action_survival p > u8_of_action LOXBUDGET_LOCKDOWN \<or>
        p_action_lockdown p > u8_of_action LOXBUDGET_LOCKDOWN)"

definition loxbudget_register_op ::
    "loxbudget \<Rightarrow> loxbudget_op_profile option \<Rightarrow> loxbudget_status \<times> loxbudget" where
  "loxbudget_register_op b profile =
     (let st = loxbudget_validate_budget (Some b) in
      case profile of
        None \<Rightarrow> (LOXBUDGET_ERR_INVALID_ARG, b)
      | Some p \<Rightarrow>
          if st \<noteq> LOXBUDGET_OK then (st, b)
          else if p_op_id p \<ge> b_max_ops b then (LOXBUDGET_ERR_INVALID_ARG, b)
          else if p_priority p > 3 then (LOXBUDGET_ERR_INVALID_ARG, b)
          else if \<not> profile_in_range p then (LOXBUDGET_ERR_INVALID_ARG, b)
          else if t_op_cfg b ! unat (p_op_id p) \<noteq> 0 then (LOXBUDGET_ERR_DUPLICATE, b)
          else if b_hal_strict b \<noteq> 0 \<and> strict_hal_missing b (p_flags p)
          then (LOXBUDGET_ERR_HAL_NOT_CONFIGURED, b)
          else (LOXBUDGET_OK,
            b\<lparr>t_ops := (t_ops b)[unat (p_op_id p) := p],
              t_op_cfg := (t_op_cfg b)[unat (p_op_id p) := 1],
              t_needs := set_chunk LOXBUDGET_MAX_NEEDS_PER_OP (unat (p_op_id p))
                (replicate LOXBUDGET_MAX_NEEDS_PER_OP zero_need) (t_needs b)\<rparr>))"

text \<open>The two scans of \<open>loxbudget_op_set_need\<close>, on the four needs of the operation.\<close>

definition need_insert :: "u8 \<Rightarrow> u16 \<Rightarrow> loxbudget_need list \<Rightarrow> loxbudget_need list option" where
  "need_insert resource amount xs =
     (case first_index (\<lambda>n. n_amount n \<noteq> 0 \<and> n_resource n = resource) xs of
        Some i \<Rightarrow> Some (upd_at i (\<lambda>n. n\<lparr>n_amount := amount\<rparr>) xs)
      | None \<Rightarrow>
          (case first_index (\<lambda>n. n_amount n = 0) xs of
             Some i \<Rightarrow> Some (upd_at i (\<lambda>n. n\<lparr>n_resource := resource, n_amount := amount\<rparr>) xs)
           | None \<Rightarrow> None))"

definition loxbudget_op_set_need ::
    "loxbudget \<Rightarrow> u8 \<Rightarrow> u8 \<Rightarrow> u16 \<Rightarrow> loxbudget_status \<times> loxbudget" where
  "loxbudget_op_set_need b op resource amount =
     (let st = loxbudget_validate_budget (Some b) in
      if st \<noteq> LOXBUDGET_OK then (st, b)
      else if op \<ge> b_max_ops b \<or> resource \<ge> b_max_resources b then (LOXBUDGET_ERR_INVALID_ARG, b)
      else if amount = 0 then (LOXBUDGET_ERR_INVALID_ARG, b)
      else if t_op_cfg b ! unat op = 0 then (LOXBUDGET_ERR_NOT_FOUND, b)
      else if t_res_cfg b ! unat resource = 0 then (LOXBUDGET_ERR_NOT_FOUND, b)
      else (case need_insert resource amount (op_needs b op) of
          None \<Rightarrow> (LOXBUDGET_ERR_NO_SPACE, b)
        | Some xs \<Rightarrow> (LOXBUDGET_OK,
            b\<lparr>t_needs := set_chunk LOXBUDGET_MAX_NEEDS_PER_OP (unat op) xs (t_needs b)\<rparr>)))"

section \<open>Availability\<close>

lemma unat_monus: "unat (if u > l then 0 else l - u :: 'a::len word) = unat l - unat u"
proof (cases "l < u")
  case True
  then have "unat l < unat u" by (simp add: word_less_nat_alt)
  with True show ?thesis by simp
next
  case False
  then have "u \<le> l" by simp
  with False show ?thesis by (simp add: unat_sub)
qed

lemma unat_available_u16 [wordnat]:
  "unat (loxbudget_available_u16 l u r) = unat l - unat u - unat r"
proof -
  have "unat (ucast (v :: u32) :: u16) = unat v" if "unat v \<le> unat l" for v
    using that unat_u16_bound [of l] by (simp add: unat_ucast_mod)
  then show ?thesis
    by (simp add: loxbudget_available_u16_def Let_def unat_monus del: unat_ucast_mod)
qed

lemma unat_available [wordnat]: "unat (available r) = unat (r_limit r) - unat (r_used r) - unat (r_reserved r)"
  by (simp add: available_def unat_available_u16)

section \<open>The needs of an operation as a bounded map\<close>

definition live :: "loxbudget_need \<Rightarrow> bool" where
  "live n \<longleftrightarrow> n_amount n \<noteq> 0"

definition need_keys :: "loxbudget_need list \<Rightarrow> u8 list" where
  "need_keys xs = map n_resource (filter live xs)"

definition need_map :: "loxbudget_need list \<Rightarrow> u8 \<rightharpoonup> u16" where
  "need_map xs = map_of (map (\<lambda>n. (n_resource n, n_amount n)) (filter live xs))"

lemma dom_need_map: "dom (need_map xs) = set (need_keys xs)"
  by (simp add: need_map_def need_keys_def dom_map_of_conv_image_fst image_comp comp_def)

lemma card_need_keys: "distinct (need_keys xs) \<Longrightarrow> card (set (need_keys xs)) = length (filter live xs)"
  by (metis distinct_card length_map need_keys_def)

lemma need_keys_append [simp]: "need_keys (xs @ ys) = need_keys xs @ need_keys ys"
  by (simp add: need_keys_def)

lemma need_map_append: "need_map (xs @ ys) = need_map ys ++ need_map xs"
  by (simp add: need_map_def)

lemma need_Cons [simp]:
  "need_keys (n # xs) = (if live n then n_resource n # need_keys xs else need_keys xs)"
  "need_map (n # xs) = (if live n then (need_map xs)(n_resource n \<mapsto> n_amount n) else need_map xs)"
  "need_keys [] = []" "need_map [] = Map.empty"
  by (simp_all add: need_keys_def need_map_def)

lemma upd_at_split: "upd_at (length ys) f (ys @ x # zs) = ys @ f x # zs"
  by (simp add: upd_at_def)

lemma first_index_split:
  assumes "first_index Q xs = Some i"
  obtains ys x zs where "xs = ys @ x # zs" "i = length ys" "Q x" "\<forall>y\<in>set ys. \<not> Q y"
proof -
  have i: "i < length xs" "Q (xs ! i)" "\<forall>j<i. \<not> Q (xs ! j)"
    using first_index_Some [OF assms] by auto
  show thesis
    by (rule that [of "take i xs" "xs ! i" "drop (Suc i) xs"])
       (use i in \<open>auto simp: id_take_nth_drop [symmetric] in_set_conv_nth\<close>)
qed

lemma not_in_keys: "\<forall>n\<in>set xs. \<not> (n_amount n \<noteq> 0 \<and> n_resource n = r) \<Longrightarrow> r \<notin> set (need_keys xs)"
  by (auto simp: need_keys_def live_def)

text \<open>What an insertion does, in the three cases of the code.\<close>

lemma need_insert_Some:
  assumes "need_insert r a xs = Some ys" "distinct (need_keys xs)" "a \<noteq> 0"
  shows "need_map ys = (need_map xs)(r \<mapsto> a) \<and> distinct (need_keys ys) \<and> length ys = length xs \<and>
         set (need_keys ys) = insert r (set (need_keys xs))"
proof (cases "first_index (\<lambda>n. n_amount n \<noteq> 0 \<and> n_resource n = r) xs")
  case (Some i)
  then obtain us n vs where s: "xs = us @ n # vs" "i = length us" "n_amount n \<noteq> 0" "n_resource n = r"
    and u: "\<forall>y\<in>set us. \<not> (n_amount y \<noteq> 0 \<and> n_resource y = r)"
    by (rule first_index_split) auto
  have "ys = us @ n\<lparr>n_amount := a\<rparr> # vs"
    using assms(1) Some by (simp add: need_insert_def s upd_at_split)
  moreover have "r \<notin> dom (need_map us)"
    using not_in_keys [OF u] by (simp add: dom_need_map)
  ultimately show ?thesis
    using assms(2,3) s by (auto simp: need_map_append live_def map_add_upd_left)
next
  case None
  with assms(1) obtain i where i: "first_index (\<lambda>n. n_amount n = 0) xs = Some i"
    and ys: "ys = upd_at i (\<lambda>n. n\<lparr>n_resource := r, n_amount := a\<rparr>) xs"
    by (auto simp: need_insert_def split: option.splits)
  from i obtain us n vs where s: "xs = us @ n # vs" "i = length us" "n_amount n = 0"
    by (rule first_index_split) auto
  have r: "r \<notin> set (need_keys xs)"
    using None by (intro not_in_keys) (simp add: first_index_None)
  then have "r \<notin> dom (need_map us)"
    using s by (simp add: dom_need_map)
  with assms(2,3) r s ys show ?thesis
    by (auto simp: upd_at_split need_map_append live_def map_add_upd_left)
qed

lemma need_insert_None:
  assumes "distinct (need_keys xs)"
  shows "need_insert r a xs = None \<longleftrightarrow>
         r \<notin> dom (need_map xs) \<and> card (dom (need_map xs)) = length xs"
proof -
  have c: "card (dom (need_map xs)) = length (filter live xs)"
    using card_need_keys [OF assms] by (simp add: dom_need_map)
  have "length (filter live xs) = length xs \<longleftrightarrow> (\<forall>n\<in>set xs. live n)"
    by (metis filter_True length_filter_less less_irrefl)
  moreover have "r \<notin> dom (need_map xs) \<longleftrightarrow> (\<forall>n\<in>set xs. \<not> (n_amount n \<noteq> 0 \<and> n_resource n = r))"
    by (auto simp: dom_need_map need_keys_def live_def)
  moreover have "need_insert r a xs = None \<longleftrightarrow>
      first_index (\<lambda>n. n_amount n \<noteq> 0 \<and> n_resource n = r) xs = None \<and>
      first_index (\<lambda>n. n_amount n = 0) xs = None"
    by (auto simp: need_insert_def split: option.splits)
  ultimately show ?thesis
    unfolding c by (auto simp: first_index_None live_def)
qed

text \<open>The contract: a finite map of bounded size whose insertion fails only when it is full.\<close>

locale bounded_map =
  fixes inv :: "'s \<Rightarrow> bool"
    and cap :: "'s \<Rightarrow> nat"
    and look :: "'s \<Rightarrow> 'k \<rightharpoonup> 'v"
    and ins :: "'k \<Rightarrow> 'v \<Rightarrow> 's \<Rightarrow> 's option"
    and good :: "'v \<Rightarrow> bool"
  assumes finite_dom: "finite (dom (look s))"
    and dom_cap: "inv s \<Longrightarrow> card (dom (look s)) \<le> cap s"
    and ins_Some: "inv s \<Longrightarrow> good v \<Longrightarrow> ins k v s = Some t \<Longrightarrow>
          inv t \<and> cap t = cap s \<and> look t = (look s)(k \<mapsto> v)"
    and ins_None: "inv s \<Longrightarrow> ins k v s = None \<longleftrightarrow> k \<notin> dom (look s) \<and> card (dom (look s)) = cap s"
begin

fun ins_all :: "('k \<times> 'v) list \<Rightarrow> 's \<Rightarrow> 's option" where
  "ins_all [] s = Some s"
| "ins_all ((k, v) # ps) s = (case ins k v s of None \<Rightarrow> None | Some t \<Rightarrow> ins_all ps t)"

lemma ins_all_Some:
  "inv s \<Longrightarrow> \<forall>(k, v)\<in>set ps. good v \<Longrightarrow> ins_all ps s = Some t \<Longrightarrow>
   inv t \<and> cap t = cap s \<and> look t = look s ++ map_of (rev ps)"
proof (induction ps arbitrary: s)
  case Nil
  then show ?case by simp
next
  case (Cons p ps)
  obtain k v where p: "p = (k, v)" by (cases p)
  from Cons.prems(3) p obtain u where u: "ins k v s = Some u" "ins_all ps u = Some t"
    by (auto split: option.splits)
  have iu: "inv u" "cap u = cap s" and lu: "look u = (look s)(k \<mapsto> v)"
    using ins_Some [OF Cons.prems(1) _ u(1)] Cons.prems(2) p by auto
  have "inv t \<and> cap t = cap u \<and> look t = look u ++ map_of (rev ps)"
    using iu Cons.prems(2) u(2) by (intro Cons.IH) auto
  moreover have "look s ++ map_of (rev (p # ps)) = look u ++ map_of (rev ps)"
    by (simp add: p lu)
  ultimately show ?case using iu by simp
qed

lemma ins_all_None:
  "inv s \<Longrightarrow> \<forall>(k, v)\<in>set ps. good v \<Longrightarrow>
   ins_all ps s = None \<longleftrightarrow> cap s < card (dom (look s) \<union> fst ` set ps)"
proof (induction ps arbitrary: s)
  case Nil
  then show ?case using dom_cap by (simp add: not_less)
next
  case (Cons p ps)
  obtain k v where p: "p = (k, v)" by (cases p)
  show ?case
  proof (cases "ins k v s")
    case None
    then have k: "k \<notin> dom (look s)" "card (dom (look s)) = cap s"
      using ins_None [OF Cons.prems(1)] by auto
    have "card (insert k (dom (look s))) \<le> card (dom (look s) \<union> fst ` set (p # ps))"
      using p finite_dom by (intro card_mono) auto
    with k None p finite_dom [of s] show ?thesis by simp
  next
    case (Some u)
    then have iu: "inv u" "cap u = cap s" and lu: "look u = (look s)(k \<mapsto> v)"
      using ins_Some [OF Cons.prems(1)] Cons.prems(2) p by auto
    have "ins_all ps u = None \<longleftrightarrow> cap u < card (dom (look u) \<union> fst ` set ps)"
      using iu Cons.prems(2) by (intro Cons.IH) auto
    moreover have "dom (look u) = insert k (dom (look s))"
      by (simp add: lu)
    ultimately show ?thesis using iu Some p by simp
  qed
qed

end

interpretation needs: bounded_map "\<lambda>xs. distinct (need_keys xs)" length need_map need_insert "\<lambda>a. a \<noteq> 0"
proof unfold_locales
  show "finite (dom (need_map xs))" for xs by (simp add: dom_need_map)
  show "card (dom (need_map xs)) \<le> length xs" if "distinct (need_keys xs)" for xs
    using card_need_keys [OF that] by (simp add: dom_need_map)
qed (use need_insert_Some need_insert_None in auto)

section \<open>What registration guarantees\<close>

text \<open>
  For each operation: the live needs name different, configured resources; an operation
  that is not registered has none; a registered profile is in range, sits at its own
  index and, in strict mode, requires no callback that is missing. For each configured
  resource: its kind is one of the three.
\<close>

definition op_config_ok :: "loxbudget \<Rightarrow> u8 \<Rightarrow> bool" where
  "op_config_ok b op \<longleftrightarrow>
     distinct (need_keys (op_needs b op)) \<and>
     (\<forall>r\<in>set (need_keys (op_needs b op)). r < b_max_resources b \<and> t_res_cfg b ! unat r \<noteq> 0) \<and>
     (t_op_cfg b ! unat op = 0 \<longrightarrow> need_keys (op_needs b op) = []) \<and>
     (t_op_cfg b ! unat op \<noteq> 0 \<longrightarrow>
        profile_in_range (t_ops b ! unat op) \<and> p_op_id (t_ops b ! unat op) = op \<and>
        (b_hal_strict b \<noteq> 0 \<longrightarrow> \<not> strict_hal_missing b (p_flags (t_ops b ! unat op))))"

definition res_config_ok :: "loxbudget \<Rightarrow> u8 \<Rightarrow> bool" where
  "res_config_ok b r \<longleftrightarrow> (t_res_cfg b ! unat r \<noteq> 0 \<longrightarrow> r_kind (t_resources b ! unat r) \<le> 2)"

definition config_ok :: "loxbudget \<Rightarrow> bool" where
  "config_ok b \<longleftrightarrow>
     (\<forall>op. op < b_max_ops b \<longrightarrow> op_config_ok b op) \<and>
     (\<forall>r. r < b_max_resources b \<longrightarrow> res_config_ok b r)"

text \<open>The part of an instance that \<open>config_ok\<close> and the accessors read.\<close>

definition same_config :: "loxbudget \<Rightarrow> loxbudget \<Rightarrow> bool" where
  "same_config b c \<longleftrightarrow>
     b_max_ops c = b_max_ops b \<and> b_max_resources c = b_max_resources b \<and>
     t_op_cfg c = t_op_cfg b \<and> t_res_cfg c = t_res_cfg b \<and> t_ops c = t_ops b \<and>
     t_needs c = t_needs b \<and> map r_kind (t_resources c) = map r_kind (t_resources b) \<and>
     map r_limit (t_resources c) = map r_limit (t_resources b) \<and>
     b_hal_cb c = b_hal_cb b \<and> b_hal_user c = b_hal_user b \<and> b_hal_strict c = b_hal_strict b"

lemma same_config_refl [simp]: "same_config b b"
  by (simp add: same_config_def)

lemma same_config_trans: "same_config a b \<Longrightarrow> same_config b c \<Longrightarrow> same_config a c"
  by (simp add: same_config_def)

lemma same_config_sym: "same_config a b \<Longrightarrow> same_config b a"
  by (simp add: same_config_def)

lemma same_config_accessors:
  assumes "same_config b c"
  shows "loxbudget_profile_c c = loxbudget_profile_c b" "op_needs c = op_needs b"
    and "strict_hal_missing c = strict_hal_missing b"
  using assms
  by (auto simp: same_config_def loxbudget_profile_c_def op_needs_def strict_hal_missing_def
      hal_member_def fun_eq_iff)

lemma same_config_kind:
  assumes "same_config b c" "i < length (t_resources b)"
  shows "r_kind (t_resources c ! i) = r_kind (t_resources b ! i)"
    and "r_limit (t_resources c ! i) = r_limit (t_resources b ! i)"
proof -
  have l: "length (t_resources c) = length (t_resources b)"
    using assms(1) map_eq_imp_length_eq [of r_kind "t_resources c" r_kind "t_resources b"]
    by (simp add: same_config_def)
  have "map r_kind (t_resources c) ! i = map r_kind (t_resources b) ! i"
    "map r_limit (t_resources c) ! i = map r_limit (t_resources b) ! i"
    using assms(1) by (simp_all add: same_config_def)
  then show "r_kind (t_resources c ! i) = r_kind (t_resources b ! i)"
    and "r_limit (t_resources c ! i) = r_limit (t_resources b ! i)"
    using assms(2) l by simp_all
qed

lemma lb_shape_size: "lb_shape B b \<Longrightarrow> size_shape b"
  by (simp add: lb_shape_def)

lemma size_shape_resources: "size_shape b \<Longrightarrow> r < b_max_resources b \<Longrightarrow> unat r < length (t_resources b)"
  by (simp add: size_shape_def word_less_nat_alt)

lemma same_config_ok:
  assumes "same_config b c" "size_shape b" "config_ok b"
  shows "config_ok c"
proof -
  have "op_config_ok c op = op_config_ok b op" for op
    using assms(1) same_config_accessors [OF assms(1)] by (simp add: op_config_ok_def same_config_def)
  moreover have "res_config_ok c r = res_config_ok b r" if "r < b_max_resources b" for r
    using assms that same_config_kind [OF assms(1) size_shape_resources]
    by (simp add: res_config_ok_def same_config_def)
  ultimately show ?thesis
    using assms(1,3) by (simp add: config_ok_def same_config_def)
qed

section \<open>Registration keeps the guarantee\<close>

lemma size_shape_lengths:
  assumes "size_shape b"
  shows "length (t_res_cfg b) = LOXBUDGET_MAX_RESOURCES" "length (t_op_cfg b) = LOXBUDGET_MAX_OPS"
    and "length (t_resources b) = unat (b_max_resources b)" "length (t_ops b) = unat (b_max_ops b)"
    and "length (t_needs b) = unat (b_max_ops b) * LOXBUDGET_MAX_NEEDS_PER_OP"
    and "length (t_lease_slots b) = unat (b_max_leases b)"
    and "unat (b_max_resources b) \<le> LOXBUDGET_MAX_RESOURCES" "unat (b_max_ops b) \<le> LOXBUDGET_MAX_OPS"
    and "unat (b_max_leases b) \<le> LOXBUDGET_MAX_LEASES"
  using assms by (simp_all add: size_shape_def)

lemma length_op_needs: "size_shape b \<Longrightarrow> op < b_max_ops b \<Longrightarrow> length (op_needs b op) = LOXBUDGET_MAX_NEEDS_PER_OP"
  unfolding op_needs_def
  by (rule length_chunk [where m = "unat (b_max_ops b)"]) (auto simp: size_shape_lengths word_less_nat_alt)

lemma op_needs_set:
  assumes "size_shape b" "op < b_max_ops b" "op' < b_max_ops b" "length xs = LOXBUDGET_MAX_NEEDS_PER_OP"
  shows "chunk LOXBUDGET_MAX_NEEDS_PER_OP (unat op')
           (set_chunk LOXBUDGET_MAX_NEEDS_PER_OP (unat op) xs (t_needs b)) =
         (if op' = op then xs else op_needs b op')"
  using assms
    chunk_set_same [where xs = "t_needs b" and m = "unat (b_max_ops b)" and n = LOXBUDGET_MAX_NEEDS_PER_OP
      and k = "unat op" and ys = xs]
    chunk_set_other [where xs = "t_needs b" and m = "unat (b_max_ops b)" and n = LOXBUDGET_MAX_NEEDS_PER_OP
      and k = "unat op" and j = "unat op'" and ys = xs]
  by (simp add: op_needs_def size_shape_lengths word_less_nat_alt word_unat_eq_iff)

lemma set_resource_OK:
  "loxbudget_set_resource b r l k = (LOXBUDGET_OK, b') \<longleftrightarrow>
     b_magic b = LOXBUDGET_MAGIC_INIT \<and> r < b_max_resources b \<and> (ucast k :: u8) \<le> 2 \<and>
     b' = b\<lparr>t_resources := (t_resources b)[unat r :=
            \<lparr>r_limit = l, r_used = 0, r_reserved = 0, r_high_watermark = 0,
             r_kind = ucast k, r_flags = 1\<rparr>],
          t_res_cfg := (t_res_cfg b)[unat r := 1]\<rparr>"
  by (auto simp: loxbudget_set_resource_def)

lemma set_resource_err:
  "fst (loxbudget_set_resource b r l k) \<noteq> LOXBUDGET_OK \<Longrightarrow> snd (loxbudget_set_resource b r l k) = b"
  by (auto simp: loxbudget_set_resource_def)

lemma shape_config_update:
  assumes "lb_shape B b" "length os = length (t_ops b)" "length oc = length (t_op_cfg b)"
    and "length ns = length (t_needs b)" "length rs = length (t_resources b)" "length rc = length (t_res_cfg b)"
  shows "lb_shape B (b\<lparr>t_ops := os, t_op_cfg := oc, t_needs := ns\<rparr>)"
    and "lb_shape B (b\<lparr>t_needs := ns\<rparr>)"
    and "lb_shape B (b\<lparr>t_resources := rs, t_res_cfg := rc\<rparr>)"
  using assms by (simp_all add: lb_shape_def size_shape_def audit_shape_def feature_shape_def)

lemma set_resource_shape:
  "lb_shape B b \<Longrightarrow> lb_shape B (snd (loxbudget_set_resource b r l k))"
  by (simp add: loxbudget_set_resource_def shape_config_update(3))

lemma length_needs_set_chunk:
  "size_shape b \<Longrightarrow> op < b_max_ops b \<Longrightarrow> length xs = LOXBUDGET_MAX_NEEDS_PER_OP \<Longrightarrow>
   length (set_chunk LOXBUDGET_MAX_NEEDS_PER_OP (unat op) xs (t_needs b)) = length (t_needs b)"
  by (simp add: size_shape_lengths(5) word_less_nat_alt)

lemma set_resource_config:
  assumes "size_shape b" "config_ok b"
  shows "config_ok (snd (loxbudget_set_resource b r l k))"
proof (cases "fst (loxbudget_set_resource b r l k) = LOXBUDGET_OK")
  case True
  define b' where "b' = snd (loxbudget_set_resource b r l k)"
  have r: "r < b_max_resources b" "(ucast k :: u8) \<le> 2"
    and b': "b' = b\<lparr>t_resources := (t_resources b)[unat r :=
            \<lparr>r_limit = l, r_used = 0, r_reserved = 0, r_high_watermark = 0,
             r_kind = ucast k, r_flags = 1\<rparr>],
          t_res_cfg := (t_res_cfg b)[unat r := 1]\<rparr>"
    using True set_resource_OK [of b r l k b'] by (auto simp: b'_def prod_eq_iff)
  have cfg: "t_res_cfg b' ! i \<noteq> 0" if "t_res_cfg b ! i \<noteq> 0" for i
    using that assms(1) r size_shape_lengths(1,7) [OF assms(1)]
    by (cases "unat r = i") (auto simp: b' word_less_nat_alt)
  have "op_config_ok b' op" if "op_config_ok b op" for op
    using that cfg
    by (auto simp: op_config_ok_def op_needs_def b' strict_hal_missing_def hal_member_def)
  moreover have "res_config_ok b' q" if "res_config_ok b q" for q
    using that assms(1) r size_shape_resources [OF assms(1) r(1)]
    by (cases "q = r") (auto simp: res_config_ok_def b' word_unat_eq_iff)
  ultimately show ?thesis
    using assms(2) unfolding b'_def [symmetric] by (auto simp: config_ok_def b')
next
  case False
  with assms show ?thesis by (simp add: set_resource_err)
qed

lemma register_op_OK:
  "loxbudget_register_op b po = (LOXBUDGET_OK, b') \<longleftrightarrow>
     (\<exists>p. po = Some p \<and> b_magic b = LOXBUDGET_MAGIC_INIT \<and> p_op_id p < b_max_ops b \<and> p_priority p \<le> 3 \<and>
        profile_in_range p \<and> t_op_cfg b ! unat (p_op_id p) = 0 \<and>
        (b_hal_strict b \<noteq> 0 \<longrightarrow> \<not> strict_hal_missing b (p_flags p)) \<and>
        b' = b\<lparr>t_ops := (t_ops b)[unat (p_op_id p) := p],
              t_op_cfg := (t_op_cfg b)[unat (p_op_id p) := 1],
              t_needs := set_chunk LOXBUDGET_MAX_NEEDS_PER_OP (unat (p_op_id p))
                (replicate LOXBUDGET_MAX_NEEDS_PER_OP zero_need) (t_needs b)\<rparr>)"
  by (auto simp: loxbudget_register_op_def split: option.splits)

lemma register_op_err:
  "fst (loxbudget_register_op b po) \<noteq> LOXBUDGET_OK \<Longrightarrow> snd (loxbudget_register_op b po) = b"
  by (auto simp: loxbudget_register_op_def split: option.splits)

lemma register_op_shape:
  assumes "lb_shape B b"
  shows "lb_shape B (snd (loxbudget_register_op b po))"
proof (cases "fst (loxbudget_register_op b po) = LOXBUDGET_OK")
  case True
  then have "loxbudget_register_op b po = (LOXBUDGET_OK, snd (loxbudget_register_op b po))"
    by (simp add: prod_eq_iff)
  then obtain p where p: "p_op_id p < b_max_ops b"
    and b': "snd (loxbudget_register_op b po) = b\<lparr>t_ops := (t_ops b)[unat (p_op_id p) := p],
              t_op_cfg := (t_op_cfg b)[unat (p_op_id p) := 1],
              t_needs := set_chunk LOXBUDGET_MAX_NEEDS_PER_OP (unat (p_op_id p))
                (replicate LOXBUDGET_MAX_NEEDS_PER_OP zero_need) (t_needs b)\<rparr>"
    by (auto simp: register_op_OK)
  have "size_shape b" using assms by (simp add: lb_shape_def)
  with assms p show ?thesis
    unfolding b' by (intro shape_config_update(1)) (simp_all only: length_needs_set_chunk length_list_update length_replicate)
next
  case False
  with assms show ?thesis by (simp add: register_op_err)
qed

lemma need_keys_zero [simp]: "need_keys (replicate k zero_need) = []" "need_map (replicate k zero_need) = Map.empty"
  by (induction k) (auto simp: live_def zero_need_def)

lemma strict_hal_missing_cong:
  "b_hal_cb c = b_hal_cb b \<Longrightarrow> strict_hal_missing c f = strict_hal_missing b f"
  by (simp add: strict_hal_missing_def hal_member_def)

lemma register_op_config:
  assumes "size_shape b" "config_ok b"
  shows "config_ok (snd (loxbudget_register_op b po))"
proof (cases "fst (loxbudget_register_op b po) = LOXBUDGET_OK")
  case True
  define b' where "b' = snd (loxbudget_register_op b po)"
  from True have "loxbudget_register_op b po = (LOXBUDGET_OK, b')"
    by (simp add: b'_def prod_eq_iff)
  then obtain p where p: "p_op_id p < b_max_ops b" "profile_in_range p"
      "b_hal_strict b \<noteq> 0 \<longrightarrow> \<not> strict_hal_missing b (p_flags p)"
    and b': "b' = b\<lparr>t_ops := (t_ops b)[unat (p_op_id p) := p],
              t_op_cfg := (t_op_cfg b)[unat (p_op_id p) := 1],
              t_needs := set_chunk LOXBUDGET_MAX_NEEDS_PER_OP (unat (p_op_id p))
                (replicate LOXBUDGET_MAX_NEEDS_PER_OP zero_need) (t_needs b)\<rparr>"
    by (auto simp: register_op_OK)
  have n: "op_needs b' op = (if op = p_op_id p then replicate LOXBUDGET_MAX_NEEDS_PER_OP zero_need
      else op_needs b op)" if "op < b_max_ops b" for op
    using op_needs_set [OF assms(1) p(1) that, of "replicate LOXBUDGET_MAX_NEEDS_PER_OP zero_need"]
    by (simp add: b' op_needs_def)
  have i: "unat (p_op_id p) < length (t_ops b)" "unat (p_op_id p) < length (t_op_cfg b)"
    using p(1) size_shape_lengths [OF assms(1)] by (auto simp: word_less_nat_alt)
  have strict: "strict_hal_missing b' f = strict_hal_missing b f" for f
    by (rule strict_hal_missing_cong) (simp add: b')
  have "op_config_ok b' op" if op: "op < b_max_ops b" for op
  proof (cases "op = p_op_id p")
    case True
    with i p n [OF op] show ?thesis
      unfolding op_config_ok_def strict by (simp add: b')
  next
    case False
    then have "unat (p_op_id p) \<noteq> unat op" by (auto simp: word_unat_eq_iff)
    with False n [OF op] op assms(2) show ?thesis
      unfolding config_ok_def op_config_ok_def strict by (simp add: b')
  qed
  moreover have "res_config_ok b' r = res_config_ok b r" for r
    by (simp add: res_config_ok_def b')
  ultimately show ?thesis
    using assms(2) unfolding b'_def [symmetric] by (auto simp: config_ok_def b')
next
  case False
  with assms show ?thesis by (simp add: register_op_err)
qed

lemma op_set_need_OK:
  "loxbudget_op_set_need b op r a = (LOXBUDGET_OK, b') \<longleftrightarrow>
     b_magic b = LOXBUDGET_MAGIC_INIT \<and> op < b_max_ops b \<and> r < b_max_resources b \<and> a \<noteq> 0 \<and>
     t_op_cfg b ! unat op \<noteq> 0 \<and> t_res_cfg b ! unat r \<noteq> 0 \<and>
     (\<exists>xs. need_insert r a (op_needs b op) = Some xs \<and>
        b' = b\<lparr>t_needs := set_chunk LOXBUDGET_MAX_NEEDS_PER_OP (unat op) xs (t_needs b)\<rparr>)"
  by (auto simp: loxbudget_op_set_need_def split: option.splits)

lemma op_set_need_err:
  "fst (loxbudget_op_set_need b op r a) \<noteq> LOXBUDGET_OK \<Longrightarrow> snd (loxbudget_op_set_need b op r a) = b"
  by (auto simp: loxbudget_op_set_need_def split: option.splits)

lemma need_insert_length: "need_insert r a xs = Some ys \<Longrightarrow> length ys = length xs"
  by (auto simp: need_insert_def split: option.splits)

lemma op_set_need_shape:
  assumes "lb_shape B b"
  shows "lb_shape B (snd (loxbudget_op_set_need b op r a))"
proof (cases "fst (loxbudget_op_set_need b op r a) = LOXBUDGET_OK")
  case True
  then have "loxbudget_op_set_need b op r a = (LOXBUDGET_OK, snd (loxbudget_op_set_need b op r a))"
    by (simp add: prod_eq_iff)
  then obtain xs where x: "op < b_max_ops b" "need_insert r a (op_needs b op) = Some xs"
    and b': "snd (loxbudget_op_set_need b op r a) =
      b\<lparr>t_needs := set_chunk LOXBUDGET_MAX_NEEDS_PER_OP (unat op) xs (t_needs b)\<rparr>"
    by (auto simp: op_set_need_OK)
  have s: "size_shape b" using assms by (simp add: lb_shape_def)
  have "length xs = LOXBUDGET_MAX_NEEDS_PER_OP"
    using need_insert_length [OF x(2)] length_op_needs [OF s x(1)] by simp
  with assms s x(1) show ?thesis
    unfolding b' by (intro shape_config_update(2)) (auto simp: length_needs_set_chunk)
next
  case False
  with assms show ?thesis by (simp add: op_set_need_err)
qed

text \<open>The effect of a successful call on the needs, as maps.\<close>

lemma op_set_need_effect:
  assumes "size_shape b" "config_ok b" "loxbudget_op_set_need b op r a = (LOXBUDGET_OK, b')"
  shows "need_map (op_needs b' op) = (need_map (op_needs b op))(r \<mapsto> a)"
    and "set (need_keys (op_needs b' op)) = insert r (set (need_keys (op_needs b op)))"
    and "distinct (need_keys (op_needs b' op))"
    and "\<And>op'. op' < b_max_ops b \<Longrightarrow> op' \<noteq> op \<Longrightarrow> op_needs b' op' = op_needs b op'"
    and "\<exists>ns. b' = b\<lparr>t_needs := ns\<rparr>"
proof -
  obtain xs where c: "op < b_max_ops b" "a \<noteq> 0" "need_insert r a (op_needs b op) = Some xs"
    and b': "b' = b\<lparr>t_needs := set_chunk LOXBUDGET_MAX_NEEDS_PER_OP (unat op) xs (t_needs b)\<rparr>"
    using assms(3) by (auto simp: op_set_need_OK)
  have d: "distinct (need_keys (op_needs b op))"
    using assms(2) c(1) by (simp add: config_ok_def op_config_ok_def)
  have l: "length xs = LOXBUDGET_MAX_NEEDS_PER_OP"
    using need_insert_length [OF c(3)] length_op_needs [OF assms(1) c(1)] by simp
  have n: "op_needs b' op' = (if op' = op then xs else op_needs b op')" if "op' < b_max_ops b" for op'
    using op_needs_set [OF assms(1) c(1) that l] by (simp add: b' op_needs_def)
  note i = need_insert_Some [OF c(3) d c(2)]
  show "need_map (op_needs b' op) = (need_map (op_needs b op))(r \<mapsto> a)"
    and "set (need_keys (op_needs b' op)) = insert r (set (need_keys (op_needs b op)))"
    and "distinct (need_keys (op_needs b' op))"
    using i n [OF c(1)] by auto
  show "op_needs b' op' = op_needs b op'" if "op' < b_max_ops b" "op' \<noteq> op" for op'
    using n [OF that(1)] that(2) by simp
  show "\<exists>ns. b' = b\<lparr>t_needs := ns\<rparr>"
    unfolding b' by blast
qed

lemma op_set_need_config:
  assumes "size_shape b" "config_ok b"
  shows "config_ok (snd (loxbudget_op_set_need b op r a))"
proof (cases "fst (loxbudget_op_set_need b op r a) = LOXBUDGET_OK")
  case True
  define b' where "b' = snd (loxbudget_op_set_need b op r a)"
  have st: "loxbudget_op_set_need b op r a = (LOXBUDGET_OK, b')"
    using True by (simp add: b'_def prod_eq_iff)
  note eff = op_set_need_effect [OF assms st]
  have c: "op < b_max_ops b" "r < b_max_resources b" "t_op_cfg b ! unat op \<noteq> 0" "t_res_cfg b ! unat r \<noteq> 0"
    using st by (auto simp: op_set_need_OK)
  have same: "t_res_cfg b' = t_res_cfg b" "t_op_cfg b' = t_op_cfg b" "t_ops b' = t_ops b"
    "b_max_resources b' = b_max_resources b" "b_max_ops b' = b_max_ops b" "b_hal_cb b' = b_hal_cb b"
    "b_hal_strict b' = b_hal_strict b" "t_resources b' = t_resources b"
    using eff(5) by auto
  have "op_config_ok b' o'" if o': "o' < b_max_ops b" for o'
  proof (cases "o' = op")
    case True
    have "op_config_ok b op" using assms(2) c(1) by (simp add: config_ok_def)
    with True c eff(2,3) show ?thesis
      by (auto simp: op_config_ok_def same strict_hal_missing_cong [OF same(6)])
  next
    case False
    with assms(2) o' eff(4) [OF o'] show ?thesis
      by (simp add: config_ok_def op_config_ok_def same strict_hal_missing_cong [OF same(6)])
  qed
  moreover have "res_config_ok b' q = res_config_ok b q" for q
    by (simp add: res_config_ok_def same)
  ultimately show ?thesis
    using assms(2) unfolding b'_def [symmetric] by (auto simp: config_ok_def same)
next
  case False
  with assms show ?thesis by (simp add: op_set_need_err)
qed

text \<open>Initialisation leaves nothing configured.\<close>

lemma chunk_replicate: "set (chunk n k (replicate m x)) \<subseteq> {x}"
  by (auto simp: chunk_def dest: in_set_takeD in_set_dropD)

lemma no_live_keys: "\<forall>n\<in>set xs. \<not> live n \<Longrightarrow> need_keys xs = []"
  by (simp add: need_keys_def)

lemma config_ok_blank:
  assumes "size_shape b" "set (t_res_cfg b) = {0}" "set (t_op_cfg b) = {0}" "set (t_needs b) \<subseteq> {zero_need}"
  shows "config_ok b"
proof -
  have cfg: "t_op_cfg b ! i = 0" if "i < LOXBUDGET_MAX_OPS" for i
    using that assms nth_mem [of i "t_op_cfg b"] by (simp add: size_shape_lengths)
  have rcfg: "t_res_cfg b ! i = 0" if "i < LOXBUDGET_MAX_RESOURCES" for i
    using that assms nth_mem [of i "t_res_cfg b"] by (simp add: size_shape_lengths)
  have "need_keys (op_needs b op) = []" for op
    using assms(4)
    by (intro no_live_keys) (auto simp: op_needs_def chunk_def live_def zero_need_def dest!: in_set_takeD in_set_dropD)
  moreover have "t_op_cfg b ! unat op = 0" if "op < b_max_ops b" for op
    using that size_shape_lengths(8) [OF assms(1)] by (intro cfg) (simp add: word_less_nat_alt)
  moreover have "t_res_cfg b ! unat r = 0" if "r < b_max_resources b" for r
    using that size_shape_lengths(7) [OF assms(1)] by (intro rcfg) (simp add: word_less_nat_alt)
  ultimately show ?thesis
    by (simp add: config_ok_def op_config_ok_def res_config_ok_def)
qed

lemma init_config:
  assumes "loxbudget_init B P ba sa n cfg b0 e = (LOXBUDGET_OK, b, e')"
  shows "config_ok b"
proof -
  have "size_shape b" using init_shape [OF assms] by (simp add: lb_shape_def)
  with assms show ?thesis
    by (elim init_OK_D) (rule config_ok_blank, auto)
qed

section \<open>An example instance\<close>

text \<open>
  Two resources, a reusable one of 100 units and a consumable one of 50, three operations
  (0 and 1 with the default profile, 2 reserved for pressure tests by its flags) and an
  audit ring of four entries. Witnesses of later theories start from it.
\<close>

definition sample_config :: loxbudget_config where
  "sample_config = (loxbudget_config_simple 2 3)\<lparr>cfg_audit_size := 4\<rparr>"

definition sample_blank :: loxbudget where
  "sample_blank = init_tables fixed_build (init_struct fixed_build 8192 sample_config)"

definition sample_ops :: loxbudget where
  "sample_ops =
     (let b = snd (loxbudget_set_resource sample_blank 0 100 0);
          b = snd (loxbudget_set_resource b 1 50 1);
          b = snd (loxbudget_register_op b (Some (loxbudget_op_profile_default 0)))
      in snd (loxbudget_register_op b (Some (loxbudget_op_profile_default 1))))"

lemma sample_blank_ok: "lb_shape fixed_build sample_blank" "config_ok sample_blank"
proof -
  have v: "loxbudget_validate_init_args 4 4 8192 (Some sample_config) = LOXBUDGET_OK"
    by (simp add: valid_args_cfg sample_config_def loxbudget_config_simple_def loxbudget_is_aligned_u32_def
        loxbudget_is_pow2_or_zero_u8_def)
  have "sample_blank = sample_blank\<lparr>b_lease_magic_base := b_lease_magic_base sample_blank\<rparr>" by simp
  then show s: "lb_shape fixed_build sample_blank"
    using init_tables_shape [OF v] unfolding sample_blank_def by metis
  then have "size_shape sample_blank" by (simp add: lb_shape_def)
  then show "config_ok sample_blank"
    by (rule config_ok_blank) (simp_all add: sample_blank_def sample_config_def loxbudget_config_simple_def)
qed

lemma sample_ops_ok: "lb_shape fixed_build sample_ops" "config_ok sample_ops"
  unfolding sample_ops_def Let_def
  by (intro register_op_shape set_resource_shape register_op_config set_resource_config
        sample_blank_ok lb_shape_size [where B = fixed_build])+

lemma sample_ops_simps:
  "t_op_cfg sample_ops = [1, 1, 0, 0, 0, 0, 0, 0, 0, 0, 0, 0, 0, 0, 0, 0]"
  "t_res_cfg sample_ops = [1, 1, 0, 0, 0, 0, 0, 0]"
  "t_needs sample_ops = replicate 12 zero_need"
  "b_magic sample_ops = LOXBUDGET_MAGIC_INIT" "b_max_ops sample_ops = 3" "b_max_resources sample_ops = 2"
  by code_simp+

section \<open>Properties\<close>

text \<open>Declaring the needs of an operation, one call after the other; \<open>None\<close> once a call fails.\<close>

fun set_needs :: "loxbudget \<Rightarrow> u8 \<Rightarrow> (u8 \<times> u16) list \<Rightarrow> loxbudget option" where
  "set_needs b op [] = Some b"
| "set_needs b op ((r, a) # ps) =
     (case loxbudget_op_set_need b op r a of
        (LOXBUDGET_OK, b') \<Rightarrow> set_needs b' op ps
      | _ \<Rightarrow> None)"

definition can_declare :: "loxbudget \<Rightarrow> u8 \<Rightarrow> (u8 \<times> u16) list \<Rightarrow> bool" where
  "can_declare b op ps \<longleftrightarrow>
     b_magic b = LOXBUDGET_MAGIC_INIT \<and> op < b_max_ops b \<and> t_op_cfg b ! unat op \<noteq> 0 \<and>
     (\<forall>(r, a)\<in>set ps. r < b_max_resources b \<and> t_res_cfg b ! unat r \<noteq> 0 \<and> a \<noteq> 0)"

text \<open>The calls are insertions into the bounded map of the operation's needs.\<close>

lemma set_needs_ins_all:
  assumes "size_shape b" "config_ok b" "can_declare b op ps"
  shows "map_option (\<lambda>b'. op_needs b' op) (set_needs b op ps) = needs.ins_all ps (op_needs b op)"
  using assms
proof (induction ps arbitrary: b)
  case Nil
  then show ?case by simp
next
  case (Cons p ps)
  obtain r a where p: "p = (r, a)" by (cases p)
  have c: "op < b_max_ops b" "r < b_max_resources b" "t_op_cfg b ! unat op \<noteq> 0"
    "t_res_cfg b ! unat r \<noteq> 0" "a \<noteq> 0" "b_magic b = LOXBUDGET_MAGIC_INIT"
    using Cons.prems(3) by (auto simp: can_declare_def p)
  show ?case
  proof (cases "need_insert r a (op_needs b op)")
    case None
    with c show ?thesis by (simp add: p loxbudget_op_set_need_def)
  next
    case (Some xs)
    define b' where "b' = b\<lparr>t_needs := set_chunk LOXBUDGET_MAX_NEEDS_PER_OP (unat op) xs (t_needs b)\<rparr>"
    have st: "loxbudget_op_set_need b op r a = (LOXBUDGET_OK, b')"
      using c Some by (simp add: op_set_need_OK b'_def)
    have l: "length xs = LOXBUDGET_MAX_NEEDS_PER_OP"
      using need_insert_length [OF Some] length_op_needs [OF Cons.prems(1) c(1)] by simp
    have n: "op_needs b' op = xs"
      using op_needs_set [OF Cons.prems(1) c(1) c(1) l] by (simp add: b'_def op_needs_def)
    have "size_shape b'"
      using Cons.prems(1) length_needs_set_chunk [OF Cons.prems(1) c(1) l] by (simp add: b'_def size_shape_def)
    moreover have "config_ok b'"
      using op_set_need_config [OF Cons.prems(1,2), of op r a] st by simp
    moreover have "can_declare b' op ps"
      using Cons.prems(3) by (auto simp: can_declare_def b'_def)
    ultimately have "map_option (\<lambda>b'. op_needs b' op) (set_needs b' op ps) = needs.ins_all ps xs"
      using Cons.IH [of b'] n by simp
    then show ?thesis by (simp add: p st Some)
  qed
qed

text \<open>
  C21. Needs of an operation: a series of \<open>loxbudget_op_set_need\<close> calls with valid arguments on a
  freshly registered operation succeeds exactly when it names at most four different
  resources, and then the operation needs of each resource the amount named last, and
  nothing of any other resource.
\<close>

theorem op_set_need_series:
  assumes "size_shape b" and "config_ok b" and "can_declare b op ps"
    and "need_keys (op_needs b op) = []"
  shows "case set_needs b op ps of
           None \<Rightarrow> LOXBUDGET_MAX_NEEDS_PER_OP < card (fst ` set ps)
         | Some b' \<Rightarrow> card (fst ` set ps) \<le> LOXBUDGET_MAX_NEEDS_PER_OP \<and>
             need_map (op_needs b' op) = map_of (rev ps)"
proof -
  have good: "\<forall>(k, v)\<in>set ps. v \<noteq> 0" and op: "op < b_max_ops b"
    using assms(3) by (auto simp: can_declare_def)
  have e: "need_map (op_needs b op) = Map.empty"
    using assms(4) dom_need_map [of "op_needs b op"] by simp
  have d: "distinct (need_keys (op_needs b op))" by (simp add: assms(4))
  note l = length_op_needs [OF assms(1) op]
  note bridge = set_needs_ins_all [OF assms(1-3)]
  show ?thesis
  proof (cases "set_needs b op ps")
    case None
    with needs.ins_all_None [OF d good] bridge show ?thesis by (simp add: e l)
  next
    case (Some b')
    with bridge have i: "needs.ins_all ps (op_needs b op) = Some (op_needs b' op)" by simp
    then have "card (fst ` set ps) \<le> LOXBUDGET_MAX_NEEDS_PER_OP"
      using needs.ins_all_None [OF d good] by (simp add: e l not_less)
    with needs.ins_all_Some [OF d good i] Some show ?thesis by (simp add: e)
  qed
qed

theorem op_set_need_series_witness:
  "\<exists>b'. set_needs sample_ops 0 [(0, 5), (1, 2), (0, 7)] = Some b' \<and>
     need_map (op_needs b' 0) = [0 \<mapsto> 7, 1 \<mapsto> 2]"
proof -
  have "case set_needs sample_ops 0 [(0, 5), (1, 2), (0, 7)] of
          None \<Rightarrow> 4 < card (fst ` set [(0 :: u8, 5 :: u16), (1, 2), (0, 7)])
        | Some b' \<Rightarrow> card (fst ` set [(0 :: u8, 5 :: u16), (1, 2), (0, 7)]) \<le> 4 \<and>
            need_map (op_needs b' 0) = map_of (rev [(0, 5), (1, 2), (0, 7)])"
    using sample_ops_ok
    by (intro op_set_need_series)
       (simp_all add: lb_shape_size can_declare_def sample_ops_simps op_needs_def chunk_def)
  then show ?thesis
    by (auto simp del: set_needs.simps simp add: card_insert_if split: option.splits)
qed

end
