(* ===== verification/LB_Rate_Api.thy ===== *)
theory LB_Rate_Api
  imports LB_Config
begin

text \<open>
  The API functions on rate windows and lifetime limits (\<open>src/loxbudget_core.c\<close>):
  installing a limit, the lifetime limit, and the burn-rate report. They exist only
  when \<open>rate_on\<close> holds.
\<close>

section \<open>Definitions\<close>

text \<open>\<open>&lb__rate_state_(budget)[res].windows[wi]\<close>, read and updated in place.\<close>

definition window_at :: "loxbudget \<Rightarrow> u8 \<Rightarrow> nat \<Rightarrow> rate_window" where
  "window_at b res wi = rs_windows (t_rate b ! unat res) ! wi"

definition upd_window :: "u8 \<Rightarrow> nat \<Rightarrow> (rate_window \<Rightarrow> rate_window) \<Rightarrow> loxbudget \<Rightarrow> loxbudget" where
  "upd_window res wi f b =
     b\<lparr>t_rate := upd_at (unat res) (\<lambda>rs. rs\<lparr>rs_windows := upd_at wi f (rs_windows rs)\<rparr>) (t_rate b)\<rparr>"

definition loxbudget_set_rate_limit ::
    "build \<Rightarrow> 'e platform \<Rightarrow> loxbudget \<Rightarrow> u8 \<Rightarrow> c_enum \<Rightarrow> u32 \<Rightarrow> 'e \<Rightarrow> loxbudget_status \<times> loxbudget \<times> 'e" where
  "loxbudget_set_rate_limit B P b res window limit e =
     (let st = loxbudget_validate_budget (Some b) in
      if st \<noteq> LOXBUDGET_OK then (st, b, e)
      else if res \<ge> b_max_resources b then (LOXBUDGET_ERR_INVALID_ARG, b, e)
      else if window > 3 then (LOXBUDGET_ERR_INVALID_ARG, b, e)
      else if t_res_cfg b ! unat res = 0 then (LOXBUDGET_ERR_NOT_FOUND, b, e)
      else if kind_of_u8 (r_kind (t_resources b ! unat res)) \<noteq> LOXBUDGET_RES_CONSUMABLE
      then (LOXBUDGET_ERR_INVALID_ARG, b, e)
      else let dur = lb__window_duration_ms window in
        if dur = 0 then (LOXBUDGET_ERR_INVALID_ARG, b, e)
        else let (now, e') = loxbudget_hal_now_ms' P b e in
          (LOXBUDGET_OK,
           upd_window res (unat (ucast window :: u8))
             (\<lambda>w. w\<lparr>w_window_duration_ms := dur, w_window_start_ms := now, w_limit := limit,
                 w_consumed := (if token_bucket B then ucast (push_bit 16 (ucast limit :: u64)) else 0)\<rparr>) b,
           e'))"

definition loxbudget_set_lifetime_limit :: "loxbudget \<Rightarrow> u8 \<Rightarrow> u32 \<Rightarrow> loxbudget_status \<times> loxbudget" where
  "loxbudget_set_lifetime_limit b res lifetime_max =
     (let st = loxbudget_validate_budget (Some b) in
      if st \<noteq> LOXBUDGET_OK then (st, b)
      else if res \<ge> b_max_resources b then (LOXBUDGET_ERR_INVALID_ARG, b)
      else if t_res_cfg b ! unat res = 0 then (LOXBUDGET_ERR_NOT_FOUND, b)
      else if kind_of_u8 (r_kind (t_resources b ! unat res)) \<noteq> LOXBUDGET_RES_CONSUMABLE
      then (LOXBUDGET_ERR_INVALID_ARG, b)
      else (LOXBUDGET_OK,
        b\<lparr>t_rate := upd_at (unat res) (\<lambda>rs. rs\<lparr>rs_limit_lifetime := lifetime_max\<rparr>) (t_rate b)\<rparr>))"

text \<open>\<open>out_ok\<close> says that the output pointer is not NULL.\<close>

definition loxbudget_get_burn_rate ::
    "build \<Rightarrow> loxbudget \<Rightarrow> u8 \<Rightarrow> bool \<Rightarrow> loxbudget_status \<times> loxbudget_burn_rate option" where
  "loxbudget_get_burn_rate B b res out_ok =
     (let st = loxbudget_validate_budget (Some b) in
      if st \<noteq> LOXBUDGET_OK \<or> \<not> out_ok
      then (if \<not> out_ok then LOXBUDGET_ERR_INVALID_ARG else st, None)
      else if res \<ge> b_max_resources b then (LOXBUDGET_ERR_INVALID_ARG, None)
      else if t_res_cfg b ! unat res = 0 then (LOXBUDGET_ERR_NOT_FOUND, None)
      else let rs = t_rate b ! unat res;
               out = \<lparr>br_per_minute = (if token_bucket B then 0 else w_consumed (rs_windows rs ! 1)),
                      br_per_hour = (if token_bucket B then 0 else w_consumed (rs_windows rs ! 2)),
                      br_estimated_exhaustion_ms = 0\<rparr>
        in if rs_limit_lifetime rs = 0 then (LOXBUDGET_OK, Some out)
           else if rs_consumed_lifetime rs \<ge> rs_limit_lifetime rs then (LOXBUDGET_OK, Some out)
           else if br_per_minute out = 0 then (LOXBUDGET_OK, Some out)
           else let remaining = rs_limit_lifetime rs - rs_consumed_lifetime rs;
                    num = ucast remaining * (60000 :: u64)
             in (LOXBUDGET_OK,
                 Some (out\<lparr>br_estimated_exhaustion_ms := ucast (num div ucast (br_per_minute out))\<rparr>)))"

section \<open>Shape and frame\<close>

text \<open>The operations of this theory change the rate table only.\<close>

definition only_rates :: "loxbudget \<Rightarrow> loxbudget \<Rightarrow> bool" where
  "only_rates b c \<longleftrightarrow> (\<exists>rt. c = b\<lparr>t_rate := rt\<rparr>)"

lemma only_rates_refl [simp]: "only_rates b b"
  unfolding only_rates_def by (rule exI [of _ "t_rate b"]) simp

lemma only_rates_upd [simp]: "only_rates b (b\<lparr>t_rate := rt\<rparr>)"
  unfolding only_rates_def by blast

lemma only_rates_trans: "only_rates a b \<Longrightarrow> only_rates b c \<Longrightarrow> only_rates a c"
  unfolding only_rates_def by auto

lemma only_rates_same_config: "only_rates b c \<Longrightarrow> same_config b c"
  by (auto simp: only_rates_def same_config_def)

lemma upd_window_frame [simp]: "only_rates b (upd_window r i f b)"
  by (simp add: upd_window_def)

definition rate_table_ok :: "rate_state list \<Rightarrow> bool" where
  "rate_table_ok rt \<longleftrightarrow> list_all (\<lambda>r. length (rs_windows r) = 4) rt"

lemma shape_rates:
  "lb_shape B b \<Longrightarrow> length rt = length (t_rate b) \<Longrightarrow> rate_table_ok rt \<Longrightarrow> lb_shape B (b\<lparr>t_rate := rt\<rparr>)"
  by (simp add: lb_shape_def size_shape_def audit_shape_def feature_shape_def rate_table_ok_def)

lemma shape_rate_table: "lb_shape B b \<Longrightarrow> rate_table_ok (t_rate b)"
  by (simp add: lb_shape_def feature_shape_def rate_table_ok_def)

lemma upd_window_shape: "lb_shape B b \<Longrightarrow> lb_shape B (upd_window r i f b)"
  unfolding upd_window_def
  by (rule shape_rates) (auto simp: rate_table_ok_def list_all_length nth_upd_at dest!: shape_rate_table)

lemma set_rate_limit_frame: "only_rates b (fst (snd (loxbudget_set_rate_limit B P b r w l e)))"
  by (auto simp: loxbudget_set_rate_limit_def Let_def split: prod.splits)

lemma set_rate_limit_shape:
  "lb_shape B b \<Longrightarrow> lb_shape B (fst (snd (loxbudget_set_rate_limit C P b r w l e)))"
  by (auto simp: loxbudget_set_rate_limit_def Let_def upd_window_shape split: prod.splits)

lemma set_lifetime_limit_frame: "only_rates b (snd (loxbudget_set_lifetime_limit b r l))"
  by (auto simp: loxbudget_set_lifetime_limit_def Let_def)

lemma set_lifetime_limit_shape:
  assumes "lb_shape B b"
  shows "lb_shape B (snd (loxbudget_set_lifetime_limit b r l))"
  using assms shape_rate_table [OF assms]
  by (auto simp: loxbudget_set_lifetime_limit_def Let_def rate_table_ok_def list_all_length nth_upd_at
      intro!: shape_rates)

section \<open>What is installed\<close>

lemma set_rate_limit_OK:
  assumes "lb_shape B b" "rate_on B" "loxbudget_set_rate_limit B P b r window l e = (LOXBUDGET_OK, b', e')"
  shows "unat window < 4" "r < b_max_resources b"
    and "window_at b' r (unat window) =
      \<lparr>w_window_start_ms = fst (loxbudget_hal_now_ms' P b e),
       w_window_duration_ms = lb__window_duration_ms window,
       w_consumed = (if token_bucket B then ucast (push_bit 16 (ucast l :: u64)) else 0), w_limit = l\<rparr>"
    and "\<And>q i. q < b_max_resources b \<Longrightarrow> (q, i) \<noteq> (r, unat window) \<Longrightarrow> window_at b' q i = window_at b q i"
    and "lb__window_duration_ms window \<noteq> 0"
proof -
  let ?f = "\<lambda>w. w\<lparr>w_window_duration_ms := lb__window_duration_ms window,
      w_window_start_ms := fst (loxbudget_hal_now_ms' P b e), w_limit := l,
      w_consumed := (if token_bucket B then ucast (push_bit 16 (ucast l :: u64)) else 0)\<rparr>"
  show w: "unat window < 4" and r: "r < b_max_resources b" and d: "lb__window_duration_ms window \<noteq> 0"
    using assms(3)
    by (auto simp: loxbudget_set_rate_limit_def Let_def word_less_nat_alt not_le split: if_splits prod.splits)
  have i: "unat (ucast window :: u8) = unat window"
    using w by (simp add: unat_ucast_mod)
  have b': "b' = upd_window r (unat window) ?f b"
    using assms(3) i
    by (auto simp: loxbudget_set_rate_limit_def Let_def split: if_splits prod.splits)
  have len: "length (t_rate b) = unat (b_max_resources b)"
    using assms(1,2) by (simp add: lb_shape_def feature_shape_def)
  then have rl: "unat r < length (t_rate b)"
    using r by (simp add: word_less_nat_alt)
  have four: "length (rs_windows (t_rate b ! j)) = 4" if "j < length (t_rate b)" for j
    using shape_rate_table [OF assms(1)] that by (simp add: rate_table_ok_def list_all_length)
  show "window_at b' r (unat window) =
      \<lparr>w_window_start_ms = fst (loxbudget_hal_now_ms' P b e),
       w_window_duration_ms = lb__window_duration_ms window,
       w_consumed = (if token_bucket B then ucast (push_bit 16 (ucast l :: u64)) else 0), w_limit = l\<rparr>"
    using rl four [OF rl] w by (simp add: b' window_at_def upd_window_def)
  show "window_at b' q i = window_at b q i" if "q < b_max_resources b" "(q, i) \<noteq> (r, unat window)" for q i
  proof (cases "q = r")
    case True
    with that rl show ?thesis by (simp add: b' window_at_def upd_window_def)
  next
    case False
    then have "unat q \<noteq> unat r" by (simp add: word_unat_eq_iff)
    then show ?thesis by (simp add: b' window_at_def upd_window_def)
  qed
qed

section \<open>Properties\<close>

text \<open>
  A limit that \<open>loxbudget_set_rate_limit\<close> accepts with the fixed-window implementation is the
  most that is admitted from then until the window's duration has passed, whatever was
  consumed before the call; the other windows stay as they were.
\<close>

theorem set_rate_limit_enforced:
  assumes "lb_shape B b" and "rate_on B" and "\<not> token_bucket B" and "l \<noteq> 0"
    and "loxbudget_set_rate_limit B P b r window l e = (LOXBUDGET_OK, b', e')"
    and "\<forall>(now, a)\<in>set rs. now - fst (loxbudget_hal_now_ms' P b e) < lb__window_duration_ms window"
  shows "snd (serve B (window_at b' r (unat window)) rs) \<le> unat l \<and>
    (\<forall>q i. q < b_max_resources b \<longrightarrow> (q, i) \<noteq> (r, unat window) \<longrightarrow> window_at b' q i = window_at b q i)"
proof -
  note ok = set_rate_limit_OK [OF assms(1,2,5)]
  have "window_ok (window_at b' r (unat window))"
    using assms(3,4) ok(5) by (simp add: ok(3) window_ok_def window_off_def)
  then have "snd (serve fixed_build (window_at b' r (unat window)) rs) \<le> unat l"
    using serve_fixed_bound [of "window_at b' r (unat window)" rs] assms(3,6) by (simp add: ok(3))
  moreover have "serve B (window_at b' r (unat window)) rs = serve fixed_build (window_at b' r (unat window)) rs"
    using assms(3) by (intro serve_cong) (simp add: fixed_build_def)
  ultimately show ?thesis using ok(4) by auto
qed

theorem set_rate_limit_enforced_witness:
  "\<exists>b'. loxbudget_set_rate_limit fixed_build (host_platform (\<lambda>_ _ _ _ _ e. e)) sample_ops 1 0 10 () =
      (LOXBUDGET_OK, b', ()) \<and>
    snd (serve fixed_build (window_at b' 1 0) [(1, 7), (20, 8), (999, 3)]) \<le> 10"
proof -
  let ?P = "host_platform (\<lambda>_ _ _ _ _ e. e) :: unit platform"
  have k: "r_kind (t_resources sample_ops ! 1) = 1" by code_simp
  have t: "fst (loxbudget_hal_now_ms' (host_platform h) sample_ops ()) = 0" for h
    by (simp add: hal_wrapper_defs host_platform_def hal_c_defs)
  have "fst (loxbudget_set_rate_limit fixed_build ?P sample_ops 1 0 10 ()) = LOXBUDGET_OK"
    using k by (simp add: loxbudget_set_rate_limit_def Let_def sample_ops_simps lb__window_duration_ms_def
        word_le_nat_alt split: prod.splits)
  then obtain b' where b': "loxbudget_set_rate_limit fixed_build ?P sample_ops 1 0 10 () = (LOXBUDGET_OK, b', ())"
    by (cases "loxbudget_set_rate_limit fixed_build ?P sample_ops 1 0 10 ()") simp
  have "snd (serve fixed_build (window_at b' 1 (unat (0 :: u32))) [(1, 7), (20, 8), (999, 3)]) \<le> unat (10 :: u32)"
    by (rule set_rate_limit_enforced [OF sample_ops_ok(1) _ _ _ b', THEN conjunct1])
       (simp_all add: fixed_build_def t lb__window_duration_ms_def)
  with b' show ?thesis by auto
qed

text \<open>
  With the token-bucket implementation a limit of exactly 65536 admits nothing at all: the
  capacity \<open>limit << 16\<close> is cut to 32 bits, so the bucket is empty after the call and empty
  again whenever a full window has passed since.
\<close>

theorem token_bucket_limit_65536_blocks:
  assumes "lb_shape B b" and "rate_on B" and "token_bucket B"
    and "loxbudget_set_rate_limit B P b r window 65536 e = (LOXBUDGET_OK, b', e')"
    and "a \<noteq> 0"
    and "now = fst (loxbudget_hal_now_ms' P b e) \<or>
         lb__window_duration_ms window \<le> now - fst (loxbudget_hal_now_ms' P b e)"
  shows "\<not> snd (lb__rate_roll_and_check B (window_at b' r (unat window)) now a)"
proof -
  let ?w = "window_at b' r (unat window)" and ?d = "lb__window_duration_ms window"
  let ?t0 = "fst (loxbudget_hal_now_ms' P b e)"
  let ?add = "(4294967296 :: u64) * ucast (now - ?t0) div ucast ?d"
  note ok = set_rate_limit_OK [OF assms(1,2,4)]
  have w: "w_limit ?w = 65536" "w_consumed ?w = 0" "w_window_start_ms ?w = ?t0"
    "w_window_duration_ms ?w = ?d"
    using assms(3) by (simp_all add: ok(3) push_bit_eq_mult)
  have off: "\<not> window_off ?w" using ok(5) by (simp add: window_off_def w)
  have d: "0 < unat ?d" using ok(5) by (simp add: unat_gt_0)
  have "w_consumed (token_refill ?w now) = 0"
  proof (cases "now = ?t0")
    case True
    then show ?thesis by (simp add: token_refill_def w)
  next
    case False
    with assms(6) have dt: "unat ?d \<le> unat (now - ?t0)" by (simp add: word_le_nat_alt)
    have cap: "token_cap ?w = 4294967296" by (simp add: token_cap_def w push_bit_eq_mult)
    have "4294967296 * unat (now - ?t0) < 18446744073709551616"
      using unat_u32_bound [of "now - ?t0"] by simp
    then have m: "unat ((4294967296 :: u64) * ucast (now - ?t0)) = 4294967296 * unat (now - ?t0)"
      using unat_mult_lem [of "4294967296 :: u64" "ucast (now - ?t0)"] by simp
    have "4294967296 * unat ?d \<le> 4294967296 * unat (now - ?t0)" using dt by simp
    then have "4294967296 \<le> (4294967296 * unat (now - ?t0)) div unat ?d"
      using d by (simp add: less_eq_div_iff_mult_less_eq)
    then have "unat (4294967296 :: u64) \<le> unat (?add)"
      by (simp add: unat_div m)
    then have "(4294967296 :: u64) \<le> ?add"
      by (simp only: word_le_nat_alt)
    then have "(if ?add > 4294967296 then 4294967296 else ?add) = 4294967296"
      by auto
    with False show ?thesis
      by (simp add: token_refill_def Let_def w cap)
  qed
  moreover have "0 < unat a * 65536" using assms(5) by (simp add: unat_gt_0)
  ultimately show ?thesis
    using token_check [OF off assms(3)] by simp
qed

theorem token_bucket_limit_65536_blocks_witness:
  "\<exists>b'. loxbudget_set_rate_limit token_build (host_platform (\<lambda>_ _ _ _ _ e. e)) sample_ops 1 0 65536 () =
      (LOXBUDGET_OK, b', ()) \<and>
    \<not> snd (lb__rate_roll_and_check token_build (window_at b' 1 0) 1000 1)"
proof -
  let ?P = "host_platform (\<lambda>_ _ _ _ _ e. e) :: unit platform"
  have k: "r_kind (t_resources sample_ops ! 1) = 1" by code_simp
  have t: "fst (loxbudget_hal_now_ms' (host_platform h) sample_ops ()) = 0" for h
    by (simp add: hal_wrapper_defs host_platform_def hal_c_defs)
  have "fst (loxbudget_set_rate_limit token_build ?P sample_ops 1 0 65536 ()) = LOXBUDGET_OK"
    using k by (simp add: loxbudget_set_rate_limit_def Let_def sample_ops_simps lb__window_duration_ms_def
        word_le_nat_alt split: prod.splits)
  then obtain b' where b': "loxbudget_set_rate_limit token_build ?P sample_ops 1 0 65536 () = (LOXBUDGET_OK, b', ())"
    by (cases "loxbudget_set_rate_limit token_build ?P sample_ops 1 0 65536 ()") simp
  have s: "lb_shape token_build sample_ops"
    using sample_ops_ok(1) by (simp add: lb_shape_def feature_shape_def token_build_def)
  have "\<not> snd (lb__rate_roll_and_check token_build (window_at b' 1 (unat (0 :: u32))) 1000 1)"
    by (rule token_bucket_limit_65536_blocks [OF s _ _ b'])
       (simp_all add: token_build_def fixed_build_def t lb__window_duration_ms_def)
  with b' show ?thesis by auto
qed

text \<open>
  The burn-rate report: with the fixed window and a lifetime limit not yet reached, the estimate
  is the remaining lifetime divided by the consumption of the current minute, in
  milliseconds, reduced modulo 2^32; it is zero when nothing was consumed in the minute,
  when there is no lifetime limit, or when it is used up.
\<close>

theorem burn_rate_estimate:
  assumes "\<not> token_bucket B" and "loxbudget_get_burn_rate B b r True = (LOXBUDGET_OK, Some out)"
  shows "let rs = t_rate b ! unat r;
             rest = unat (rs_limit_lifetime rs) - unat (rs_consumed_lifetime rs);
             m = unat (w_consumed (window_at b r 1))
         in br_per_minute out = w_consumed (window_at b r 1) \<and>
            br_per_hour out = w_consumed (window_at b r 2) \<and>
            unat (br_estimated_exhaustion_ms out) = (rest * 60000 div m) mod 4294967296"
proof -
  define rs where "rs = t_rate b ! unat r"
  define m where "m = w_consumed (rs_windows rs ! 1)"
  let ?rest = "rs_limit_lifetime rs - rs_consumed_lifetime rs"
  have rest: "unat ?rest = unat (rs_limit_lifetime rs) - unat (rs_consumed_lifetime rs)"
    if "\<not> rs_limit_lifetime rs \<le> rs_consumed_lifetime rs"
    using that by (simp add: unat_sub)
  have "unat ?rest * 60000 < 18446744073709551616"
    using unat_u32_bound [of ?rest] by simp
  then have n: "unat (ucast ?rest * (60000 :: u64)) = unat ?rest * 60000"
    using unat_mult_lem [of "ucast ?rest :: u64" 60000] by simp
  have est: "unat (ucast (ucast ?rest * (60000 :: u64) div ucast m) :: u32) =
      (unat ?rest * 60000 div unat m) mod 4294967296"
    by (simp add: unat_ucast_mod unat_div n)
  have out: "br_per_minute out = m" "br_per_hour out = w_consumed (rs_windows rs ! 2)"
    using assms by (auto simp: loxbudget_get_burn_rate_def Let_def rs_def m_def split: if_splits)
  have "br_estimated_exhaustion_ms out =
      (if rs_limit_lifetime rs = 0 \<or> rs_limit_lifetime rs \<le> rs_consumed_lifetime rs \<or> m = 0 then 0
       else ucast (ucast ?rest * (60000 :: u64) div ucast m))"
    using assms by (auto simp: loxbudget_get_burn_rate_def Let_def rs_def m_def split: if_splits)
  then have "unat (br_estimated_exhaustion_ms out) =
      ((unat (rs_limit_lifetime rs) - unat (rs_consumed_lifetime rs)) * 60000 div unat m) mod 4294967296"
    using est rest by (auto simp: word_le_nat_alt)
  with out show ?thesis
    by (simp add: window_at_def Let_def m_def rs_def)
qed

theorem burn_rate_estimate_witness:
  "let b = sample_ops\<lparr>t_rate := [zero_rate, zero_rate\<lparr>rs_windows := [zero_window, zero_window\<lparr>w_consumed := 3\<rparr>,
              zero_window\<lparr>w_consumed := 9\<rparr>, zero_window], rs_consumed_lifetime := 40, rs_limit_lifetime := 100\<rparr>]\<rparr>
   in \<exists>out. loxbudget_get_burn_rate fixed_build b 1 True = (LOXBUDGET_OK, Some out) \<and>
        br_per_minute out = 3 \<and> br_per_hour out = 9 \<and> unat (br_estimated_exhaustion_ms out) = 1200000"
proof -
  define b where "b = sample_ops\<lparr>t_rate := [zero_rate, zero_rate\<lparr>rs_windows := [zero_window, zero_window\<lparr>w_consumed := 3\<rparr>,
      zero_window\<lparr>w_consumed := 9\<rparr>, zero_window], rs_consumed_lifetime := 40, rs_limit_lifetime := 100\<rparr>]\<rparr>"
  obtain out where out: "loxbudget_get_burn_rate fixed_build b 1 True = (LOXBUDGET_OK, Some out)"
    by (simp add: loxbudget_get_burn_rate_def Let_def b_def sample_ops_simps fixed_build_def word_le_nat_alt)
  have "\<not> token_bucket fixed_build" by (simp add: fixed_build_def)
  from burn_rate_estimate [OF this out] out show ?thesis
    unfolding b_def [symmetric] by (simp add: Let_def) (simp add: b_def window_at_def zero_window_def)
qed

end
