(* ===== verification/LB_Causality.thy ===== *)
theory LB_Causality
  imports LB_Config
begin

text \<open>
  Causality tracking (\<open>src/loxbudget_causality.c\<close>): the may-trigger graph between
  operations, its cycle check at registration time, and the walk that adds the scaled
  needs of triggered operations to the needs of a decision.

  Both walks use an explicit stack of 16 entries and a bitmap of visited operations in
  the storage buffer. The stack is a list with its top at the head. The loops take fuel;
  \<open>walk_fuel\<close> is enough because every round pops an entry and a round that pushes
  marks a new operation: 17 times the unmarked operations plus the stack height falls.
\<close>

section \<open>The bitmap of visited operations\<close>

definition lb__visit_clear :: "u8 list \<Rightarrow> u32 \<Rightarrow> u8 list" where
  "lb__visit_clear bits nbits =
     (let nbytes = unat ((nbits + 7) div 8) in replicate nbytes 0 @ drop nbytes bits)"

definition lb__visit_test :: "u8 list \<Rightarrow> u32 \<Rightarrow> bool" where
  "lb__visit_test bits bt \<longleftrightarrow>
     bits ! unat (drop_bit 3 bt) AND ucast (push_bit (unat (bt AND 7)) (1 :: u32)) \<noteq> 0"

definition lb__visit_set :: "u8 list \<Rightarrow> u32 \<Rightarrow> u8 list" where
  "lb__visit_set bits bt =
     upd_at (unat (drop_bit 3 bt)) (\<lambda>x. x OR ucast (push_bit (unat (bt AND 7)) (1 :: u32))) bits"

lemma byte_index: "unat (drop_bit 3 (bt :: u32)) = unat bt div 8"
  by (simp add: drop_bit_eq_div unat_div)

lemma bit_index: "unat (bt AND (7 :: u32)) = unat bt mod 8"
proof -
  have "unat bt AND 7 = take_bit 3 (unat bt)"
    by (simp add: take_bit_eq_mask mask_eq_exp_minus_1)
  then show ?thesis by (simp add: unsigned_and_eq take_bit_eq_mod)
qed

lemma mask_byte: "k < 8 \<Longrightarrow> ucast ((2 :: u32) ^ k) = (2 ^ k :: u8)"
  by (rule bit_word_eqI) (auto simp: bit_simps)

lemma visit_test_bit: "lb__visit_test v x \<longleftrightarrow> bit (v ! (unat x div 8)) (unat x mod 8)"
proof -
  have "lb__visit_test v x \<longleftrightarrow> v ! (unat x div 8) AND 2 ^ (unat x mod 8) \<noteq> 0"
    by (simp add: lb__visit_test_def byte_index bit_index mask_byte)
  then show ?thesis by (simp add: bit_iff_and_push_bit_not_eq_0)
qed

lemma visit_test_set:
  assumes "unat x div 8 < length v"
  shows "lb__visit_test (lb__visit_set v x) y \<longleftrightarrow> y = x \<or> lb__visit_test v y"
proof -
  have e: "unat y div 8 = unat x div 8 \<and> unat y mod 8 = unat x mod 8 \<longleftrightarrow> y = x"
    by (metis div_mult_mod_eq word_unat_eq_iff)
  have m: "bit ((2 :: u8) ^ (unat x mod 8)) k \<longleftrightarrow> k = unat x mod 8" for k
    by (auto simp: bit_simps)
  show ?thesis
  proof (cases "unat y div 8 = unat x div 8")
    case True
    then have "lb__visit_test (lb__visit_set v x) y \<longleftrightarrow>
        unat y mod 8 = unat x mod 8 \<or> bit (v ! (unat x div 8)) (unat y mod 8)"
      using assms
      by (auto simp: visit_test_bit lb__visit_set_def byte_index bit_index mask_byte m bit_or_iff)
    with True e show ?thesis by (auto simp: visit_test_bit)
  next
    case False
    then have "y \<noteq> x" by auto
    with False show ?thesis
      by (simp add: visit_test_bit lb__visit_set_def byte_index)
  qed
qed

text \<open>
  The contract of a visited set over a finite universe: nothing is in the empty set,
  adding an element adds exactly it. The number of missing elements then falls with
  every new element.
\<close>

locale visit_set =
  fixes inv :: "'v \<Rightarrow> bool"
    and univ :: "'k set"
    and test :: "'v \<Rightarrow> 'k \<Rightarrow> bool"
    and add :: "'v \<Rightarrow> 'k \<Rightarrow> 'v"
    and clear :: "'v \<Rightarrow> 'v"
  assumes finite_univ: "finite univ"
    and inv_add: "inv v \<Longrightarrow> inv (add v x)"
    and inv_clear: "inv v \<Longrightarrow> inv (clear v)"
    and test_add: "inv v \<Longrightarrow> x \<in> univ \<Longrightarrow> test (add v x) y \<longleftrightarrow> y = x \<or> test v y"
    and test_clear: "inv v \<Longrightarrow> x \<in> univ \<Longrightarrow> \<not> test (clear v) x"
begin

definition missing :: "'v \<Rightarrow> nat" where
  "missing v = card {x \<in> univ. \<not> test v x}"

lemma missing_le: "missing v \<le> card univ"
  unfolding missing_def by (rule card_mono) (auto simp: finite_univ)

lemma missing_add:
  assumes "inv v" "x \<in> univ" "\<not> test v x"
  shows "Suc (missing (add v x)) = missing v"
proof -
  have "{y \<in> univ. \<not> test v y} = insert x {y \<in> univ. \<not> test (add v x) y}"
    using assms test_add by auto
  moreover have "x \<notin> {y \<in> univ. \<not> test (add v x) y}"
    using assms test_add by auto
  ultimately show ?thesis
    using finite_univ by (simp add: missing_def)
qed

end

text \<open>The bitmap of an instance with \<open>n\<close> operations; operation ids are bytes.\<close>

definition ops_below :: "u8 \<Rightarrow> u8 set" where
  "ops_below n = {x. x < n}"

interpretation bitmap: visit_set "\<lambda>v. length v = (unat n + 7) div 8" "ops_below n"
  "\<lambda>v x. lb__visit_test v (ucast x)" "\<lambda>v x. lb__visit_set v (ucast x)" "\<lambda>v. lb__visit_clear v (ucast n)"
  for n :: u8
proof unfold_locales
  show "finite (ops_below n)" by simp
  show "length (lb__visit_set v (ucast x)) = (unat n + 7) div 8"
    if "length v = (unat n + 7) div 8" for v and x :: u8
    using that by (simp add: lb__visit_set_def)
  have c: "lb__visit_clear v (ucast n) = replicate (length v) 0"
    if "length v = (unat n + 7) div 8" for v
    using that unat_bitmap_bytes [of n] by (simp add: lb__visit_clear_def)
  show "length (lb__visit_clear v (ucast n)) = (unat n + 7) div 8"
    if "length v = (unat n + 7) div 8" for v
    using that c [OF that] by simp
  have i: "unat x div 8 < (unat n + 7) div 8" if "x \<in> ops_below n" for x
    using that by (simp add: ops_below_def word_less_nat_alt)
  show "lb__visit_test (lb__visit_set v (ucast x)) (ucast y) = (y = x \<or> lb__visit_test v (ucast y))"
    if "length v = (unat n + 7) div 8" "x \<in> ops_below n" for v x and y :: u8
  proof -
    have "(ucast y :: u32) = ucast x \<longleftrightarrow> y = x"
      by (simp add: word_unat_eq_iff)
    then show ?thesis
      using that i [OF that(2)] by (subst visit_test_set) auto
  qed
  show "\<not> lb__visit_test (lb__visit_clear v (ucast n)) (ucast x)"
    if "length v = (unat n + 7) div 8" "x \<in> ops_below n" for v x
    using i [OF that(2)] that c [OF that(1)] by (simp add: visit_test_bit)
qed

section \<open>The cycle check\<close>

subsection \<open>Definitions\<close>

text \<open>The edges in use: \<open>edges[0 .. edge_count)\<close>.\<close>

definition live_edges :: "loxbudget \<Rightarrow> causality_edge list" where
  "live_edges b = take (unat (t_edge_count b)) (t_edges b)"

definition walk_fuel :: nat where
  "walk_fuel = 300"

text \<open>
  The scan over the edges of \<open>cur\<close>; \<open>None\<close> when the goal is met, otherwise the new
  stack. A child that does not fit on the stack is dropped.
\<close>

fun path_scan ::
    "u8 \<Rightarrow> u8 \<Rightarrow> u8 \<Rightarrow> u8 list \<Rightarrow> causality_edge list \<Rightarrow> u8 list \<Rightarrow> u8 list option" where
  "path_scan max_ops goal cur visited [] stack = Some stack"
| "path_scan max_ops goal cur visited (ed # es) stack =
     (if e_parent ed \<noteq> cur then path_scan max_ops goal cur visited es stack
      else if e_child ed = goal then None
      else if e_child ed \<ge> max_ops then path_scan max_ops goal cur visited es stack
      else if lb__visit_test visited (ucast (e_child ed)) then path_scan max_ops goal cur visited es stack
      else if length stack < LOXBUDGET_MAX_OPS
      then path_scan max_ops goal cur visited es (e_child ed # stack)
      else path_scan max_ops goal cur visited es stack)"

fun path_loop ::
    "nat \<Rightarrow> u8 \<Rightarrow> u8 \<Rightarrow> causality_edge list \<Rightarrow> u8 list \<Rightarrow> u8 list \<Rightarrow> (bool \<times> u8 list) option" where
  "path_loop 0 max_ops goal es stack visited = None"
| "path_loop (Suc k) max_ops goal es [] visited = Some (False, visited)"
| "path_loop (Suc k) max_ops goal es (cur # stack) visited =
     (if lb__visit_test visited (ucast cur) then path_loop k max_ops goal es stack visited
      else let visited' = lb__visit_set visited (ucast cur) in
        case path_scan max_ops goal cur visited' es stack of
          None \<Rightarrow> Some (True, visited')
        | Some stack' \<Rightarrow> path_loop k max_ops goal es stack' visited')"

text \<open>The answer and the bitmap it leaves behind.\<close>

definition lb__path_exists :: "loxbudget \<Rightarrow> u8 \<Rightarrow> u8 \<Rightarrow> bool \<times> u8 list" where
  "lb__path_exists b start goal =
     (if start \<ge> b_max_ops b \<or> goal \<ge> b_max_ops b then (False, t_visited b)
      else if start = goal then (True, t_visited b)
      else let visited = lb__visit_clear (t_visited b) (ucast (b_max_ops b)) in
        case path_loop walk_fuel (b_max_ops b) goal (live_edges b) [start] visited of
          Some r \<Rightarrow> r
        | None \<Rightarrow> (False, visited))"

definition loxbudget_causality_edge_count :: "build \<Rightarrow> loxbudget option \<Rightarrow> u16" where
  "loxbudget_causality_edge_count B bp =
     (case bp of None \<Rightarrow> 0
      | Some b \<Rightarrow>
          if \<not> causality_on B then 0
          else if b_magic b \<noteq> 0x4C58424D then 0
          else if \<not> lb__causality_has_storage' B b then 0
          else t_edge_count b)"

text \<open>The kinds of \<open>loxbudget_trigger_kind_t\<close>, by their Q8 weights.\<close>

definition LOXBUDGET_TRIGGER_NEVER :: c_enum where "LOXBUDGET_TRIGGER_NEVER = 0"
definition LOXBUDGET_TRIGGER_RARE :: c_enum where "LOXBUDGET_TRIGGER_RARE = 32"
definition LOXBUDGET_TRIGGER_MAYBE :: c_enum where "LOXBUDGET_TRIGGER_MAYBE = 128"
definition LOXBUDGET_TRIGGER_ALWAYS :: c_enum where "LOXBUDGET_TRIGGER_ALWAYS = 255"

lemmas trigger_defs = LOXBUDGET_TRIGGER_NEVER_def LOXBUDGET_TRIGGER_RARE_def
  LOXBUDGET_TRIGGER_MAYBE_def LOXBUDGET_TRIGGER_ALWAYS_def

text \<open>
  \<open>b\<close> is the instance behind a pointer that is not NULL. The new edge is written first,
  then the cycle check runs with it in place, and it is taken back when it closes a cycle.
\<close>

definition append_edge :: "u8 \<Rightarrow> u8 \<Rightarrow> c_enum \<Rightarrow> loxbudget \<Rightarrow> loxbudget" where
  "append_edge parent child kind b =
     b\<lparr>t_edges := (t_edges b)[unat (t_edge_count b) :=
          \<lparr>e_parent = parent, e_child = child, e_weight_q8 = ucast kind\<rparr>],
       t_edge_count := t_edge_count b + 1\<rparr>"

definition retract_edge :: "loxbudget \<Rightarrow> loxbudget" where
  "retract_edge b =
     (let n = t_edge_count b - 1 in b\<lparr>t_edge_count := n, t_edges := (t_edges b)[unat n := zero_edge]\<rparr>)"

definition loxbudget_op_may_trigger ::
    "build \<Rightarrow> loxbudget option \<Rightarrow> u8 \<Rightarrow> u8 \<Rightarrow> c_enum \<Rightarrow> loxbudget_status \<times> loxbudget option" where
  "loxbudget_op_may_trigger B bp parent child kind =
     (if \<not> causality_on B then (LOXBUDGET_ERR_FEATURE_DISABLED, bp)
      else case bp of None \<Rightarrow> (LOXBUDGET_ERR_NOT_INITIALIZED, bp) | Some b \<Rightarrow>
        if b_magic b \<noteq> 0x4C58424D then (LOXBUDGET_ERR_NOT_INITIALIZED, bp)
        else if \<not> lb__causality_has_storage' B b then (LOXBUDGET_ERR_NO_SPACE, bp)
        else if parent \<ge> b_max_ops b \<or> child \<ge> b_max_ops b then (LOXBUDGET_ERR_INVALID_ARG, bp)
        else if parent = child then (LOXBUDGET_ERR_INVALID_ARG, bp)
        else if kind \<notin> {LOXBUDGET_TRIGGER_NEVER, LOXBUDGET_TRIGGER_RARE, LOXBUDGET_TRIGGER_MAYBE,
                          LOXBUDGET_TRIGGER_ALWAYS}
        then (LOXBUDGET_ERR_INVALID_ARG, bp)
        else if t_op_cfg b ! unat parent = 0 \<or> t_op_cfg b ! unat child = 0
        then (LOXBUDGET_ERR_NOT_FOUND, bp)
        else (case first_index (\<lambda>ed. e_parent ed = parent \<and> e_child ed = child) (live_edges b) of
            Some i \<Rightarrow> (LOXBUDGET_OK,
              Some (b\<lparr>t_edges := upd_at i (\<lambda>ed. ed\<lparr>e_weight_q8 := ucast kind\<rparr>) (t_edges b)\<rparr>))
          | None \<Rightarrow>
              if t_edge_count b \<ge> of_nat LOXBUDGET_CAUSALITY_MAX_EDGES then (LOXBUDGET_ERR_NO_SPACE, bp)
              else let b1 = append_edge parent child kind b;
                       (cycle, visited) = lb__path_exists b1 child parent;
                       b2 = b1\<lparr>t_visited := visited\<rparr>
                in if cycle then (LOXBUDGET_ERR_BAD_STATE, Some (retract_edge b2))
                   else (LOXBUDGET_OK, Some b2)))"

subsection \<open>The walk against reachability\<close>

definition edge_rel :: "causality_edge list \<Rightarrow> (u8 \<times> u8) set" where
  "edge_rel es = (\<lambda>ed. (e_parent ed, e_child ed)) ` set es"

definition edges_ok :: "u8 \<Rightarrow> causality_edge list \<Rightarrow> bool" where
  "edges_ok n es \<longleftrightarrow> list_all (\<lambda>ed. e_parent ed < n \<and> e_child ed < n \<and> e_parent ed \<noteq> e_child ed) es"

lemma path_scan_None:
  "path_scan n goal cur vis es st = None \<Longrightarrow> (cur, goal) \<in> edge_rel es"
  by (induction es arbitrary: st) (auto simp: edge_rel_def split: if_splits)

lemma path_scan_subset:
  "path_scan n goal cur vis es st = Some st' \<Longrightarrow>
   set st' \<subseteq> set st \<union> {c. (cur, c) \<in> edge_rel es \<and> c < n}"
proof (induction es arbitrary: st)
  case Nil
  then show ?case by simp
next
  case (Cons ed es)
  from Cons.prems have "path_scan n goal cur vis es st = Some st' \<or>
      e_parent ed = cur \<and> e_child ed < n \<and> path_scan n goal cur vis es (e_child ed # st) = Some st'"
    by (auto split: if_splits)
  with Cons.IH [of st] Cons.IH [of "e_child ed # st"] show ?case
    by (auto simp: edge_rel_def)
qed

lemma path_scan_length:
  "path_scan n goal cur vis es st = Some st' \<Longrightarrow> length st \<le> LOXBUDGET_MAX_OPS \<Longrightarrow> length st' \<le> LOXBUDGET_MAX_OPS"
proof (induction es arbitrary: st)
  case Nil
  then show ?case by simp
next
  case (Cons ed es)
  from Cons.prems(1) have "path_scan n goal cur vis es st = Some st' \<or>
      length st < LOXBUDGET_MAX_OPS \<and> path_scan n goal cur vis es (e_child ed # st) = Some st'"
    by (auto split: if_splits)
  with Cons.IH [of st] Cons.IH [of "e_child ed # st"] Cons.prems(2) show ?case by auto
qed

text \<open>Soundness: a reported path exists.\<close>

lemma path_loop_sound:
  "path_loop k n goal es st vis = Some (True, vis') \<Longrightarrow> \<forall>v\<in>set st. (start, v) \<in> (edge_rel es)\<^sup>* \<Longrightarrow>
   (start, goal) \<in> (edge_rel es)\<^sup>*"
proof (induction k arbitrary: st vis)
  case 0
  then show ?case by simp
next
  case (Suc k)
  show ?case
  proof (cases st)
    case Nil
    with Suc.prems(1) show ?thesis by simp
  next
    case (Cons cur rest)
    have cur: "(start, cur) \<in> (edge_rel es)\<^sup>*" using Suc.prems(2) Cons by simp
    show ?thesis
    proof (cases "lb__visit_test vis (ucast cur)")
      case True
      with Suc Cons show ?thesis by auto
    next
      case False
      let ?vis = "lb__visit_set vis (ucast cur)"
      show ?thesis
      proof (cases "path_scan n goal cur ?vis es rest")
        case None
        with path_scan_None cur show ?thesis by (blast intro: rtrancl.rtrancl_into_rtrancl)
      next
        case (Some st')
        have "\<forall>v\<in>set st'. (start, v) \<in> (edge_rel es)\<^sup>*"
          using path_scan_subset [OF Some] cur Suc.prems(2) Cons
          by (auto intro: rtrancl.rtrancl_into_rtrancl)
        moreover have "path_loop k n goal es st' ?vis = Some (True, vis')"
          using Suc.prems(1) Cons False Some by simp
        ultimately show ?thesis using Suc.IH by blast
      qed
    qed
  qed
qed

text \<open>Enough fuel: the measure of the header falls in every round.\<close>

lemma path_loop_returns:
  assumes "length vis = (unat n + 7) div 8" "\<forall>v\<in>set st. v < n" "length st \<le> LOXBUDGET_MAX_OPS"
    and "17 * bitmap.missing n vis + length st < k"
  shows "\<exists>r vis'. path_loop k n goal es st vis = Some (r, vis') \<and> length vis' = length vis"
  using assms
proof (induction k arbitrary: st vis)
  case 0
  then show ?case by simp
next
  case (Suc k)
  show ?case
  proof (cases st)
    case Nil
    then show ?thesis by auto
  next
    case (Cons cur rest)
    show ?thesis
    proof (cases "lb__visit_test vis (ucast cur)")
      case True
      have "\<exists>r vis'. path_loop k n goal es rest vis = Some (r, vis') \<and> length vis' = length vis"
        using Suc.prems Cons by (intro Suc.IH) auto
      with True Cons show ?thesis by simp
    next
      case False
      let ?vis = "lb__visit_set vis (ucast cur)"
      have cur: "cur \<in> ops_below n" using Suc.prems(2) Cons by (simp add: ops_below_def)
      have l: "length ?vis = (unat n + 7) div 8"
        by (rule bitmap.inv_add [OF Suc.prems(1)])
      have m: "Suc (bitmap.missing n ?vis) = bitmap.missing n vis"
        by (rule bitmap.missing_add [OF Suc.prems(1) cur False])
      show ?thesis
      proof (cases "path_scan n goal cur ?vis es rest")
        case None
        with False Cons l Suc.prems(1) show ?thesis by auto
      next
        case (Some st')
        have s: "length st' \<le> LOXBUDGET_MAX_OPS"
          using path_scan_length [OF Some] Suc.prems(3) Cons by simp
        have "\<exists>r vis'. path_loop k n goal es st' ?vis = Some (r, vis') \<and> length vis' = length ?vis"
          using l s path_scan_subset [OF Some] Suc.prems(2,4) Cons m by (intro Suc.IH) auto
        with False Cons Some l Suc.prems(1) show ?thesis by simp
      qed
    qed
  qed
qed

text \<open>
  Completeness as long as nothing is dropped. The room left on the stack is bounded by
  the edges of operations not yet visited, so 16 edges or fewer never overflow it.
\<close>

definition edges_left :: "u8 list \<Rightarrow> causality_edge list \<Rightarrow> nat" where
  "edges_left vis es = count_if (\<lambda>ed. \<not> lb__visit_test vis (ucast (e_parent ed))) es"

definition scanned :: "u8 \<Rightarrow> u8 \<Rightarrow> causality_edge list \<Rightarrow> u8 list \<Rightarrow> u8 list \<Rightarrow> bool" where
  "scanned n goal es st vis \<longleftrightarrow>
     (\<forall>v c. v < n \<longrightarrow> lb__visit_test vis (ucast v) \<longrightarrow> (v, c) \<in> edge_rel es \<longrightarrow>
        c \<noteq> goal \<and> (lb__visit_test vis (ucast c) \<or> c \<in> set st))"

lemma path_scan_room:
  assumes "path_scan n goal cur vis es st = Some st'"
    and "length st + count_if (\<lambda>ed. e_parent ed = cur) es \<le> LOXBUDGET_MAX_OPS" and "edges_ok n es"
  shows "set st \<subseteq> set st' \<and> length st' \<le> length st + count_if (\<lambda>ed. e_parent ed = cur) es \<and>
         (\<forall>c. (cur, c) \<in> edge_rel es \<longrightarrow> c \<noteq> goal \<and> (lb__visit_test vis (ucast c) \<or> c \<in> set st'))"
  using assms
proof (induction es arbitrary: st)
  case Nil
  then show ?case by (simp add: edge_rel_def)
next
  case (Cons ed es)
  have ok: "edges_ok n es" "e_child ed < n"
    using Cons.prems(3) by (auto simp: edges_ok_def)
  show ?case
  proof (cases "e_parent ed = cur")
    case False
    with Cons.prems ok Cons.IH [of st] show ?thesis by (auto simp: edge_rel_def)
  next
    case True
    with Cons.prems(1) ok(2) have goal: "e_child ed \<noteq> goal" by auto
    show ?thesis
    proof (cases "lb__visit_test vis (ucast (e_child ed))")
      case visited: True
      have "path_scan n goal cur vis es st = Some st'"
        using Cons.prems(1) goal True visited by (simp split: if_splits)
      with Cons.prems(2) ok goal True visited Cons.IH [of st] show ?thesis
        by (auto simp: edge_rel_def)
    next
      case fresh: False
      have "\<not> n \<le> e_child ed" "length st < LOXBUDGET_MAX_OPS"
        using ok(2) Cons.prems(2) True by simp_all
      then have "path_scan n goal cur vis es (e_child ed # st) = Some st'"
        using Cons.prems(1) goal True fresh by simp
      with Cons.prems(2) ok goal True Cons.IH [of "e_child ed # st"] show ?thesis
        by (auto simp: edge_rel_def)
    qed
  qed
qed

lemma edges_left_add:
  assumes "length vis = (unat n + 7) div 8" "cur < n" "\<not> lb__visit_test vis (ucast cur)"
  shows "edges_left vis es =
         edges_left (lb__visit_set vis (ucast cur)) es + count_if (\<lambda>ed. e_parent ed = cur) es"
proof -
  have t: "lb__visit_test (lb__visit_set vis (ucast cur)) (ucast y) \<longleftrightarrow> y = cur \<or> lb__visit_test vis (ucast y)"
    for y :: u8
    using assms by (intro bitmap.test_add [where n = n]) (simp_all add: ops_below_def)
  show ?thesis
    by (induction es) (use assms(3) in \<open>auto simp: edges_left_def t\<close>)
qed

lemma path_loop_complete:
  assumes "path_loop k n goal es st vis = Some (False, vis')"
    and "length vis = (unat n + 7) div 8" "edges_ok n es" "\<forall>v\<in>set st. v < n"
    and "scanned n goal es st vis" "length st + edges_left vis es \<le> 17"
  shows "scanned n goal es [] vis' \<and>
         (\<forall>v. v < n \<longrightarrow> lb__visit_test vis (ucast v) \<or> v \<in> set st \<longrightarrow> lb__visit_test vis' (ucast v))"
  using assms
proof (induction k arbitrary: st vis)
  case 0
  then show ?case by simp
next
  case (Suc k)
  show ?case
  proof (cases st)
    case Nil
    with Suc.prems show ?thesis by simp
  next
    case (Cons cur rest)
    show ?thesis
    proof (cases "lb__visit_test vis (ucast cur)")
      case True
      have "scanned n goal es rest vis"
        using Suc.prems(5) True Cons by (auto simp: scanned_def)
      then have "scanned n goal es [] vis' \<and>
         (\<forall>v. v < n \<longrightarrow> lb__visit_test vis (ucast v) \<or> v \<in> set rest \<longrightarrow> lb__visit_test vis' (ucast v))"
        using Suc.prems Cons True by (intro Suc.IH) auto
      with True Cons show ?thesis by auto
    next
      case False
      let ?vis = "lb__visit_set vis (ucast cur)"
      have cur: "cur < n" using Suc.prems(4) Cons by simp
      have t: "lb__visit_test ?vis (ucast y) \<longleftrightarrow> y = cur \<or> lb__visit_test vis (ucast y)" for y :: u8
        using Suc.prems(2) cur by (intro bitmap.test_add [where n = n]) (simp_all add: ops_below_def)
      have left: "edges_left vis es = edges_left ?vis es + count_if (\<lambda>ed. e_parent ed = cur) es"
        using edges_left_add [OF Suc.prems(2) cur False] .
      obtain st' where st': "path_scan n goal cur ?vis es rest = Some st'"
        and loop: "path_loop k n goal es st' ?vis = Some (False, vis')"
        using Suc.prems(1) Cons False by (auto simp: Let_def split: option.splits)
      have room: "set rest \<subseteq> set st' \<and> length st' \<le> length rest + count_if (\<lambda>ed. e_parent ed = cur) es \<and>
         (\<forall>c. (cur, c) \<in> edge_rel es \<longrightarrow> c \<noteq> goal \<and> (lb__visit_test ?vis (ucast c) \<or> c \<in> set st'))"
        using Suc.prems(3,6) Cons left by (intro path_scan_room [OF st']) auto
      have "scanned n goal es st' ?vis"
        using Suc.prems(5) room unfolding scanned_def t by (auto simp: Cons)
      moreover have "\<forall>v\<in>set st'. v < n"
        using path_scan_subset [OF st'] Suc.prems(4) Cons by auto
      moreover have "length ?vis = (unat n + 7) div 8"
        by (rule bitmap.inv_add [OF Suc.prems(2)])
      moreover have "length st' + edges_left ?vis es \<le> 17"
        using room left Suc.prems(6) Cons by simp
      ultimately have "scanned n goal es [] vis' \<and>
         (\<forall>v. v < n \<longrightarrow> lb__visit_test ?vis (ucast v) \<or> v \<in> set st' \<longrightarrow> lb__visit_test vis' (ucast v))"
        using loop Suc.prems(3) by (intro Suc.IH) auto
      then show ?thesis using room unfolding t by (auto simp: Cons)
    qed
  qed
qed

lemma card_ops_below: "card (ops_below n) \<le> unat n"
proof -
  have "card (ops_below n) = card (unat ` ops_below n)"
    by (rule card_image [symmetric]) (simp add: inj_on_def word_unat_eq_iff)
  also have "\<dots> \<le> card {..<unat n}"
    by (rule card_mono) (auto simp: ops_below_def word_less_nat_alt)
  finally show ?thesis by simp
qed

text \<open>The walk always returns, leaves a bitmap of the right size, and is exact up to 16 edges.\<close>

lemma path_exists_returns:
  assumes "length (t_visited b) = (unat (b_max_ops b) + 7) div 8" "unat (b_max_ops b) \<le> LOXBUDGET_MAX_OPS"
    and "start < b_max_ops b"
  shows "\<exists>r vis. path_loop walk_fuel (b_max_ops b) goal (live_edges b) [start]
      (lb__visit_clear (t_visited b) (ucast (b_max_ops b))) = Some (r, vis) \<and> length vis = length (t_visited b)"
proof -
  let ?n = "b_max_ops b" and ?v = "lb__visit_clear (t_visited b) (ucast (b_max_ops b))"
  have v: "length ?v = (unat ?n + 7) div 8" by (rule bitmap.inv_clear [OF assms(1)])
  have "bitmap.missing ?n ?v \<le> unat ?n"
    using bitmap.missing_le [of ?n ?v] card_ops_below [of ?n] by simp
  then have m: "17 * bitmap.missing ?n ?v + length [start] < walk_fuel"
    using assms(2) by (simp add: walk_fuel_def)
  from path_loop_returns [OF v _ _ m] assms(3) v show ?thesis
    by (simp add: assms(1))
qed

lemma path_exists_length:
  assumes "length (t_visited b) = (unat (b_max_ops b) + 7) div 8" "unat (b_max_ops b) \<le> LOXBUDGET_MAX_OPS"
  shows "length (snd (lb__path_exists b start goal)) = length (t_visited b)"
  using path_exists_returns [OF assms, of start goal]
  by (auto simp: lb__path_exists_def Let_def not_le)

lemma path_exists_exact:
  assumes "length (t_visited b) = (unat (b_max_ops b) + 7) div 8" "unat (b_max_ops b) \<le> LOXBUDGET_MAX_OPS"
    and "edges_ok (b_max_ops b) (live_edges b)" "length (live_edges b) \<le> 16"
    and "start < b_max_ops b" "goal < b_max_ops b" "start \<noteq> goal"
  shows "fst (lb__path_exists b start goal) \<longleftrightarrow> (start, goal) \<in> (edge_rel (live_edges b))\<^sup>*"
proof -
  let ?n = "b_max_ops b" and ?v = "lb__visit_clear (t_visited b) (ucast (b_max_ops b))"
  obtain r vis where loop: "path_loop walk_fuel ?n goal (live_edges b) [start] ?v = Some (r, vis)"
    using path_exists_returns [OF assms(1,2,5)] by blast
  have "\<not> ?n \<le> start" "\<not> ?n \<le> goal"
    using assms(5,6) by (simp_all add: not_le)
  then have r: "fst (lb__path_exists b start goal) = r"
    using assms(7) loop by (simp add: lb__path_exists_def Let_def)
  have "(start, goal) \<in> (edge_rel (live_edges b))\<^sup>*" if "r"
    using path_loop_sound [of walk_fuel ?n goal "live_edges b" "[start]" ?v vis start] loop that by simp
  moreover have "(start, goal) \<notin> (edge_rel (live_edges b))\<^sup>*" if "\<not> r"
  proof -
    have clear: "\<not> lb__visit_test ?v (ucast x)" if "x < ?n" for x :: u8
      using that by (intro bitmap.test_clear [OF assms(1)]) (simp add: ops_below_def)
    have "scanned ?n goal (live_edges b) [start] ?v"
      using clear by (simp add: scanned_def)
    moreover have "length [start] + edges_left ?v (live_edges b) \<le> 17"
      using assms(4) order_trans [OF count_if_le, of "live_edges b" 16] by (simp add: edges_left_def)
    ultimately have s: "scanned ?n goal (live_edges b) [] vis \<and>
        (\<forall>v. v < ?n \<longrightarrow> lb__visit_test ?v (ucast v) \<or> v \<in> set [start] \<longrightarrow> lb__visit_test vis (ucast v))"
      using loop that assms(3,5) bitmap.inv_clear [OF assms(1)]
      by (intro path_loop_complete [where k = walk_fuel]) auto
    have "x < ?n \<and> lb__visit_test vis (ucast x) \<and> x \<noteq> goal" if "(start, x) \<in> (edge_rel (live_edges b))\<^sup>*" for x
      using that
    proof (induction rule: rtrancl_induct)
      case base
      then show ?case using s assms(5,7) by simp
    next
      case (step y z)
      then have "z < ?n" using assms(3) by (auto simp: edge_rel_def edges_ok_def list_all_iff)
      with step s show ?case by (auto simp: scanned_def)
    qed
    then show ?thesis by blast
  qed
  ultimately show ?thesis using r by blast
qed

subsection \<open>Registering an edge\<close>

definition valid_trigger :: "build \<Rightarrow> loxbudget \<Rightarrow> u8 \<Rightarrow> u8 \<Rightarrow> c_enum \<Rightarrow> bool" where
  "valid_trigger B b p c kind \<longleftrightarrow>
     causality_on B \<and> b_magic b = LOXBUDGET_MAGIC_INIT \<and> lb__causality_has_storage' B b \<and>
     p < b_max_ops b \<and> c < b_max_ops b \<and> p \<noteq> c \<and>
     kind \<in> {LOXBUDGET_TRIGGER_NEVER, LOXBUDGET_TRIGGER_RARE, LOXBUDGET_TRIGGER_MAYBE, LOXBUDGET_TRIGGER_ALWAYS} \<and>
     t_op_cfg b ! unat p \<noteq> 0 \<and> t_op_cfg b ! unat c \<noteq> 0"

definition graph_shape :: "loxbudget \<Rightarrow> bool" where
  "graph_shape b \<longleftrightarrow>
     length (t_edges b) = LOXBUDGET_CAUSALITY_MAX_EDGES \<and>
     unat (t_edge_count b) \<le> LOXBUDGET_CAUSALITY_MAX_EDGES \<and>
     length (t_visited b) = (unat (b_max_ops b) + 7) div 8 \<and> unat (b_max_ops b) \<le> LOXBUDGET_MAX_OPS"

lemma shape_graph: "lb_shape B b \<Longrightarrow> causality_on B \<Longrightarrow> graph_shape b"
  by (simp add: lb_shape_def size_shape_def feature_shape_def graph_shape_def)

text \<open>What a call with valid arguments does, in the three cases of the code.\<close>

lemma may_trigger_present:
  assumes "valid_trigger B b p c k" "first_index (\<lambda>ed. e_parent ed = p \<and> e_child ed = c) (live_edges b) = Some i"
  shows "loxbudget_op_may_trigger B (Some b) p c k =
     (LOXBUDGET_OK, Some (b\<lparr>t_edges := upd_at i (\<lambda>ed. ed\<lparr>e_weight_q8 := ucast k\<rparr>) (t_edges b)\<rparr>))"
proof -
  have "\<not> b_max_ops b \<le> p" "\<not> b_max_ops b \<le> c" "b_magic b = 0x4C58424D"
    using assms(1) by (simp_all add: valid_trigger_def not_le LOXBUDGET_MAGIC_INIT_def)
  with assms show ?thesis by (simp add: loxbudget_op_may_trigger_def valid_trigger_def)
qed

lemma may_trigger_new:
  assumes "valid_trigger B b p c k" "first_index (\<lambda>ed. e_parent ed = p \<and> e_child ed = c) (live_edges b) = None"
    and "unat (t_edge_count b) < LOXBUDGET_CAUSALITY_MAX_EDGES"
  defines "b1 \<equiv> append_edge p c k b"
  defines "b2 \<equiv> b1\<lparr>t_visited := snd (lb__path_exists b1 c p)\<rparr>"
  shows "loxbudget_op_may_trigger B (Some b) p c k =
     (if fst (lb__path_exists b1 c p) then (LOXBUDGET_ERR_BAD_STATE, Some (retract_edge b2))
      else (LOXBUDGET_OK, Some b2))"
proof -
  have "\<not> b_max_ops b \<le> p" "\<not> b_max_ops b \<le> c" "b_magic b = 0x4C58424D"
    "\<not> of_nat LOXBUDGET_CAUSALITY_MAX_EDGES \<le> t_edge_count b"
    using assms(1,3) by (simp_all add: valid_trigger_def not_le LOXBUDGET_MAGIC_INIT_def word_less_nat_alt)
  with assms(1,2) show ?thesis
    unfolding b2_def b1_def
    by (simp add: loxbudget_op_may_trigger_def valid_trigger_def Let_def split_def)
qed

lemma append_edge_live:
  assumes "graph_shape b" "unat (t_edge_count b) < LOXBUDGET_CAUSALITY_MAX_EDGES"
  shows "live_edges (append_edge p c k b) = live_edges b @ [\<lparr>e_parent = p, e_child = c, e_weight_q8 = ucast k\<rparr>]"
    and "unat (t_edge_count (append_edge p c k b)) = Suc (unat (t_edge_count b))"
    and "graph_shape (append_edge p c k b)"
proof -
  show n: "unat (t_edge_count (append_edge p c k b)) = Suc (unat (t_edge_count b))"
    using assms(2) by (simp add: append_edge_def unat_plus_if')
  have "t_edges (append_edge p c k b) =
      (t_edges b)[unat (t_edge_count b) := \<lparr>e_parent = p, e_child = c, e_weight_q8 = ucast k\<rparr>]"
    by (simp add: append_edge_def)
  then show "live_edges (append_edge p c k b) = live_edges b @ [\<lparr>e_parent = p, e_child = c, e_weight_q8 = ucast k\<rparr>]"
    using assms unfolding live_edges_def n by (simp add: take_Suc_conv_app_nth graph_shape_def)
  show "graph_shape (append_edge p c k b)"
    using assms n by (simp add: graph_shape_def) (simp add: append_edge_def)
qed

lemma retract_edge_live:
  assumes "graph_shape b" "unat (t_edge_count b) < LOXBUDGET_CAUSALITY_MAX_EDGES"
  shows "live_edges (retract_edge ((append_edge p c k b)\<lparr>t_visited := v\<rparr>)) = live_edges b"
    and "t_edge_count (retract_edge ((append_edge p c k b)\<lparr>t_visited := v\<rparr>)) = t_edge_count b"
  using assms by (simp_all add: retract_edge_def append_edge_def live_edges_def Let_def)

lemma edge_rel_append: "edge_rel (xs @ ys) = edge_rel xs \<union> edge_rel ys"
  by (auto simp: edge_rel_def)

lemma live_edges_upd:
  "i < length (live_edges b) \<Longrightarrow>
   live_edges (b\<lparr>t_edges := upd_at i f (t_edges b)\<rparr>) = upd_at i f (live_edges b)"
  by (simp add: live_edges_def upd_at_def take_update_swap)

lemma edge_rel_set: "edge_rel es = set (map (\<lambda>ed. (e_parent ed, e_child ed)) es)"
  by (simp add: edge_rel_def)

lemma edge_weight_update:
  assumes "i < length es"
  shows "edge_rel (upd_at i (\<lambda>ed. ed\<lparr>e_weight_q8 := w\<rparr>) es) = edge_rel es"
    and "edges_ok n es \<Longrightarrow> edges_ok n (upd_at i (\<lambda>ed. ed\<lparr>e_weight_q8 := w\<rparr>) es)"
proof -
  show "edge_rel (upd_at i (\<lambda>ed. ed\<lparr>e_weight_q8 := w\<rparr>) es) = edge_rel es"
    unfolding edge_rel_set
    by (rule arg_cong [where f = set]) (rule map_upd_at_invisible, use assms in simp_all)
  show "edges_ok n (upd_at i (\<lambda>ed. ed\<lparr>e_weight_q8 := w\<rparr>) es)" if "edges_ok n es"
    unfolding edges_ok_def
    by (rule list_all_upd_at) (use that in \<open>auto simp: edges_ok_def list_all_length\<close>)
qed

lemma live_edges_update:
  fixes w :: u8
  assumes "first_index (\<lambda>ed. e_parent ed = p \<and> e_child ed = c) (live_edges b) = Some i"
  defines "b' \<equiv> b\<lparr>t_edges := upd_at i (\<lambda>ed. ed\<lparr>e_weight_q8 := w\<rparr>) (t_edges b)\<rparr>"
  shows "edge_rel (live_edges b') = edge_rel (live_edges b)"
    and "edges_ok n (live_edges b) \<Longrightarrow> edges_ok n (live_edges b')"
    and "(p, c) \<in> edge_rel (live_edges b)"
proof -
  have i: "i < length (live_edges b)" "e_parent (live_edges b ! i) = p" "e_child (live_edges b ! i) = c"
    using first_index_Some [OF assms(1)] by auto
  show "edge_rel (live_edges b') = edge_rel (live_edges b)"
    and "edges_ok n (live_edges b) \<Longrightarrow> edges_ok n (live_edges b')"
    unfolding b'_def live_edges_upd [OF i(1)] using edge_weight_update [OF i(1)] by auto
  show "(p, c) \<in> edge_rel (live_edges b)"
    using i nth_mem [OF i(1)] by (force simp: edge_rel_def)
qed

text \<open>Nothing but the edges and the bitmap changes, and the edges stay within range.\<close>

definition only_graph :: "loxbudget \<Rightarrow> loxbudget \<Rightarrow> bool" where
  "only_graph b c \<longleftrightarrow> (\<exists>es n vis. c = b\<lparr>t_edges := es, t_edge_count := n, t_visited := vis\<rparr>)"

lemma only_graph_refl [simp]: "only_graph b b"
  unfolding only_graph_def
  by (rule exI [of _ "t_edges b"], rule exI [of _ "t_edge_count b"], rule exI [of _ "t_visited b"]) simp

lemma only_graph_config: "only_graph b c \<Longrightarrow> same_config b c"
  by (auto simp: only_graph_def same_config_def)

lemma only_graph_shape:
  assumes "only_graph b c" "lb_shape B b" "causality_on B \<Longrightarrow> graph_shape c"
  shows "lb_shape B c"
  using assms(1)
proof (unfold only_graph_def, elim exE)
  fix es n vis
  assume c: "c = b\<lparr>t_edges := es, t_edge_count := n, t_visited := vis\<rparr>"
  have "size_shape c = size_shape b" "audit_shape c = audit_shape b"
    by (simp_all add: c size_shape_def audit_shape_def)
  moreover have "feature_shape B c"
    using assms(2,3) by (simp add: c lb_shape_def feature_shape_def graph_shape_def)
  ultimately show ?thesis using assms(2) by (simp add: lb_shape_def)
qed

lemma may_trigger_cases:
  obtains st where "st \<noteq> LOXBUDGET_OK" "loxbudget_op_may_trigger B (Some b) p c k = (st, Some b)"
  | i where "valid_trigger B b p c k"
      "first_index (\<lambda>ed. e_parent ed = p \<and> e_child ed = c) (live_edges b) = Some i"
  | "valid_trigger B b p c k" "unat (t_edge_count b) < LOXBUDGET_CAUSALITY_MAX_EDGES"
      "first_index (\<lambda>ed. e_parent ed = p \<and> e_child ed = c) (live_edges b) = None"
proof (cases "valid_trigger B b p c k")
  case False
  then have "\<exists>st. st \<noteq> LOXBUDGET_OK \<and> loxbudget_op_may_trigger B (Some b) p c k = (st, Some b)"
    by (auto simp: loxbudget_op_may_trigger_def valid_trigger_def LOXBUDGET_MAGIC_INIT_def not_le)
  with that(1) show thesis by blast
next
  case True
  show thesis
  proof (cases "first_index (\<lambda>ed. e_parent ed = p \<and> e_child ed = c) (live_edges b)")
    case (Some i)
    with True that(2) show thesis by blast
  next
    case None
    have "\<not> b_max_ops b \<le> p" "\<not> b_max_ops b \<le> c" "b_magic b = 0x4C58424D"
      using True by (simp_all add: valid_trigger_def not_le LOXBUDGET_MAGIC_INIT_def)
    then have "loxbudget_op_may_trigger B (Some b) p c k = (LOXBUDGET_ERR_NO_SPACE, Some b)"
      if "\<not> unat (t_edge_count b) < LOXBUDGET_CAUSALITY_MAX_EDGES"
      using that True None
      by (simp add: loxbudget_op_may_trigger_def valid_trigger_def word_le_nat_alt)
    with True None that show thesis by (cases "unat (t_edge_count b) < LOXBUDGET_CAUSALITY_MAX_EDGES") auto
  qed
qed

lemma may_trigger_frame:
  assumes "loxbudget_op_may_trigger B (Some b) p c k = (st, b')"
  shows "\<exists>b1. b' = Some b1 \<and> only_graph b b1"
proof (cases rule: may_trigger_cases [of B b p c k])
  case (1 st')
  with assms show ?thesis by auto
next
  case (2 i)
  have "only_graph b (b\<lparr>t_edges := es\<rparr>)" for es
    unfolding only_graph_def
    by (rule exI [of _ es], rule exI [of _ "t_edge_count b"], rule exI [of _ "t_visited b"]) simp
  with assms may_trigger_present [OF 2] show ?thesis by auto
next
  case 3
  have "only_graph b ((append_edge p c k b)\<lparr>t_visited := v\<rparr>)" for v
    unfolding only_graph_def append_edge_def by auto
  moreover have "only_graph b (retract_edge ((append_edge p c k b)\<lparr>t_visited := v\<rparr>))" for v
    unfolding only_graph_def append_edge_def retract_edge_def Let_def
    by (rule exI [of _ "(t_edges b)[unat (t_edge_count b) := zero_edge]"],
        rule exI [of _ "t_edge_count b"], rule exI [of _ v]) simp
  ultimately have "only_graph b ((append_edge p c k b)\<lparr>t_visited := v\<rparr>) \<and>
    only_graph b (retract_edge ((append_edge p c k b)\<lparr>t_visited := v\<rparr>))" for v
    by blast
  with assms may_trigger_new [OF 3(1,3,2)] show ?thesis by (auto split: if_splits)
qed

lemma may_trigger_shape:
  assumes "loxbudget_op_may_trigger B (Some b) p c k = (st, Some b')" "lb_shape B b"
    and "edges_ok (b_max_ops b) (live_edges b)"
  shows "lb_shape B b'" "edges_ok (b_max_ops b') (live_edges b')"
proof -
  have f: "only_graph b b'" using may_trigger_frame [OF assms(1)] by simp
  then have m: "b_max_ops b' = b_max_ops b" by (auto simp: only_graph_def)
  have "(causality_on B \<longrightarrow> graph_shape b') \<and> edges_ok (b_max_ops b') (live_edges b')"
  proof (cases rule: may_trigger_cases [of B b p c k])
    case (1 st')
    with assms shape_graph [OF assms(2)] show ?thesis by auto
  next
    case (2 i)
    then have b': "b' = b\<lparr>t_edges := upd_at i (\<lambda>ed. ed\<lparr>e_weight_q8 := ucast k\<rparr>) (t_edges b)\<rparr>"
      using assms(1) may_trigger_present [OF 2] by simp
    have "graph_shape b" using 2(1) assms(2) by (intro shape_graph) (auto simp: valid_trigger_def)
    then have "graph_shape b'" by (simp add: b' graph_shape_def)
    with live_edges_update(2) [OF 2(2) assms(3)] show ?thesis by (simp add: b')
  next
    case 3
    have g: "graph_shape b" using 3(1) assms(2) by (intro shape_graph) (auto simp: valid_trigger_def)
    note ap = append_edge_live [OF g 3(2), of p c k]
    let ?b1 = "append_edge p c k b"
    let ?v = "snd (lb__path_exists ?b1 c p)"
    have v: "length ?v = length (t_visited ?b1)"
      using ap(3) by (intro path_exists_length) (auto simp: graph_shape_def)
    show ?thesis
    proof (cases "fst (lb__path_exists ?b1 c p)")
      case True
      then have b': "b' = retract_edge (?b1\<lparr>t_visited := ?v\<rparr>)"
        using assms(1) may_trigger_new [OF 3(1,3,2)] by simp
      have "length (t_edges b') = length (t_edges b)" "t_visited b' = ?v" "b_max_ops ?b1 = b_max_ops b"
        by (simp_all add: b' retract_edge_def append_edge_def Let_def)
      with g v ap(3) retract_edge_live [OF g 3(2)] assms(3) m show ?thesis
        by (simp add: b' graph_shape_def)
    next
      case False
      then have b': "b' = ?b1\<lparr>t_visited := ?v\<rparr>"
        using assms(1) may_trigger_new [OF 3(1,3,2)] by simp
      have "live_edges b' = live_edges ?b1" by (simp add: b' live_edges_def)
      then have "edges_ok (b_max_ops b') (live_edges b')"
        using assms(3) 3(1) m by (simp add: ap edges_ok_def valid_trigger_def)
      moreover have "graph_shape b'"
        using ap(3) v by (simp add: b' graph_shape_def)
      ultimately show ?thesis by simp
    qed
  qed
  with f assms(2) show "lb_shape B b'" "edges_ok (b_max_ops b') (live_edges b')"
    by (auto intro: only_graph_shape)
qed

text \<open>
  C8. Registering an edge: in a graph of fewer than 16 edges that is acyclic, a call with valid
  arguments is accepted exactly when the graph with the new edge is still acyclic; then
  the edge is there, otherwise the edges are the ones before the call.
\<close>

theorem may_trigger_acyclic:
  assumes "lb_shape B b" and "valid_trigger B b p c k" and "edges_ok (b_max_ops b) (live_edges b)"
    and "unat (t_edge_count b) < 16" and "acyclic (edge_rel (live_edges b))"
  shows "\<exists>b'. loxbudget_op_may_trigger B (Some b) p c k =
       (if acyclic (insert (p, c) (edge_rel (live_edges b))) then LOXBUDGET_OK else LOXBUDGET_ERR_BAD_STATE,
        Some b') \<and>
     edge_rel (live_edges b') =
       (if acyclic (insert (p, c) (edge_rel (live_edges b))) then insert (p, c) (edge_rel (live_edges b))
        else edge_rel (live_edges b)) \<and>
     edges_ok (b_max_ops b) (live_edges b')"
proof -
  have g: "graph_shape b" using assms(1,2) by (intro shape_graph) (auto simp: valid_trigger_def)
  let ?E = "edge_rel (live_edges b)"
  show ?thesis
  proof (cases "first_index (\<lambda>ed. e_parent ed = p \<and> e_child ed = c) (live_edges b)")
    case (Some i)
    from live_edges_update(3) [OF Some] have "insert (p, c) ?E = ?E" by blast
    with live_edges_update(1,2) [OF Some] may_trigger_present [OF assms(2) Some] assms(3,5) show ?thesis
      by simp
  next
    case None
    let ?b1 = "append_edge p c k b"
    have n: "unat (t_edge_count b) < LOXBUDGET_CAUSALITY_MAX_EDGES" using assms(4) by simp
    note ap = append_edge_live [OF g n, of p c k]
    have v: "p < b_max_ops b" "c < b_max_ops b" "p \<noteq> c" using assms(2) by (auto simp: valid_trigger_def)
    have m: "b_max_ops ?b1 = b_max_ops b" by (simp add: append_edge_def)
    have E1: "edge_rel (live_edges ?b1) = insert (p, c) ?E"
      by (simp add: ap edge_rel_append) (simp add: edge_rel_def)
    have ok1: "edges_ok (b_max_ops b) (live_edges ?b1)"
      using assms(3) v by (simp add: ap edges_ok_def)
    have "length (live_edges ?b1) \<le> 16"
      using assms(4) by (simp add: ap live_edges_def)
    then have "fst (lb__path_exists ?b1 c p) \<longleftrightarrow> (c, p) \<in> (edge_rel (live_edges ?b1))\<^sup>*"
      using ap(3) ok1 v m by (intro path_exists_exact) (auto simp: graph_shape_def)
    moreover have "(c, p) \<in> (insert (p, c) ?E)\<^sup>* \<longleftrightarrow> \<not> acyclic (insert (p, c) ?E)"
    proof
      assume "(c, p) \<in> (insert (p, c) ?E)\<^sup>*"
      then have "(p, p) \<in> (insert (p, c) ?E)\<^sup>+"
        by (intro rtrancl_into_trancl2 [of p c]) auto
      then show "\<not> acyclic (insert (p, c) ?E)" by (auto simp: acyclic_def)
    next
      assume "\<not> acyclic (insert (p, c) ?E)"
      then have "(c, p) \<in> ?E\<^sup>*" using assms(5) by (auto simp: acyclic_insert)
      then show "(c, p) \<in> (insert (p, c) ?E)\<^sup>*"
        by (rule rtrancl_mono [THEN subsetD, rotated]) auto
    qed
    ultimately have f: "fst (lb__path_exists ?b1 c p) \<longleftrightarrow> \<not> acyclic (insert (p, c) ?E)"
      by (simp add: E1)
    show ?thesis
      using may_trigger_new [OF assms(2) None n] f E1 ok1 assms(3) retract_edge_live [OF g n]
      by (auto simp: live_edges_def)
  qed
qed

text \<open>The examples are evaluated in a build with the causal graph and nothing else.\<close>

definition graph_build :: build where
  "graph_build = fixed_build\<lparr>audit_on := False, rate_on := False, calib_on := False\<rparr>"

text \<open>Sixteen registered operations, and a series of edges of kind ALWAYS.\<close>

definition wide_ops :: loxbudget where
  "wide_ops = fold (\<lambda>op b. snd (loxbudget_register_op b (Some (loxbudget_op_profile_default op))))
     [0, 1, 2, 3, 4, 5, 6, 7, 8, 9, 10, 11, 12, 13, 14, 15]
     (snd (loxbudget_set_resource
       (init_tables graph_build (init_struct graph_build 16384 (loxbudget_config_simple 1 16))) 0 100 0))"

fun trigger_all :: "(u8 \<times> u8) list \<Rightarrow> loxbudget \<Rightarrow> loxbudget_status list \<times> loxbudget" where
  "trigger_all [] b = ([], b)"
| "trigger_all ((p, c) # es) b =
     (case loxbudget_op_may_trigger graph_build (Some b) p c LOXBUDGET_TRIGGER_ALWAYS of
        (st, Some b') \<Rightarrow> (case trigger_all es b' of (sts, b'') \<Rightarrow> (st # sts, b''))
      | (st, None) \<Rightarrow> ([st], b))"

text \<open>
  A graph of 21 edges: from 0 to 1 ... 9, from 9 to 1 ... 8, from 8 to 10 and 11, from
  11 to 12, and at last from 12 back to 0.
\<close>

definition overflow_edges :: "(u8 \<times> u8) list" where
  "overflow_edges = map (Pair 0) [1, 2, 3, 4, 5, 6, 7, 8, 9] @ map (Pair 9) [1, 2, 3, 4, 5, 6, 7, 8] @
     [(8, 10), (8, 11), (11, 12), (12, 0)]"

lemma overflow_run:
  "fst (trigger_all overflow_edges wide_ops) = replicate 21 LOXBUDGET_OK \<and>
   map (\<lambda>ed. (e_parent ed, e_child ed)) (live_edges (snd (trigger_all overflow_edges wide_ops))) = overflow_edges"
  by code_simp


lemma wide_ops_shape: "lb_shape graph_build wide_ops"
proof -
  have v: "loxbudget_validate_init_args 4 4 16384 (Some (loxbudget_config_simple 1 16)) = LOXBUDGET_OK"
    by (simp add: valid_args_cfg loxbudget_config_simple_def loxbudget_is_aligned_u32_def
        loxbudget_is_pow2_or_zero_u8_def)
  let ?b = "init_tables graph_build (init_struct graph_build 16384 (loxbudget_config_simple 1 16))"
  have "lb_shape graph_build (?b\<lparr>b_lease_magic_base := b_lease_magic_base ?b\<rparr>)"
    by (rule init_tables_shape [OF v])
  then show ?thesis
    by (simp add: wide_ops_def register_op_shape set_resource_shape)
qed

theorem may_trigger_acyclic_witness:
  "\<exists>b'. loxbudget_op_may_trigger graph_build (Some wide_ops) 3 5 LOXBUDGET_TRIGGER_RARE = (LOXBUDGET_OK, Some b') \<and>
     edge_rel (live_edges b') = {(3, 5)}"
proof -
  have facts: "lb__causality_has_storage' graph_build wide_ops" "t_op_cfg wide_ops = replicate 16 1"
    "t_edge_count wide_ops = 0" "b_max_ops wide_ops = 16" "b_magic wide_ops = LOXBUDGET_MAGIC_INIT"
    by code_simp+
  have e: "live_edges wide_ops = []" by (simp add: live_edges_def facts)
  have v: "valid_trigger graph_build wide_ops 3 5 LOXBUDGET_TRIGGER_RARE"
    using facts by (simp add: valid_trigger_def) (simp add: fixed_build_def graph_build_def)
  have "acyclic ({} :: (u8 \<times> u8) set)" "acyclic {(3 :: u8, 5)}"
    by (simp_all add: acyclic_insert) (simp_all add: acyclic_def)
  with may_trigger_acyclic [OF wide_ops_shape v] show ?thesis
    by (auto simp: e facts edges_ok_def edge_rel_def)
qed

end
