(* ===== verification/LB_Cascade.thy ===== *)
theory LB_Cascade
  imports LB_Causality
begin

text \<open>
  The second walk of \<open>src/loxbudget_causality.c\<close>: \<open>lb__causality_add_scaled_needs_\<close>
  follows the may-trigger graph from the operation being decided, to a depth of three,
  and adds the needs of the operations it meets, scaled by the Q8 weight of the edge, to
  the accumulator of the decision. It reads the needs table byte by byte.
\<close>

section \<open>Definitions\<close>

text \<open>
  The bytes 2 and 3 of an entry of the needs table are those of \<open>amount\<close> in the byte
  order of the target; the walk puts them together as little-endian.
\<close>

definition need_byte :: "build \<Rightarrow> loxbudget_need \<Rightarrow> nat \<Rightarrow> u8" where
  "need_byte B n i =
     (if i = 0 then n_resource n
      else if i = 2 then (if little_endian B then ucast (n_amount n) else ucast (drop_bit 8 (n_amount n)))
      else if i = 3 then (if little_endian B then ucast (drop_bit 8 (n_amount n)) else ucast (n_amount n))
      else 0)"

definition read_amount :: "build \<Rightarrow> loxbudget_need \<Rightarrow> u16" where
  "read_amount B n = ucast (need_byte B n 2) OR push_bit 8 (ucast (need_byte B n 3))"

definition scaled_need :: "u16 \<Rightarrow> u8 \<Rightarrow> u32" where
  "scaled_need amt w = drop_bit 8 (ucast amt * ucast w + 128)"

text \<open>The loop over the needs of one child.\<close>

fun add_child_needs :: "build \<Rightarrow> u8 \<Rightarrow> u8 \<Rightarrow> loxbudget_need list \<Rightarrow> u16 list \<Rightarrow> u16 list" where
  "add_child_needs B max_res w [] npr = npr"
| "add_child_needs B max_res w (n # ns) npr =
     (let res = need_byte B n 0; amt = read_amount B n in
      if amt = 0 then add_child_needs B max_res w ns npr
      else if res \<ge> max_res then add_child_needs B max_res w ns npr
      else add_child_needs B max_res w ns
             (npr[unat res := sat16 (ucast (npr ! unat res) + scaled_need amt w)]))"

text \<open>The edges that the walk follows from an operation.\<close>

definition edge_followed :: "loxbudget \<Rightarrow> u8 list \<Rightarrow> u8 \<Rightarrow> causality_edge \<Rightarrow> bool" where
  "edge_followed b visited cur ed \<longleftrightarrow>
     e_parent ed = cur \<and> e_weight_q8 ed \<noteq> 0 \<and> \<not> e_child ed \<ge> b_max_ops b \<and>
     \<not> lb__visit_test visited (ucast (e_child ed)) \<and>
     \<not> (e_weight_q8 ed = ucast LOXBUDGET_TRIGGER_RARE \<and>
        b_pressure b < u8_of_pressure LOXBUDGET_PRESSURE_CRITICAL)"

text \<open>The scan over the edges; the stack holds operations with their depths.\<close>

fun cascade_scan ::
    "build \<Rightarrow> loxbudget \<Rightarrow> u8 \<Rightarrow> u8 \<Rightarrow> u8 list \<Rightarrow> causality_edge list \<Rightarrow> (u8 \<times> u8) list \<Rightarrow> u16 list \<Rightarrow>
     (u8 \<times> u8) list \<times> u16 list" where
  "cascade_scan B b cur depth visited [] stack npr = (stack, npr)"
| "cascade_scan B b cur depth visited (ed # es) stack npr =
     (if edge_followed b visited cur ed
      then cascade_scan B b cur depth visited es
             (if length stack < LOXBUDGET_MAX_OPS then (e_child ed, depth + 1) # stack else stack)
             (add_child_needs B (b_max_resources b) (e_weight_q8 ed) (op_needs b (e_child ed)) npr)
      else cascade_scan B b cur depth visited es stack npr)"

fun cascade_loop ::
    "nat \<Rightarrow> build \<Rightarrow> loxbudget \<Rightarrow> (u8 \<times> u8) list \<Rightarrow> u8 list \<Rightarrow> u16 list \<Rightarrow> (u8 list \<times> u16 list) option" where
  "cascade_loop 0 B b stack visited npr = None"
| "cascade_loop (Suc k) B b [] visited npr = Some (visited, npr)"
| "cascade_loop (Suc k) B b ((cur, depth) # stack) visited npr =
     (if lb__visit_test visited (ucast cur) then cascade_loop k B b stack visited npr
      else let visited' = lb__visit_set visited (ucast cur) in
        if depth \<ge> LOXBUDGET_CAUSALITY_MAX_DEPTH then cascade_loop k B b stack visited' npr
        else case cascade_scan B b cur depth visited' (live_edges b) stack npr of
               (stack', npr') \<Rightarrow> cascade_loop k B b stack' visited' npr')"

text \<open>
  The result is the return value (whether the walk was made), the bitmap it leaves and
  the accumulated needs.
\<close>

definition lb__causality_add_scaled_needs ::
    "build \<Rightarrow> loxbudget \<Rightarrow> u8 \<Rightarrow> u16 list \<Rightarrow> bool \<times> u8 list \<times> u16 list" where
  "lb__causality_add_scaled_needs B b root npr =
     (if \<not> lb__causality_has_storage' B b then (False, t_visited b, npr)
      else if root \<ge> b_max_ops b then (False, t_visited b, npr)
      else let visited = lb__visit_clear (t_visited b) (ucast (b_max_ops b)) in
        case cascade_loop walk_fuel B b [(root, 0)] visited npr of
          Some (visited', npr') \<Rightarrow> (True, visited', npr')
        | None \<Rightarrow> (False, visited, npr))"

section \<open>Reading and scaling\<close>

lemma read_amount_le: "little_endian B \<Longrightarrow> read_amount B n = n_amount n"
  by (rule bit_word_eqI) (auto simp: read_amount_def need_byte_def bit_simps)

lemma read_amount_be:
  "\<not> little_endian B \<Longrightarrow> read_amount B n = push_bit 8 (n_amount n) OR drop_bit 8 (n_amount n)"
  by (rule bit_word_eqI) (auto simp: read_amount_def need_byte_def bit_simps dest: bit_imp_le_length)

lemma unat_scaled_need [wordnat]: "unat (scaled_need a w) = (unat a * unat w + 128) div 256"
proof -
  have "unat a * unat w \<le> 65535 * 255"
    using unat_u16_bound [of a] unat_u8_bound [of w] by (intro mult_le_mono) auto
  then have "unat a * unat w + 128 < 4294967296" by simp
  moreover from this have "unat ((ucast a :: u32) * ucast w) = unat a * unat w"
    by (intro unat_mult_small [THEN trans]) auto
  ultimately have "unat ((ucast a :: u32) * ucast w + 128) = unat a * unat w + 128"
    by (simp add: unat_add_small)
  then show ?thesis by (simp add: scaled_need_def drop_bit_eq_div unat_div)
qed

lemma scaled_need_le: "unat (scaled_need a w) \<le> unat a"
proof -
  have "unat a * unat w \<le> unat a * 255"
    using unat_u8_bound [of w] by (intro mult_le_mono) auto
  then have "(unat a * unat w + 128) div 256 \<le> (unat a * 255 + 128) div 256"
    by (intro div_le_mono) simp
  also have "\<dots> \<le> unat a" by (cases "unat a = 0") auto
  finally show ?thesis by (simp add: unat_scaled_need)
qed

section \<open>The walk\<close>

text \<open>What the needs of one child add to a resource, and what the followed edges add together.\<close>

definition child_cost :: "build \<Rightarrow> u8 \<Rightarrow> loxbudget_need list \<Rightarrow> nat \<Rightarrow> nat" where
  "child_cost B w ns r =
     sum_list (map (\<lambda>n. if unat (n_resource n) = r \<and> read_amount B n \<noteq> 0
                        then unat (scaled_need (read_amount B n) w) else 0) ns)"

definition edges_cost :: "build \<Rightarrow> loxbudget \<Rightarrow> causality_edge list \<Rightarrow> nat \<Rightarrow> nat" where
  "edges_cost B b es r = sum_list (map (\<lambda>ed. child_cost B (e_weight_q8 ed) (op_needs b (e_child ed)) r) es)"

lemma length_add_child_needs [simp]: "length (add_child_needs B m w ns npr) = length npr"
  by (induction ns arbitrary: npr) (auto simp: Let_def)

lemma min_add_min: "min k (min k a + b) = min k (a + b :: nat)"
  by simp

lemma add_child_needs_nth:
  "r < length npr \<Longrightarrow> r < unat m \<Longrightarrow>
   unat (add_child_needs B m w ns npr ! r) = min 65535 (unat (npr ! r) + child_cost B w ns r)"
proof (induction ns arbitrary: npr)
  case Nil
  then show ?case using unat_u16_bound [of "npr ! r"] by (simp add: child_cost_def)
next
  case (Cons n ns)
  define npr1 where "npr1 = npr[unat (n_resource n) := sat16 (ucast (npr ! unat (n_resource n)) + scaled_need (read_amount B n) w)]"
  have s: "unat ((ucast (npr ! i) :: u32) + scaled_need (read_amount B n) w) =
      unat (npr ! i) + unat (scaled_need (read_amount B n) w)" for i
    using unat_u16_bound [of "npr ! i"] scaled_need_le [of "read_amount B n" w]
      unat_u16_bound [of "read_amount B n"]
    by (simp add: unat_add_small)
  show ?case
  proof (cases "read_amount B n = 0 \<or> n_resource n \<ge> m")
    case True
    then have "unat (n_resource n) = r \<Longrightarrow> read_amount B n = 0"
      using Cons.prems(2) by (auto simp: word_le_nat_alt)
    with True Cons show ?thesis by (auto simp: Let_def need_byte_def child_cost_def)
  next
    case False
    then have e: "add_child_needs B m w (n # ns) npr = add_child_needs B m w ns npr1"
      by (simp add: Let_def need_byte_def npr1_def)
    have "unat (npr1 ! r) = (if unat (n_resource n) = r
        then min 65535 (unat (npr ! r) + unat (scaled_need (read_amount B n) w)) else unat (npr ! r))"
      using Cons.prems(1) by (simp add: npr1_def nth_list_update unat_sat16 s)
    moreover have "unat (add_child_needs B m w ns npr1 ! r) = min 65535 (unat (npr1 ! r) + child_cost B w ns r)"
      using Cons.prems by (intro Cons.IH) (simp_all add: npr1_def)
    ultimately show ?thesis
      using False unfolding e by (simp add: child_cost_def min_add_min add.assoc)
  qed
qed

lemma cascade_scan_npr:
  assumes "cascade_scan B b cur d vis es st npr = (st', npr')"
  shows "length npr' = length npr"
    and "r < length npr \<Longrightarrow> r < unat (b_max_resources b) \<Longrightarrow>
         unat (npr' ! r) = min 65535 (unat (npr ! r) + edges_cost B b (filter (edge_followed b vis cur) es) r)"
proof -
  have "length npr' = length npr \<and>
      (r < length npr \<longrightarrow> r < unat (b_max_resources b) \<longrightarrow>
         unat (npr' ! r) = min 65535 (unat (npr ! r) + edges_cost B b (filter (edge_followed b vis cur) es) r))"
    using assms
  proof (induction es arbitrary: st npr)
    case Nil
    then show ?case using unat_u16_bound [of "npr ! r"] by (simp add: edges_cost_def)
  next
    case (Cons ed es)
    show ?case
    proof (cases "edge_followed b vis cur ed")
      case False
      with Cons show ?thesis by simp
    next
      case True
      let ?npr = "add_child_needs B (b_max_resources b) (e_weight_q8 ed) (op_needs b (e_child ed)) npr"
      from Cons.prems True have "cascade_scan B b cur d vis es
          (if length st < LOXBUDGET_MAX_OPS then (e_child ed, d + 1) # st else st) ?npr = (st', npr')"
        by simp
      from Cons.IH [OF this] True show ?thesis
        by (auto simp: add_child_needs_nth edges_cost_def min_add_min add.assoc)
    qed
  qed
  then show "length npr' = length npr"
    and "r < length npr \<Longrightarrow> r < unat (b_max_resources b) \<Longrightarrow>
         unat (npr' ! r) = min 65535 (unat (npr ! r) + edges_cost B b (filter (edge_followed b vis cur) es) r)"
    by auto
qed

lemma cascade_scan_stack:
  "cascade_scan B b cur d vis es st npr = (st', npr') \<Longrightarrow>
   (length st \<le> LOXBUDGET_MAX_OPS \<longrightarrow> length st' \<le> LOXBUDGET_MAX_OPS) \<and>
   ((\<forall>(v, d)\<in>set st. v < b_max_ops b) \<longrightarrow> (\<forall>(v, d)\<in>set st'. v < b_max_ops b))"
proof (induction es arbitrary: st npr)
  case Nil
  then show ?case by simp
next
  case (Cons ed es)
  show ?case
  proof (cases "edge_followed b vis cur ed")
    case False
    with Cons show ?thesis by simp
  next
    case True
    then have "e_child ed < b_max_ops b" by (simp add: edge_followed_def not_le)
    with True Cons.prems Cons.IH [where st = "if length st < LOXBUDGET_MAX_OPS then (e_child ed, d + 1) # st else st"]
    show ?thesis by (auto split: if_splits)
  qed
qed

text \<open>The accumulators only grow.\<close>

definition grows :: "u8 \<Rightarrow> u16 list \<Rightarrow> u16 list \<Rightarrow> bool" where
  "grows m npr npr' \<longleftrightarrow> length npr' = length npr \<and> (\<forall>r < length npr. r < unat m \<longrightarrow> npr ! r \<le> npr' ! r)"

lemma grows_refl [simp]: "grows m npr npr"
  by (simp add: grows_def)

lemma grows_trans: "grows m a b \<Longrightarrow> grows m b c \<Longrightarrow> grows m a c"
  by (auto simp: grows_def intro: order_trans)

lemma cascade_scan_grows:
  assumes "cascade_scan B b cur d vis es st npr = (st', npr')"
  shows "grows (b_max_resources b) npr npr'"
  using cascade_scan_npr [OF assms] unat_u16_bound
  by (auto simp: grows_def word_le_nat_alt min_def less_Suc_eq_le [symmetric])

lemma cascade_loop_returns:
  assumes "length vis = (unat (b_max_ops b) + 7) div 8" "\<forall>(v, d)\<in>set st. v < b_max_ops b"
    and "length st \<le> LOXBUDGET_MAX_OPS" and "17 * bitmap.missing (b_max_ops b) vis + length st < k"
  shows "\<exists>vis' npr'. cascade_loop k B b st vis npr = Some (vis', npr') \<and> length vis' = length vis \<and>
           grows (b_max_resources b) npr npr'"
  using assms
proof (induction k arbitrary: st vis npr)
  case 0
  then show ?case by simp
next
  case (Suc k)
  let ?n = "b_max_ops b"
  show ?case
  proof (cases st)
    case Nil
    then show ?thesis by simp
  next
    case (Cons x rest)
    obtain cur d where x: "x = (cur, d)" by (cases x)
    show ?thesis
    proof (cases "lb__visit_test vis (ucast cur)")
      case True
      have "\<exists>vis' npr'. cascade_loop k B b rest vis npr = Some (vis', npr') \<and> length vis' = length vis \<and>
           grows (b_max_resources b) npr npr'"
        using Suc.prems Cons by (intro Suc.IH) auto
      with True Cons x show ?thesis by simp
    next
      case False
      let ?vis = "lb__visit_set vis (ucast cur)"
      have cur: "cur \<in> ops_below ?n" using Suc.prems(2) Cons x by (simp add: ops_below_def)
      have l: "length ?vis = (unat ?n + 7) div 8"
        by (rule bitmap.inv_add [OF Suc.prems(1)])
      have m: "Suc (bitmap.missing ?n ?vis) = bitmap.missing ?n vis"
        by (rule bitmap.missing_add [OF Suc.prems(1) cur False])
      show ?thesis
      proof (cases "d \<ge> LOXBUDGET_CAUSALITY_MAX_DEPTH")
        case True
        have "\<exists>vis' npr'. cascade_loop k B b rest ?vis npr = Some (vis', npr') \<and> length vis' = length ?vis \<and>
           grows (b_max_resources b) npr npr'"
          using Suc.prems(2-4) Cons l m by (intro Suc.IH) auto
        with True False Cons x l Suc.prems(1) show ?thesis by (simp add: Let_def)
      next
        case shallow: False
        obtain st' npr1 where s: "cascade_scan B b cur d ?vis (live_edges b) rest npr = (st', npr1)"
          by fastforce
        have "length st' \<le> LOXBUDGET_MAX_OPS \<and> (\<forall>(v, d)\<in>set st'. v < ?n)"
          using cascade_scan_stack [OF s] Suc.prems(2,3) Cons by auto
        then have "\<exists>vis' npr'. cascade_loop k B b st' ?vis npr1 = Some (vis', npr') \<and> length vis' = length ?vis \<and>
           grows (b_max_resources b) npr1 npr'"
          using Suc.prems(4) l m Cons by (intro Suc.IH) auto
        with shallow False Cons x l Suc.prems(1) s cascade_scan_grows [OF s] show ?thesis
          by (auto simp: Let_def intro: grows_trans)
      qed
    qed
  qed
qed

section \<open>What is counted\<close>

definition direct_edges :: "loxbudget \<Rightarrow> u8 \<Rightarrow> causality_edge list" where
  "direct_edges b root =
     filter (\<lambda>ed. e_parent ed = root \<and> e_weight_q8 ed \<noteq> 0 \<and> \<not> e_child ed \<ge> b_max_ops b \<and>
        \<not> (e_weight_q8 ed = ucast LOXBUDGET_TRIGGER_RARE \<and> b_pressure b < u8_of_pressure LOXBUDGET_PRESSURE_CRITICAL))
       (live_edges b)"

text \<open>The condition under which the walk finds its tables.\<close>

definition cascade_ready :: "build \<Rightarrow> loxbudget \<Rightarrow> bool" where
  "cascade_ready B b \<longleftrightarrow>
     graph_shape b \<and> edges_ok (b_max_ops b) (live_edges b) \<and> lb__causality_has_storage' B b"

lemma add_scaled_needs_result:
  assumes "cascade_ready B b" "root < b_max_ops b"
  shows "\<exists>vis npr'. lb__causality_add_scaled_needs B b root npr = (True, vis, npr') \<and>
           length vis = length (t_visited b) \<and> grows (b_max_resources b) npr npr' \<and>
           (\<forall>r < length npr. r < unat (b_max_resources b) \<longrightarrow>
              min 65535 (unat (npr ! r) + edges_cost B b (direct_edges b root) r) \<le> unat (npr' ! r))"
proof -
  let ?n = "b_max_ops b" and ?v = "lb__visit_clear (t_visited b) (ucast (b_max_ops b))"
  let ?v1 = "lb__visit_set ?v (ucast root)"
  have g: "length (t_visited b) = (unat ?n + 7) div 8" "unat ?n \<le> LOXBUDGET_MAX_OPS"
    and ok: "edges_ok ?n (live_edges b)"
    using assms(1) by (auto simp: cascade_ready_def graph_shape_def)
  have root: "root \<in> ops_below ?n" using assms(2) by (simp add: ops_below_def)
  have v: "length ?v = (unat ?n + 7) div 8" by (rule bitmap.inv_clear [OF g(1)])
  have v1: "length ?v1 = (unat ?n + 7) div 8" by (rule bitmap.inv_add [OF v])
  have fresh: "\<not> lb__visit_test ?v (ucast root)" by (rule bitmap.test_clear [OF g(1) root])
  have t: "lb__visit_test ?v1 (ucast x) \<longleftrightarrow> x = root" if "x < ?n" for x :: u8
    using bitmap.test_add [OF v root, of x] bitmap.test_clear [OF g(1), of x] that
    by (simp add: ops_below_def)
  have "filter (edge_followed b ?v1 root) (live_edges b) = direct_edges b root"
    unfolding direct_edges_def
    by (rule filter_cong) (use ok t in \<open>auto simp: edge_followed_def edges_ok_def list_all_iff\<close>)
  note filt = this
  obtain st npr1 where s: "cascade_scan B b root 0 ?v1 (live_edges b) [] npr = (st, npr1)"
    by fastforce
  have st: "length st \<le> LOXBUDGET_MAX_OPS" "\<forall>(v, d)\<in>set st. v < ?n"
    using cascade_scan_stack [OF s] by auto
  have m: "Suc (bitmap.missing ?n ?v1) = bitmap.missing ?n ?v"
    by (rule bitmap.missing_add [OF v root fresh])
  have "bitmap.missing ?n ?v \<le> unat ?n"
    using bitmap.missing_le [of ?n ?v] card_ops_below [of ?n] by simp
  obtain k where k: "walk_fuel = Suc k" "k = 299" by (simp add: walk_fuel_def)
  with \<open>bitmap.missing ?n ?v \<le> unat ?n\<close> have fuel: "17 * bitmap.missing ?n ?v1 + length st < k"
    using g(2) st(1) m by simp
  obtain vis npr' where l: "cascade_loop k B b st ?v1 npr1 = Some (vis, npr')" "length vis = length ?v1"
      "grows (b_max_resources b) npr1 npr'"
    using cascade_loop_returns [OF v1 st(2,1) fuel] by blast
  have "cascade_loop walk_fuel B b [(root, 0)] ?v npr = Some (vis, npr')"
    unfolding k(1) using fresh s l(1) by (simp add: Let_def)
  moreover have "\<not> ?n \<le> root" using assms(2) by (simp add: not_le)
  ultimately have "lb__causality_add_scaled_needs B b root npr = (True, vis, npr')"
    using assms(1) by (simp add: lb__causality_add_scaled_needs_def cascade_ready_def Let_def)
  moreover have "min 65535 (unat (npr ! r) + edges_cost B b (direct_edges b root) r) \<le> unat (npr' ! r)"
    if "r < length npr" "r < unat (b_max_resources b)" for r
    using cascade_scan_npr [OF s] that l(3) by (simp add: filt grows_def word_le_nat_alt)
  moreover have "grows (b_max_resources b) npr npr'"
    using cascade_scan_grows [OF s] l(3) by (rule grows_trans)
  ultimately show ?thesis using l(2) v1 g(1) by auto
qed

lemma no_children_no_cost:
  assumes "cascade_ready B b" "root < b_max_ops b" "direct_edges b root = []"
  shows "\<exists>vis. lb__causality_add_scaled_needs B b root npr = (True, vis, npr)"
proof -
  let ?n = "b_max_ops b" and ?v = "lb__visit_clear (t_visited b) (ucast (b_max_ops b))"
  let ?v1 = "lb__visit_set ?v (ucast root)"
  have g: "length (t_visited b) = (unat ?n + 7) div 8"
    using assms(1) by (auto simp: cascade_ready_def graph_shape_def)
  have fresh: "\<not> lb__visit_test ?v (ucast root)"
    using assms(2) by (intro bitmap.test_clear [OF g]) (simp add: ops_below_def)
  have scan: "cascade_scan B b root 0 vis es [] npr = ([], npr)"
    if "filter (\<lambda>ed. e_parent ed = root \<and> e_weight_q8 ed \<noteq> 0 \<and> \<not> e_child ed \<ge> b_max_ops b \<and>
        \<not> (e_weight_q8 ed = ucast LOXBUDGET_TRIGGER_RARE \<and> b_pressure b < u8_of_pressure LOXBUDGET_PRESSURE_CRITICAL)) es = []"
    for es vis
    using that by (induction es) (auto simp: edge_followed_def split: if_splits)
  obtain k where k: "walk_fuel = Suc (Suc k)" 
    by (rule that [of 298]) (simp add: walk_fuel_def)
  have "cascade_loop walk_fuel B b [(root, 0)] ?v npr = Some (?v1, npr)"
    unfolding k using fresh scan [OF assms(3) [unfolded direct_edges_def]] by (simp add: Let_def)
  moreover have "\<not> ?n \<le> root" using assms(2) by (simp add: not_le)
  ultimately show ?thesis
    using assms(1) by (simp add: lb__causality_add_scaled_needs_def cascade_ready_def Let_def)
qed

text \<open>
  C19. The cascade walk always terminates within its fuel, never lowers an accumulator, and adds at
  least the scaled needs of every operation that the decided one may trigger directly (at
  the current pressure), up to the saturation at 65535.
\<close>

theorem cascade_counts_direct_children:
  assumes "cascade_ready B b" and "root < b_max_ops b"
  shows "\<exists>vis npr'. lb__causality_add_scaled_needs B b root npr = (True, vis, npr') \<and>
     (\<forall>r < length npr. r < unat (b_max_resources b) \<longrightarrow>
        npr ! r \<le> npr' ! r \<and>
        min 65535 (unat (npr ! r) + edges_cost B b (direct_edges b root) r) \<le> unat (npr' ! r))"
  using add_scaled_needs_result [OF assms, of npr] by (auto simp: grows_def)

theorem cascade_counts_direct_children_witness:
  "\<exists>vis npr'. lb__causality_add_scaled_needs graph_build wide_ops 7 (replicate 8 5) = (True, vis, npr') \<and> npr' ! 0 \<ge> 5"
proof -
  have facts: "lb__causality_has_storage' graph_build wide_ops" "t_edge_count wide_ops = 0"
    "b_max_ops wide_ops = 16" "b_max_resources wide_ops = 1"
    by code_simp+
  have "graph_shape wide_ops"
    using wide_ops_shape by (intro shape_graph) (auto simp: fixed_build_def graph_build_def)
  then have "cascade_ready graph_build wide_ops"
    using facts by (simp add: cascade_ready_def edges_ok_def live_edges_def)
  from cascade_counts_direct_children [OF this, of 7 "replicate 8 5"] show ?thesis
    by (auto simp: facts)
qed

end
