(* ===== verification/LB_Decision.thy ===== *)
theory LB_Decision
  imports LB_Audit LB_Rate_Api LB_Cascade
begin

text \<open>
  The decision engine \<open>loxbudget_check\<close> (\<open>src/loxbudget_core.c\<close>), stage by stage in
  the order of the code: unknown operation, pressure and lockdown, HAL preconditions,
  the needs with their rate windows, the causal cascade, and the common tail that counts,
  records and reports the decision. A stage answers \<open>Some d\<close> with the denial it makes or
  \<open>None\<close> to go on.
\<close>

section \<open>Definitions\<close>

subsection \<open>Writing the decision\<close>

text \<open>\<open>memset(out, 0, sizeof *out)\<close> and the first two assignments.\<close>

definition init_decision :: "loxbudget \<Rightarrow> loxbudget_decision" where
  "init_decision b =
     \<lparr>d_action = action_of_u8 0, d_pressure = pressure_of_u8 (b_pressure b), d_denied_resource = 0xFF,
      d_requested = 0, d_available = 0, d_reason = LOXBUDGET_REASON_OK\<rparr>"

definition deny :: "loxbudget_decision \<Rightarrow> loxbudget_action \<Rightarrow> loxbudget_reason \<Rightarrow> loxbudget_decision" where
  "deny d a r = d\<lparr>d_action := a, d_reason := r\<rparr>"

definition deny_res ::
    "loxbudget_decision \<Rightarrow> loxbudget_action \<Rightarrow> loxbudget_reason \<Rightarrow> u8 \<Rightarrow> u16 \<Rightarrow> u16 \<Rightarrow> loxbudget_decision" where
  "deny_res d a r res req av =
     d\<lparr>d_action := a, d_reason := r, d_denied_resource := res, d_requested := req, d_available := av\<rparr>"

subsection \<open>Pressure\<close>

definition check_pressure ::
    "loxbudget \<Rightarrow> loxbudget_op_profile \<Rightarrow> loxbudget_decision \<Rightarrow> loxbudget_decision option" where
  "check_pressure b p d =
     (if b_pressure b = u8_of_pressure LOXBUDGET_PRESSURE_LOCKDOWN \<and>
         \<not> has_flag (p_flags p) LOXBUDGET_OPF_LOCKDOWN_PASS
      then Some (deny d LOXBUDGET_LOCKDOWN LOXBUDGET_REASON_LOCKDOWN_ACTIVE)
      else if d_action d = LOXBUDGET_WAIT \<or> d_action d = LOXBUDGET_REJECT \<or> d_action d = LOXBUDGET_LOCKDOWN
      then Some (d\<lparr>d_reason := (if d_action d = LOXBUDGET_LOCKDOWN then LOXBUDGET_REASON_LOCKDOWN_ACTIVE
                               else LOXBUDGET_REASON_PRESSURE_BLOCK)\<rparr>)
      else None)"

subsection \<open>HAL preconditions\<close>

definition check_hal1 ::
    "u8 \<Rightarrow> u8 \<Rightarrow> ('e \<Rightarrow> u8 \<times> 'e) \<Rightarrow> loxbudget_decision \<Rightarrow> 'e \<Rightarrow> loxbudget_decision option \<times> 'e" where
  "check_hal1 flags flag query d e =
     (if \<not> has_flag flags flag then (None, e)
      else case query e of (v, e') \<Rightarrow>
        (if v = 2 then Some (deny d LOXBUDGET_REJECT LOXBUDGET_REASON_HAL_NOT_CONFIGURED)
         else if v = 0 then Some (deny d LOXBUDGET_REJECT LOXBUDGET_REASON_PRECONDITION_FAIL)
         else None, e'))"

definition check_hal ::
    "'e platform \<Rightarrow> loxbudget \<Rightarrow> loxbudget_op_profile \<Rightarrow> loxbudget_decision \<Rightarrow> 'e \<Rightarrow>
     loxbudget_decision option \<times> 'e" where
  "check_hal P b p d e =
     (case check_hal1 (p_flags p) LOXBUDGET_OPF_REQUIRES_BOOT_PROVEN (loxbudget_hal_boot_proven' P b) d e of
        (Some d', e1) \<Rightarrow> (Some d', e1)
      | (None, e1) \<Rightarrow>
     (case check_hal1 (p_flags p) LOXBUDGET_OPF_REQUIRES_VOLTAGE_OK (loxbudget_hal_voltage_ok' P b) d e1 of
        (Some d', e2) \<Rightarrow> (Some d', e2)
      | (None, e2) \<Rightarrow>
        check_hal1 (p_flags p) LOXBUDGET_OPF_REQUIRES_NETWORK_UP (loxbudget_hal_network_up' P b) d e2))"

subsection \<open>Needs\<close>

text \<open>The four windows in turn; the loop stops at the first that refuses, with its roll done.\<close>

fun check_windows :: "build \<Rightarrow> u32 \<Rightarrow> u32 \<Rightarrow> rate_window list \<Rightarrow> rate_window list \<times> bool" where
  "check_windows B now a [] = ([], True)"
| "check_windows B now a (w # ws) =
     (case lb__rate_roll_and_check B w now a of
        (w', False) \<Rightarrow> (w' # ws, False)
      | (w', True) \<Rightarrow> (case check_windows B now a ws of (ws', ok) \<Rightarrow> (w' # ws', ok)))"

definition lifetime_exceeded :: "rate_state \<Rightarrow> u16 \<Rightarrow> bool" where
  "lifetime_exceeded rs a \<longleftrightarrow>
     rs_limit_lifetime rs \<noteq> 0 \<and>
     (rs_consumed_lifetime rs > rs_limit_lifetime rs \<or>
      ucast a > rs_limit_lifetime rs - rs_consumed_lifetime rs)"

definition check_rate ::
    "build \<Rightarrow> u32 \<Rightarrow> loxbudget_op_profile \<Rightarrow> loxbudget_resource \<Rightarrow> loxbudget_need \<Rightarrow> rate_state list \<Rightarrow>
     loxbudget_decision \<Rightarrow> loxbudget_decision option \<times> rate_state list" where
  "check_rate B now p r n rt d =
     (if \<not> rate_on B then (None, rt)
      else if \<not> (\<not> has_flag (p_flags p) LOXBUDGET_OPF_BYPASS_RATE_LIMIT \<and>
                kind_of_u8 (r_kind r) = LOXBUDGET_RES_CONSUMABLE)
      then (None, rt)
      else let i = unat (n_resource n); rs = rt ! i in
        if lifetime_exceeded rs (n_amount n)
        then (Some (deny_res d LOXBUDGET_REJECT LOXBUDGET_REASON_LIFETIME_EXHAUSTED (n_resource n) (n_amount n) 0), rt)
        else case check_windows B now (ucast (n_amount n)) (rs_windows rs) of (ws, ok) \<Rightarrow>
          (if ok then None
           else Some (deny_res d LOXBUDGET_REJECT LOXBUDGET_REASON_RATE_LIMIT (n_resource n) (n_amount n) 0),
           rt[i := rs\<lparr>rs_windows := ws\<rparr>]))"

text \<open>One turn of the loop over the needs; \<open>npr\<close> is \<open>need_per_res\<close>, \<open>rt\<close> the rate table.\<close>

definition check_need ::
    "build \<Rightarrow> loxbudget \<Rightarrow> u32 \<Rightarrow> loxbudget_op_profile \<Rightarrow> loxbudget_decision \<Rightarrow> loxbudget_need \<Rightarrow>
     u16 list \<Rightarrow> rate_state list \<Rightarrow> loxbudget_decision option \<times> u16 list \<times> rate_state list" where
  "check_need B b now p d n npr rt =
     (if n_amount n = 0 then (None, npr, rt)
      else if n_resource n \<ge> b_max_resources b \<or> t_res_cfg b ! unat (n_resource n) = 0
      then (Some (deny_res d LOXBUDGET_REJECT LOXBUDGET_REASON_INSUFFICIENT_RES (n_resource n) (n_amount n) 0), npr, rt)
      else let i = unat (n_resource n); r = t_resources b ! i in
        if kind_of_u8 (r_kind r) = LOXBUDGET_RES_STATE
        then (if r_limit r = 0
              then Some (deny_res d LOXBUDGET_REJECT LOXBUDGET_REASON_PRECONDITION_FAIL (n_resource n) (n_amount n) 0)
              else None, npr, rt)
        else let npr' = npr[i := sat16 (ucast (npr ! i) + ucast (n_amount n))];
                 avail = available r
          in if avail < n_amount n
             then (Some (deny_res d (if kind_of_u8 (r_kind r) = LOXBUDGET_RES_REUSABLE then LOXBUDGET_WAIT
                                     else LOXBUDGET_REJECT)
                           LOXBUDGET_REASON_INSUFFICIENT_RES (n_resource n) (n_amount n) avail), npr', rt)
             else case check_rate B now p r n rt d of (dd, rt') \<Rightarrow> (dd, npr', rt'))"

fun check_needs ::
    "build \<Rightarrow> loxbudget \<Rightarrow> u32 \<Rightarrow> loxbudget_op_profile \<Rightarrow> loxbudget_decision \<Rightarrow> loxbudget_need list \<Rightarrow>
     u16 list \<Rightarrow> rate_state list \<Rightarrow> loxbudget_decision option \<times> u16 list \<times> rate_state list" where
  "check_needs B b now p d [] npr rt = (None, npr, rt)"
| "check_needs B b now p d (n # ns) npr rt =
     (case check_need B b now p d n npr rt of
        (Some d', npr', rt') \<Rightarrow> (Some d', npr', rt')
      | (None, npr', rt') \<Rightarrow> check_needs B b now p d ns npr' rt')"

subsection \<open>Causal cascade\<close>

definition check_cascade1 :: "loxbudget \<Rightarrow> u16 list \<Rightarrow> loxbudget_decision \<Rightarrow> nat \<Rightarrow> loxbudget_decision option" where
  "check_cascade1 b npr d rid =
     (let req = npr ! rid in
      if req = 0 then None
      else if t_res_cfg b ! rid = 0 then None
      else let r = t_resources b ! rid in
        if kind_of_u8 (r_kind r) = LOXBUDGET_RES_STATE
        then (if r_limit r = 0
              then Some (deny_res d LOXBUDGET_REJECT LOXBUDGET_REASON_CAUSAL_CASCADE (of_nat rid) req 0)
              else None)
        else let avail = available r in
          if avail < req
          then Some (deny_res d (if kind_of_u8 (r_kind r) = LOXBUDGET_RES_REUSABLE then LOXBUDGET_WAIT
                                 else LOXBUDGET_REJECT)
                       LOXBUDGET_REASON_CAUSAL_CASCADE (of_nat rid) req avail)
          else None)"

fun check_cascade_from :: "loxbudget \<Rightarrow> u16 list \<Rightarrow> loxbudget_decision \<Rightarrow> nat list \<Rightarrow> loxbudget_decision option" where
  "check_cascade_from b npr d [] = None"
| "check_cascade_from b npr d (rid # rids) =
     (case check_cascade1 b npr d rid of
        Some d' \<Rightarrow> Some d'
      | None \<Rightarrow> check_cascade_from b npr d rids)"

text \<open>The second component is the bitmap the walk leaves in the storage.\<close>

definition check_cascade ::
    "build \<Rightarrow> loxbudget \<Rightarrow> u8 \<Rightarrow> u16 list \<Rightarrow> loxbudget_decision \<Rightarrow> loxbudget_decision option \<times> u8 list" where
  "check_cascade B b op npr d =
     (if \<not> causality_on B then (None, t_visited b)
      else case lb__causality_add_scaled_needs B b op npr of (walked, visited, npr') \<Rightarrow>
        (if walked then check_cascade_from b npr' d [0..<unat (b_max_resources b)] else None, visited))"

subsection \<open>The decision and its tail\<close>

text \<open>
  The verdict: the decision, whether it is the grant at the end of the function, the
  instance with its windows rolled and the bitmap used, and the environment.
\<close>

definition check_verdict ::
    "build \<Rightarrow> 'e platform \<Rightarrow> loxbudget \<Rightarrow> u8 \<Rightarrow> 'e \<Rightarrow> loxbudget_decision \<times> bool \<times> loxbudget \<times> 'e" where
  "check_verdict B P b op e =
     (let d0 = init_decision b in
      case loxbudget_profile_c b op of
        None \<Rightarrow> (deny d0 LOXBUDGET_REJECT LOXBUDGET_REASON_UNKNOWN_OP, False, b, e)
      | Some p \<Rightarrow>
          let d = d0\<lparr>d_action := action_of_u8 (loxbudget_mapped_action p (b_pressure b))\<rparr> in
          case check_pressure b p d of
            Some d' \<Rightarrow> (d', False, b, e)
          | None \<Rightarrow>
              (case check_hal P b p d e of
                 (Some d', e1) \<Rightarrow> (d', False, b, e1)
               | (None, e1) \<Rightarrow>
                   (case (if rate_on B then loxbudget_hal_now_ms' P b e1 else (0, e1)) of
                      (now, e2) \<Rightarrow>
                   (case check_needs B b now p d (op_needs b op) (replicate LOXBUDGET_MAX_RESOURCES 0) (t_rate b) of
                      (Some d', npr, rt) \<Rightarrow> (d', False, b\<lparr>t_rate := rt\<rparr>, e2)
                    | (None, npr, rt) \<Rightarrow>
                        (case check_cascade B b op npr d of
                           (Some d', visited) \<Rightarrow> (d', False, b\<lparr>t_rate := rt, t_visited := visited\<rparr>, e2)
                         | (None, visited) \<Rightarrow>
                             (d\<lparr>d_reason := LOXBUDGET_REASON_OK\<rparr>, True,
                              b\<lparr>t_rate := rt, t_visited := visited\<rparr>, e2))))))"

definition check_count :: "loxbudget \<Rightarrow> loxbudget_decision \<Rightarrow> bool \<Rightarrow> loxbudget" where
  "check_count b d granted =
     (let b1 = b\<lparr>b_total_decisions := b_total_decisions b + 1\<rparr> in
      if granted
      then (if d_action d = LOXBUDGET_ALLOW_DEGRADED
            then b1\<lparr>b_total_degradations := b_total_degradations b + 1, b_total_grants := b_total_grants b + 1\<rparr>
            else b1\<lparr>b_total_grants := b_total_grants b + 1\<rparr>)
      else b1\<lparr>b_total_denials := b_total_denials b + 1\<rparr>)"

text \<open>Every exit counts, records and reports the decision in this order.\<close>

definition check_finish ::
    "build \<Rightarrow> 'e platform \<Rightarrow> loxbudget \<Rightarrow> u8 \<Rightarrow> loxbudget_decision \<Rightarrow> bool \<Rightarrow> 'e \<Rightarrow> loxbudget \<times> 'e" where
  "check_finish B P b op d granted e =
     (case loxbudget_audit_record B P (check_count b d granted) op d e of
        (b2, e2) \<Rightarrow> (b2, run_hook P b2 d op e2))"

definition loxbudget_check ::
    "build \<Rightarrow> 'e platform \<Rightarrow> loxbudget \<Rightarrow> u8 \<Rightarrow> bool \<Rightarrow> 'e \<Rightarrow>
     loxbudget_status \<times> loxbudget_decision option \<times> loxbudget \<times> 'e" where
  "loxbudget_check B P b op out_ok e =
     (let st = loxbudget_validate_budget (Some b) in
      if st \<noteq> LOXBUDGET_OK \<or> \<not> out_ok
      then (if \<not> out_ok then LOXBUDGET_ERR_INVALID_ARG else st, None, b, e)
      else case check_verdict B P b op e of (d, granted, b1, e1) \<Rightarrow>
        (case check_finish B P b1 op d granted e1 of (b2, e2) \<Rightarrow> (LOXBUDGET_OK, Some d, b2, e2)))"

section \<open>What a check changes\<close>

text \<open>The stages touch the rate table and the bitmap only, and keep their sizes.\<close>

lemma check_windows_length: "length (fst (check_windows B now a ws)) = length ws"
  by (induction ws) (auto split: prod.splits bool.splits)

lemma check_windows_ok: "snd (check_windows B now a ws) \<longleftrightarrow> (\<forall>w\<in>set ws. snd (lb__rate_roll_and_check B w now a))"
  by (induction ws) (auto split: prod.splits bool.splits)

definition rates_like :: "rate_state list \<Rightarrow> rate_state list \<Rightarrow> bool" where
  "rates_like rt rt' \<longleftrightarrow>
     length rt' = length rt \<and>
     (\<forall>i < length rt. \<exists>ws. rt' ! i = (rt ! i)\<lparr>rs_windows := ws\<rparr> \<and> length ws = length (rs_windows (rt ! i)))"

lemma rates_like_refl [simp]: "rates_like rt rt"
  unfolding rates_like_def
proof (intro conjI allI impI)
  show "\<exists>ws. rt ! i = (rt ! i)\<lparr>rs_windows := ws\<rparr> \<and> length ws = length (rs_windows (rt ! i))" for i
    by (rule exI [of _ "rs_windows (rt ! i)"]) simp
qed simp

lemma rates_like_trans:
  assumes "rates_like a b" "rates_like b c"
  shows "rates_like a c"
proof -
  have "\<exists>ws. c ! i = (a ! i)\<lparr>rs_windows := ws\<rparr> \<and> length ws = length (rs_windows (a ! i))" if i: "i < length a" for i
  proof -
    obtain u where u: "b ! i = (a ! i)\<lparr>rs_windows := u\<rparr>" "length u = length (rs_windows (a ! i))"
      using assms(1) i by (auto simp: rates_like_def)
    obtain v where "c ! i = (b ! i)\<lparr>rs_windows := v\<rparr>" "length v = length (rs_windows (b ! i))"
      using assms i by (auto simp: rates_like_def)
    with u show ?thesis by auto
  qed
  with assms show ?thesis by (simp add: rates_like_def)
qed

lemma rates_like_update:
  "length ws = length (rs_windows (rt ! i)) \<Longrightarrow> rates_like rt (rt[i := (rt ! i)\<lparr>rs_windows := ws\<rparr>])"
proof -
  assume l: "length ws = length (rs_windows (rt ! i))"
  have "\<exists>vs. rt[i := (rt ! i)\<lparr>rs_windows := ws\<rparr>] ! j = (rt ! j)\<lparr>rs_windows := vs\<rparr> \<and>
      length vs = length (rs_windows (rt ! j))" if j: "j < length rt" for j
  proof (cases "i = j")
    case True
    with j l show ?thesis by auto
  next
    case False
    have "rt ! j = (rt ! j)\<lparr>rs_windows := rs_windows (rt ! j)\<rparr>" by simp
    with False show ?thesis by (metis nth_list_update_neq)
  qed
  then show ?thesis by (simp add: rates_like_def)
qed

lemma rates_like_ok: "rates_like rt rt' \<Longrightarrow> rate_table_ok rt \<Longrightarrow> rate_table_ok rt'"
  unfolding rates_like_def rate_table_ok_def list_all_length by fastforce

lemma check_rate_like: "rates_like rt (snd (check_rate B now p r n rt d))"
  by (auto simp: check_rate_def Let_def check_windows_length split: prod.splits
      intro!: rates_like_update dest: arg_cong [where f = fst] intro: check_windows_length [THEN trans, rotated])
     (metis check_windows_length fst_conv)

lemma check_need_like: "rates_like rt (snd (snd (check_need B b now p d n npr rt)))"
  using check_rate_like [of rt B now p "t_resources b ! unat (n_resource n)" n d]
  by (auto simp: check_need_def Let_def split: prod.splits)

lemma check_needs_like: "rates_like rt (snd (snd (check_needs B b now p d ns npr rt)))"
proof (induction ns arbitrary: npr rt)
  case Nil
  then show ?case by simp
next
  case (Cons n ns)
  obtain dd npr1 rt1 where c: "check_need B b now p d n npr rt = (dd, npr1, rt1)"
    by (metis prod.exhaust)
  have "rates_like rt rt1" using check_need_like [of rt B b now p d n npr] by (simp add: c)
  with Cons.IH [of rt1 npr1] c show ?case by (auto split: option.splits intro: rates_like_trans)
qed

lemma add_scaled_needs_bitmap:
  assumes "lb_shape B b" "causality_on B" "edges_ok (b_max_ops b) (live_edges b)"
  shows "length (fst (snd (lb__causality_add_scaled_needs B b op npr))) = length (t_visited b)"
proof (cases "lb__causality_has_storage' B b \<and> op < b_max_ops b")
  case True
  with assms have "cascade_ready B b" by (simp add: cascade_ready_def shape_graph)
  from add_scaled_needs_result [OF this, of op npr] True show ?thesis by auto
next
  case False
  then show ?thesis by (auto simp: lb__causality_add_scaled_needs_def not_le)
qed

lemma check_cascade_bitmap:
  assumes "lb_shape B b" "edges_ok (b_max_ops b) (live_edges b)"
  shows "length (snd (check_cascade B b op npr d)) = length (t_visited b)"
  using add_scaled_needs_bitmap [OF assms(1) _ assms(2), of op npr]
  by (auto simp: check_cascade_def split: prod.splits)

definition scratch_only :: "loxbudget \<Rightarrow> loxbudget \<Rightarrow> bool" where
  "scratch_only b c \<longleftrightarrow>
     (\<exists>rt vis. c = b\<lparr>t_rate := rt, t_visited := vis\<rparr> \<and> rates_like (t_rate b) rt)"

lemma scratch_onlyI:
  "rates_like (t_rate b) rt \<Longrightarrow> scratch_only b (b\<lparr>t_rate := rt\<rparr>)"
  "rates_like (t_rate b) rt \<Longrightarrow> scratch_only b (b\<lparr>t_rate := rt, t_visited := vis\<rparr>)"
  "scratch_only b b"
proof -
  show "rates_like (t_rate b) rt \<Longrightarrow> scratch_only b (b\<lparr>t_rate := rt\<rparr>)"
    unfolding scratch_only_def by (rule exI [of _ rt], rule exI [of _ "t_visited b"]) simp
  show "rates_like (t_rate b) rt \<Longrightarrow> scratch_only b (b\<lparr>t_rate := rt, t_visited := vis\<rparr>)"
    unfolding scratch_only_def by blast
  show "scratch_only b b"
    unfolding scratch_only_def by (rule exI [of _ "t_rate b"], rule exI [of _ "t_visited b"]) simp
qed

text \<open>The stages of the verdict, as one case rule.\<close>

lemma check_verdict_cases:
  assumes "check_verdict B P b op e = (d, g, b1, e1)"
  obtains (unknown) "loxbudget_profile_c b op = None" "\<not> g" "b1 = b" "e1 = e"
      "d = deny (init_decision b) LOXBUDGET_REJECT LOXBUDGET_REASON_UNKNOWN_OP"
  | (pressure) p d0 where "loxbudget_profile_c b op = Some p" "\<not> g" "b1 = b" "e1 = e"
      "d0 = (init_decision b)\<lparr>d_action := action_of_u8 (loxbudget_mapped_action p (b_pressure b))\<rparr>"
      "check_pressure b p d0 = Some d"
  | (hal) p d0 where "loxbudget_profile_c b op = Some p" "\<not> g" "b1 = b"
      "d0 = (init_decision b)\<lparr>d_action := action_of_u8 (loxbudget_mapped_action p (b_pressure b))\<rparr>"
      "check_pressure b p d0 = None" "check_hal P b p d0 e = (Some d, e1)"
  | (needs) p d0 e2 now npr rt where "loxbudget_profile_c b op = Some p" "\<not> g" "b1 = b\<lparr>t_rate := rt\<rparr>"
      "d0 = (init_decision b)\<lparr>d_action := action_of_u8 (loxbudget_mapped_action p (b_pressure b))\<rparr>"
      "check_pressure b p d0 = None" "check_hal P b p d0 e = (None, e2)"
      "(if rate_on B then loxbudget_hal_now_ms' P b e2 else (0, e2)) = (now, e1)"
      "check_needs B b now p d0 (op_needs b op) (replicate LOXBUDGET_MAX_RESOURCES 0) (t_rate b) = (Some d, npr, rt)"
  | (cascade) p d0 e2 now npr rt vis where "loxbudget_profile_c b op = Some p" "\<not> g"
      "b1 = b\<lparr>t_rate := rt, t_visited := vis\<rparr>"
      "d0 = (init_decision b)\<lparr>d_action := action_of_u8 (loxbudget_mapped_action p (b_pressure b))\<rparr>"
      "check_pressure b p d0 = None" "check_hal P b p d0 e = (None, e2)"
      "(if rate_on B then loxbudget_hal_now_ms' P b e2 else (0, e2)) = (now, e1)"
      "check_needs B b now p d0 (op_needs b op) (replicate LOXBUDGET_MAX_RESOURCES 0) (t_rate b) = (None, npr, rt)"
      "check_cascade B b op npr d0 = (Some d, vis)"
  | (granted) p d0 e2 now npr rt vis where "loxbudget_profile_c b op = Some p" "g"
      "b1 = b\<lparr>t_rate := rt, t_visited := vis\<rparr>"
      "d0 = (init_decision b)\<lparr>d_action := action_of_u8 (loxbudget_mapped_action p (b_pressure b))\<rparr>"
      "check_pressure b p d0 = None" "check_hal P b p d0 e = (None, e2)"
      "(if rate_on B then loxbudget_hal_now_ms' P b e2 else (0, e2)) = (now, e1)"
      "check_needs B b now p d0 (op_needs b op) (replicate LOXBUDGET_MAX_RESOURCES 0) (t_rate b) = (None, npr, rt)"
      "check_cascade B b op npr d0 = (None, vis)" "d = d0\<lparr>d_reason := LOXBUDGET_REASON_OK\<rparr>"
proof (cases "loxbudget_profile_c b op")
  case None
  have eq: "(deny (init_decision b) LOXBUDGET_REJECT LOXBUDGET_REASON_UNKNOWN_OP, False, b, e) = (d, g, b1, e1)"
    using assms unfolding check_verdict_def Let_def None option.case .
  then have "d = deny (init_decision b) LOXBUDGET_REJECT LOXBUDGET_REASON_UNKNOWN_OP" "\<not> g" "b1 = b" "e1 = e"
    by (metis prod.inject)+
  with None show thesis by (intro unknown) assumption+
next
  case (Some p)
  define d0 where d0: "d0 = (init_decision b)\<lparr>d_action := action_of_u8 (loxbudget_mapped_action p (b_pressure b))\<rparr>"
  let ?clock = "\<lambda>e. if rate_on B then loxbudget_hal_now_ms' P b e else (0, e)"
  let ?needs = "\<lambda>now. check_needs B b now p d0 (op_needs b op) (replicate LOXBUDGET_MAX_RESOURCES 0) (t_rate b)"
  have v: "check_verdict B P b op e = (case check_pressure b p d0 of
        Some d' \<Rightarrow> (d', False, b, e)
      | None \<Rightarrow> (case check_hal P b p d0 e of
          (Some d', e1) \<Rightarrow> (d', False, b, e1)
        | (None, e1) \<Rightarrow> (case ?clock e1 of (now, e2) \<Rightarrow>
           (case ?needs now of
              (Some d', npr, rt) \<Rightarrow> (d', False, b\<lparr>t_rate := rt\<rparr>, e2)
            | (None, npr, rt) \<Rightarrow> (case check_cascade B b op npr d0 of
                (Some d', vis) \<Rightarrow> (d', False, b\<lparr>t_rate := rt, t_visited := vis\<rparr>, e2)
              | (None, vis) \<Rightarrow> (d0\<lparr>d_reason := LOXBUDGET_REASON_OK\<rparr>, True,
                    b\<lparr>t_rate := rt, t_visited := vis\<rparr>, e2))))))"
    unfolding check_verdict_def Let_def Some option.case d0 [symmetric] ..
  show thesis
  proof (cases "check_pressure b p d0")
    case press: (Some d')
    with assms v show thesis by (intro pressure [OF Some _ _ _ d0]) simp_all
  next
    case press: None
    obtain hd e2 where h: "check_hal P b p d0 e = (hd, e2)" by fastforce
    note v = v [unfolded press option.case h prod.case]
    show thesis
    proof (cases hd)
      case hd: (Some d')
      with assms v h show thesis by (intro hal [OF Some _ _ d0 press]) simp_all
    next
      case hn: None
      obtain now e3 where t: "?clock e2 = (now, e3)" by fastforce
      obtain nd npr rt where n: "?needs now = (nd, npr, rt)" by (metis prod.exhaust)
      note v = v [unfolded hn option.case t prod.case n]
      note h = h [unfolded hn]
      show thesis
      proof (cases nd)
        case nd: (Some d')
        note v = v [unfolded nd option.case]
        have "d' = d" "\<not> g" "b\<lparr>t_rate := rt\<rparr> = b1" "e3 = e1" using assms v by simp_all
        with t n nd show thesis by (intro needs [OF Some _ _ d0 press h, where rt = rt and now = now and npr = npr]) simp_all
      next
        case nn: None
        obtain cd vis where c: "check_cascade B b op npr d0 = (cd, vis)" by fastforce
        note v = v [unfolded nn option.case c prod.case]
        note n = n [unfolded nn]
        show thesis
        proof (cases cd)
          case cd: (Some d')
          note v = v [unfolded cd option.case]
          have "d' = d" "\<not> g" "b\<lparr>t_rate := rt, t_visited := vis\<rparr> = b1" "e3 = e1" using assms v by simp_all
          with t n c cd show thesis by (intro cascade [OF Some _ _ d0 press h, where rt = rt and vis = vis and now = now and npr = npr]) simp_all
        next
          case cd: None
          note v = v [unfolded cd option.case]
          have "d0\<lparr>d_reason := LOXBUDGET_REASON_OK\<rparr> = d" "g" "b\<lparr>t_rate := rt, t_visited := vis\<rparr> = b1" "e3 = e1"
            using assms v by simp_all
          with t n c cd show thesis by (intro granted [OF Some _ _ d0 press h, where rt = rt and vis = vis and now = now and npr = npr]) simp_all
        qed
      qed
    qed
  qed
qed

lemma check_verdict_frame:
  assumes "check_verdict B P b op e = (d, g, b1, e1)"
  shows "scratch_only b b1"
  using assms
proof (cases rule: check_verdict_cases)
  case (needs p d0 e2 now npr rt)
  with check_needs_like [of "t_rate b" B b now p d0 "op_needs b op" "replicate LOXBUDGET_MAX_RESOURCES 0"]
  show ?thesis by (simp add: scratch_onlyI)
next
  case (cascade p d0 e2 now npr rt vis)
  with check_needs_like [of "t_rate b" B b now p d0 "op_needs b op" "replicate LOXBUDGET_MAX_RESOURCES 0"]
  show ?thesis by (simp add: scratch_onlyI)
next
  case (granted p d0 e2 now npr rt vis)
  with check_needs_like [of "t_rate b" B b now p d0 "op_needs b op" "replicate LOXBUDGET_MAX_RESOURCES 0"]
  show ?thesis by (simp add: scratch_onlyI)
qed (simp_all add: scratch_onlyI)

text \<open>
  All that a check may change: the counters, the audit ring, the windows of the rate
  table and the bitmap. Resources, leases and configuration stay.
\<close>

definition check_scrub :: "loxbudget \<Rightarrow> loxbudget" where
  "check_scrub c =
     c\<lparr>b_total_decisions := 0, b_total_grants := 0, b_total_denials := 0, b_total_degradations := 0,
       b_audit_head := 0, b_audit_count := 0, t_audit := [], t_rate := [], t_visited := []\<rparr>"

definition check_frame :: "loxbudget \<Rightarrow> loxbudget \<Rightarrow> bool" where
  "check_frame b c \<longleftrightarrow> check_scrub c = check_scrub b \<and> rates_like (t_rate b) (t_rate c)"

lemma check_count_fields [simp]:
  "t_audit (check_count b d g) = t_audit b" "b_audit_head (check_count b d g) = b_audit_head b"
  "b_audit_count (check_count b d g) = b_audit_count b" "b_audit_size (check_count b d g) = b_audit_size b"
  "t_rate (check_count b d g) = t_rate b" "t_visited (check_count b d g) = t_visited b"
  "b_decision_hook (check_count b d g) = b_decision_hook b"
  "b_decision_hook_user (check_count b d g) = b_decision_hook_user b"
  by (simp_all add: check_count_def Let_def)

lemma check_count_hal [simp]: "same_hal b (check_count b d g)"
  by (simp add: check_count_def same_hal_def Let_def)

lemma check_scrub_count [simp]: "check_scrub (check_count b d g) = check_scrub b"
  by (simp add: check_count_def check_scrub_def Let_def)

lemma check_finish_record: "fst (check_finish B P b op d g e) = fst (loxbudget_audit_record B P (check_count b d g) op d e)"
  by (simp add: check_finish_def split_def)

lemma same_but_audit_scrub:
  assumes "same_but_audit b c"
  shows "check_scrub c = check_scrub b \<and> t_rate c = t_rate b \<and> t_visited c = t_visited b"
  using assms by (auto simp: same_but_audit_def check_scrub_def)

lemma check_finish_frame:
  assumes "scratch_only b b1"
  shows "check_frame b (fst (check_finish B P b1 op d g e))"
proof -
  have "check_scrub b1 = check_scrub b" "rates_like (t_rate b) (t_rate b1)"
    using assms by (auto simp: scratch_only_def check_scrub_def)
  then show ?thesis
    using same_but_audit_scrub [OF audit_record_frame [of "check_count b1 d g" B P op d e]]
    by (simp add: check_finish_record check_frame_def)
qed

lemma check_frame_refl [simp]: "check_frame b b"
  by (simp add: check_frame_def)

lemma check_frame_trans: "check_frame a b \<Longrightarrow> check_frame b c \<Longrightarrow> check_frame a c"
  by (auto simp: check_frame_def intro: rates_like_trans)

lemma check_frame_holds: "check_frame b (fst (snd (snd (loxbudget_check B P b op ok e))))"
proof (cases "b_magic b = LOXBUDGET_MAGIC_INIT \<and> ok")
  case True
  obtain d g b1 e1 where v: "check_verdict B P b op e = (d, g, b1, e1)"
    by (metis prod.exhaust)
  with True check_finish_frame [OF check_verdict_frame [OF v], of B P op d g e1] show ?thesis
    by (simp add: loxbudget_check_def split: prod.splits)
next
  case False
  then show ?thesis by (auto simp: loxbudget_check_def)
qed

lemma check_scrub_fields:
  "t_resources (check_scrub c) = t_resources c" "t_lease_slots (check_scrub c) = t_lease_slots c"
  "t_needs (check_scrub c) = t_needs c" "b_pressure (check_scrub c) = b_pressure c"
  "b_max_leases (check_scrub c) = b_max_leases c" "b_magic (check_scrub c) = b_magic c"
  "b_max_resources (check_scrub c) = b_max_resources c" "b_max_ops (check_scrub c) = b_max_ops c"
  "t_edges (check_scrub c) = t_edges c" "t_edge_count (check_scrub c) = t_edge_count c"
  "b_lease_magic_base (check_scrub c) = b_lease_magic_base c" "t_res_cfg (check_scrub c) = t_res_cfg c"
  "t_op_cfg (check_scrub c) = t_op_cfg c" "t_ops (check_scrub c) = t_ops c"
  "b_hal_cb (check_scrub c) = b_hal_cb c" "b_hal_user (check_scrub c) = b_hal_user c"
  "b_hal_strict (check_scrub c) = b_hal_strict c" "b_decision_hook (check_scrub c) = b_decision_hook c"
  "b_decision_hook_user (check_scrub c) = b_decision_hook_user c"
  "b_audit_size (check_scrub c) = b_audit_size c" "b_storage_size (check_scrub c) = b_storage_size c"
  "t_calib (check_scrub c) = t_calib c"
  by (simp_all add: check_scrub_def)

lemma check_frame_fields:
  assumes "check_frame b c"
  shows "t_resources c = t_resources b" "t_lease_slots c = t_lease_slots b" "t_needs c = t_needs b"
    and "b_pressure c = b_pressure b" "b_max_leases c = b_max_leases b" "b_magic c = b_magic b"
    and "b_max_resources c = b_max_resources b" "b_max_ops c = b_max_ops b" "t_edges c = t_edges b"
    and "t_edge_count c = t_edge_count b" "b_lease_magic_base c = b_lease_magic_base b"
    and "t_res_cfg c = t_res_cfg b" "t_op_cfg c = t_op_cfg b" "t_ops c = t_ops b" "b_hal_cb c = b_hal_cb b"
    and "b_hal_user c = b_hal_user b" "b_hal_strict c = b_hal_strict b" "b_decision_hook c = b_decision_hook b"
    and "b_decision_hook_user c = b_decision_hook_user b" "b_audit_size c = b_audit_size b"
    and "b_storage_size c = b_storage_size b" "t_calib c = t_calib b"
proof -
  have s: "check_scrub c = check_scrub b" using assms by (simp add: check_frame_def)
  show "t_resources c = t_resources b" "t_lease_slots c = t_lease_slots b" "t_needs c = t_needs b"
    and "b_pressure c = b_pressure b" "b_max_leases c = b_max_leases b" "b_magic c = b_magic b"
    and "b_max_resources c = b_max_resources b" "b_max_ops c = b_max_ops b" "t_edges c = t_edges b"
    and "t_edge_count c = t_edge_count b" "b_lease_magic_base c = b_lease_magic_base b"
    and "t_res_cfg c = t_res_cfg b" "t_op_cfg c = t_op_cfg b" "t_ops c = t_ops b" "b_hal_cb c = b_hal_cb b"
    and "b_hal_user c = b_hal_user b" "b_hal_strict c = b_hal_strict b" "b_decision_hook c = b_decision_hook b"
    and "b_decision_hook_user c = b_decision_hook_user b" "b_audit_size c = b_audit_size b"
    and "b_storage_size c = b_storage_size b" "t_calib c = t_calib b"
    by (metis s check_scrub_fields)+
qed

lemma check_frame_config: "check_frame b c \<Longrightarrow> same_config b c"
  by (simp add: same_config_def check_frame_fields)

lemma check_frame_hal: "check_frame b c \<Longrightarrow> same_hal b c"
  by (simp add: same_hal_def check_frame_fields)

section \<open>Shape\<close>

lemma scratch_shape:
  assumes "scratch_only b c" "lb_shape B b" "causality_on B \<Longrightarrow> length (t_visited c) = length (t_visited b)"
  shows "lb_shape B c"
proof -
  obtain rt vis where c: "c = b\<lparr>t_rate := rt, t_visited := vis\<rparr>" "rates_like (t_rate b) rt"
    using assms(1) by (auto simp: scratch_only_def)
  have "rate_table_ok rt" "length rt = length (t_rate b)"
    using c(2) shape_rate_table [OF assms(2)] by (auto intro: rates_like_ok simp: rates_like_def)
  with assms(2,3) show ?thesis
    by (simp add: c lb_shape_def size_shape_def audit_shape_def feature_shape_def rate_table_ok_def)
qed

lemma verdict_shape:
  assumes "check_verdict B P b op e = (d, g, b1, e1)" "lb_shape B b" "edges_ok (b_max_ops b) (live_edges b)"
  shows "lb_shape B b1"
proof -
  have "length (t_visited b1) = length (t_visited b)"
    using assms(1)
  proof (cases rule: check_verdict_cases)
    case (needs p d0 e2 now npr rt)
    show ?thesis by (simp add: needs(3))
  next
    case (cascade p d0 e2 now npr rt vis)
    show ?thesis
      using check_cascade_bitmap [OF assms(2,3), of op npr d0] by (simp add: cascade(3,9))
  next
    case (granted p d0 e2 now npr rt vis)
    show ?thesis
      using check_cascade_bitmap [OF assms(2,3), of op npr d0] by (simp add: granted(3,9))
  qed (simp_all only:)
  then show ?thesis by (intro scratch_shape [OF check_verdict_frame [OF assms(1)] assms(2)])
qed

lemma count_shape: "lb_shape B (check_count b d g) = lb_shape B b"
proof -
  have "lb_shape B (b\<lparr>b_total_decisions := n1, b_total_degradations := n2, b_total_grants := n3\<rparr>) = lb_shape B b"
    "lb_shape B (b\<lparr>b_total_decisions := n1, b_total_grants := n2\<rparr>) = lb_shape B b"
    "lb_shape B (b\<lparr>b_total_decisions := n1, b_total_denials := n2\<rparr>) = lb_shape B b" for n1 n2 n3
    by (simp_all add: lb_shape_def size_shape_def audit_shape_def feature_shape_def)
  then show ?thesis by (simp add: check_count_def Let_def)
qed

lemma same_but_audit_shape:
  assumes "same_but_audit b c" "lb_shape B b" "audit_shape c"
  shows "lb_shape B c"
proof -
  obtain ring head n where "c = b\<lparr>t_audit := ring, b_audit_head := head, b_audit_count := n\<rparr>"
    using assms(1) by (auto simp: same_but_audit_def)
  then have "size_shape c = size_shape b" "feature_shape B c = feature_shape B b"
    by (simp_all add: size_shape_def feature_shape_def)
  with assms(2,3) show ?thesis by (simp add: lb_shape_def)
qed

lemma check_shape:
  assumes "lb_shape B b" "edges_ok (b_max_ops b) (live_edges b)"
  shows "lb_shape B (fst (snd (snd (loxbudget_check B P b op ok e))))"
proof (cases "b_magic b = LOXBUDGET_MAGIC_INIT \<and> ok")
  case True
  obtain d g b1 e1 where v: "check_verdict B P b op e = (d, g, b1, e1)"
    by (metis prod.exhaust)
  let ?c = "check_count b1 d g"
  have s: "lb_shape B ?c"
    using verdict_shape [OF v assms] by (simp add: count_shape)
  have "audit_shape ?c" using s by (simp add: lb_shape_def)
  then have "audit_shape (fst (loxbudget_audit_record B P ?c op d e1))"
    by (rule audit_record_shape)
  then have "lb_shape B (fst (loxbudget_audit_record B P ?c op d e1))"
    by (rule same_but_audit_shape [OF audit_record_frame s])
  with True v show ?thesis
    by (simp add: loxbudget_check_def split_def check_finish_record)
next
  case False
  with assms show ?thesis by (auto simp: loxbudget_check_def)
qed

end
