(* ===== verification/LB_Admission.thy ===== *)
theory LB_Admission
  imports LB_Decision
begin

text \<open>
  What \<open>loxbudget_check\<close> decides, stated without its loops: \<open>admissible\<close> is the condition
  under which an operation is granted, \<open>explained\<close> what each reason of a decision says about
  the state; at most one decision is explained by a state. The code threads the rate table and the accumulators \<open>need_per_res\<close> through
  the loop over the needs; because registration keeps the needs of an operation on
  different resources (\<open>config_ok\<close>), each need can be judged on the state at the call.
\<close>

section \<open>The specification\<close>

subsection \<open>One need\<close>

definition room :: "loxbudget_resource \<Rightarrow> nat" where
  "room r = unat (r_limit r) - unat (r_used r) - unat (r_reserved r)"

lemma unat_available_room [simp]: "unat (available r) = room r"
  by (simp add: room_def unat_available)

definition windows_accept :: "build \<Rightarrow> u32 \<Rightarrow> rate_state \<Rightarrow> u16 \<Rightarrow> bool" where
  "windows_accept B now rs a \<longleftrightarrow>
     (\<forall>w\<in>set (rs_windows rs). snd (lb__rate_roll_and_check B w now (ucast a)))"

text \<open>A need on a consumable resource that is subject to the rate limits.\<close>

definition rated :: "build \<Rightarrow> loxbudget_op_profile \<Rightarrow> loxbudget_resource \<Rightarrow> bool" where
  "rated B p r \<longleftrightarrow>
     rate_on B \<and> r_kind r = 1 \<and> \<not> has_flag (p_flags p) LOXBUDGET_OPF_BYPASS_RATE_LIMIT"

definition need_ok ::
    "build \<Rightarrow> loxbudget \<Rightarrow> u32 \<Rightarrow> loxbudget_op_profile \<Rightarrow> rate_state list \<Rightarrow> loxbudget_need \<Rightarrow> bool" where
  "need_ok B b now p rt n \<longleftrightarrow>
     n_resource n < b_max_resources b \<and> t_res_cfg b ! unat (n_resource n) \<noteq> 0 \<and>
     (let r = t_resources b ! unat (n_resource n); rs = rt ! unat (n_resource n) in
      if r_kind r = 2 then r_limit r \<noteq> 0
      else unat (n_amount n) \<le> room r \<and>
           (rated B p r \<longrightarrow> \<not> lifetime_exceeded rs (n_amount n) \<and> windows_accept B now rs (n_amount n)))"

subsection \<open>All needs and the cascade\<close>

text \<open>What the operation itself asks of each resource; state flags are not amounts.\<close>

definition own_needs :: "loxbudget \<Rightarrow> u8 \<Rightarrow> u16 list" where
  "own_needs b op =
     map (\<lambda>i. if i < unat (b_max_resources b) \<and> r_kind (t_resources b ! i) \<noteq> 2
              then (case need_map (op_needs b op) (of_nat i) of Some a \<Rightarrow> a | None \<Rightarrow> 0) else 0)
       [0..<LOXBUDGET_MAX_RESOURCES]"

definition total_needs :: "build \<Rightarrow> loxbudget \<Rightarrow> u8 \<Rightarrow> bool \<times> u16 list" where
  "total_needs B b op =
     (case lb__causality_add_scaled_needs B b op (own_needs b op) of (walked, _, npr) \<Rightarrow> (walked, npr))"

definition fits :: "loxbudget \<Rightarrow> nat \<Rightarrow> u16 \<Rightarrow> bool" where
  "fits b i req \<longleftrightarrow>
     req = 0 \<or> t_res_cfg b ! i = 0 \<or>
     (if r_kind (t_resources b ! i) = 2 then r_limit (t_resources b ! i) \<noteq> 0
      else unat req \<le> room (t_resources b ! i))"

definition cascade_fits :: "build \<Rightarrow> loxbudget \<Rightarrow> u8 \<Rightarrow> bool" where
  "cascade_fits B b op \<longleftrightarrow>
     (causality_on B \<and> fst (total_needs B b op) \<longrightarrow>
        (\<forall>i < unat (b_max_resources b). fits b i (snd (total_needs B b op) ! i)))"

subsection \<open>Pressure and preconditions\<close>

definition pressure_allows :: "loxbudget \<Rightarrow> loxbudget_op_profile \<Rightarrow> bool" where
  "pressure_allows b p \<longleftrightarrow>
     (b_pressure b = 4 \<longrightarrow> has_flag (p_flags p) LOXBUDGET_OPF_LOCKDOWN_PASS) \<and>
     loxbudget_mapped_action p (b_pressure b) \<in> {0, 1}"

text \<open>The platform state queries an operation requires, asked in turn up to the first that fails.\<close>

fun ask_all :: "u8 \<Rightarrow> (u8 \<times> ('e \<Rightarrow> u8 \<times> 'e)) list \<Rightarrow> 'e \<Rightarrow> bool \<times> 'e" where
  "ask_all fl [] e = (True, e)"
| "ask_all fl ((f, q) # qs) e =
     (if has_flag fl f
      then (case q e of (v, e') \<Rightarrow> if v = 0 \<or> v = 2 then (False, e') else ask_all fl qs e')
      else ask_all fl qs e)"

definition hal_queries :: "'e platform \<Rightarrow> loxbudget \<Rightarrow> (u8 \<times> ('e \<Rightarrow> u8 \<times> 'e)) list" where
  "hal_queries P b =
     [(LOXBUDGET_OPF_REQUIRES_BOOT_PROVEN, loxbudget_hal_boot_proven' P b),
      (LOXBUDGET_OPF_REQUIRES_VOLTAGE_OK, loxbudget_hal_voltage_ok' P b),
      (LOXBUDGET_OPF_REQUIRES_NETWORK_UP, loxbudget_hal_network_up' P b)]"

definition hal_gate :: "'e platform \<Rightarrow> loxbudget \<Rightarrow> loxbudget_op_profile \<Rightarrow> 'e \<Rightarrow> bool \<times> 'e" where
  "hal_gate P b p = ask_all (p_flags p) (hal_queries P b)"

text \<open>
  The answer that stops the queries: 2, the sentinel of a query nobody has configured, or 0,
  a precondition that does not hold. \<open>None\<close> when every required query passes.
\<close>

fun ask_first :: "u8 \<Rightarrow> (u8 \<times> ('e \<Rightarrow> u8 \<times> 'e)) list \<Rightarrow> 'e \<Rightarrow> u8 option" where
  "ask_first fl [] e = None"
| "ask_first fl ((f, q) # qs) e =
     (if has_flag fl f
      then (case q e of (v, e') \<Rightarrow> if v = 0 \<or> v = 2 then Some v else ask_first fl qs e')
      else ask_first fl qs e)"

definition hal_answer :: "'e platform \<Rightarrow> loxbudget \<Rightarrow> loxbudget_op_profile \<Rightarrow> 'e \<Rightarrow> u8 option" where
  "hal_answer P b p = ask_first (p_flags p) (hal_queries P b)"

text \<open>The time the windows are judged at: the clock is read after the queries, and only then.\<close>

definition check_clock :: "build \<Rightarrow> 'e platform \<Rightarrow> loxbudget \<Rightarrow> 'e \<Rightarrow> u32" where
  "check_clock B P b e = (if rate_on B then fst (loxbudget_hal_now_ms' P b e) else 0)"

subsection \<open>Admission\<close>

definition admissible :: "build \<Rightarrow> 'e platform \<Rightarrow> loxbudget \<Rightarrow> u8 \<Rightarrow> 'e \<Rightarrow> bool" where
  "admissible B P b op e \<longleftrightarrow>
     (case loxbudget_profile_c b op of
        None \<Rightarrow> False
      | Some p \<Rightarrow>
          pressure_allows b p \<and> fst (hal_gate P b p e) \<and>
          (\<forall>n\<in>set (op_needs b op). live n \<longrightarrow>
             need_ok B b (check_clock B P b (snd (hal_gate P b p e))) p (t_rate b) n) \<and>
          cascade_fits B b op)"

section \<open>The needs loop judges each need on the state at the call\<close>

lemma check_rate_None:
  "fst (check_rate B now p r n rt d) = None \<longleftrightarrow>
     (rated B p r \<longrightarrow> \<not> lifetime_exceeded (rt ! unat (n_resource n)) (n_amount n) \<and>
        windows_accept B now (rt ! unat (n_resource n)) (n_amount n))"
  using check_windows_ok [of B now "ucast (n_amount n)" "rs_windows (rt ! unat (n_resource n))"]
  by (auto simp: check_rate_def rated_def windows_accept_def Let_def split: prod.splits)

lemma check_rate_other:
  "i \<noteq> unat (n_resource n) \<Longrightarrow> snd (check_rate B now p r n rt d) ! i = rt ! i"
  by (auto simp: check_rate_def Let_def split: prod.splits)

text \<open>The accumulator update of one need.\<close>

definition add_own :: "loxbudget \<Rightarrow> loxbudget_need \<Rightarrow> u16 list \<Rightarrow> u16 list" where
  "add_own b n npr =
     (if live n \<and> r_kind (t_resources b ! unat (n_resource n)) \<noteq> 2
      then npr[unat (n_resource n) := sat16 (ucast (npr ! unat (n_resource n)) + ucast (n_amount n))]
      else npr)"

lemma check_need_None:
  "fst (check_need B b now p d n npr rt) = None \<longleftrightarrow> (live n \<longrightarrow> need_ok B b now p rt n)"
proof -
  have a: "available r < n_amount n \<longleftrightarrow> room r < unat (n_amount n)" for r
    by (simp add: word_less_nat_alt)
  show ?thesis
    using check_rate_None [of B now p "t_resources b ! unat (n_resource n)" n rt d]
    by (auto simp: check_need_def need_ok_def live_def Let_def a not_le not_less split: prod.splits)
qed

lemma check_need_npr:
  "fst (check_need B b now p d n npr rt) = None \<Longrightarrow> fst (snd (check_need B b now p d n npr rt)) = add_own b n npr"
  by (auto simp: check_need_def add_own_def live_def Let_def split: prod.splits if_splits)

lemma check_need_other:
  assumes "live n \<Longrightarrow> i \<noteq> unat (n_resource n)"
  shows "snd (snd (check_need B b now p d n npr rt)) ! i = rt ! i"
  using assms check_rate_other [of i n B now p "t_resources b ! unat (n_resource n)" rt d]
  by (auto simp: check_need_def live_def Let_def split: prod.splits)

lemma need_ok_cong:
  "rt ! unat (n_resource n) = rt' ! unat (n_resource n) \<Longrightarrow> need_ok B b now p rt n = need_ok B b now p rt' n"
  by (simp add: need_ok_def)

lemma keys_Cons_neq:
  assumes "distinct (need_keys (n # ns))" "live n" "m \<in> set ns" "live m"
  shows "unat (n_resource m) \<noteq> unat (n_resource n)"
proof -
  have "n_resource m \<in> set (need_keys ns)" using assms(3,4) by (simp add: need_keys_def)
  with assms(1,2) show ?thesis by (auto simp: word_unat_eq_iff [symmetric])
qed

lemma distinct_keys_tl: "distinct (need_keys (n # ns)) \<Longrightarrow> distinct (need_keys ns)"
  by (simp split: if_splits)

lemma check_needs_None:
  assumes "distinct (need_keys ns)"
  shows "fst (check_needs B b now p d ns npr rt) = None \<longleftrightarrow> (\<forall>n\<in>set ns. live n \<longrightarrow> need_ok B b now p rt n)"
  using assms
proof (induction ns arbitrary: npr rt)
  case Nil
  then show ?case by simp
next
  case (Cons n ns)
  obtain dd npr1 rt1 where c: "check_need B b now p d n npr rt = (dd, npr1, rt1)"
    by (metis prod.exhaust)
  have rt1: "need_ok B b now p rt1 m = need_ok B b now p rt m" if "m \<in> set ns" "live m" for m
    using check_need_other [of n "unat (n_resource m)" B b now p d npr rt] keys_Cons_neq [OF Cons.prems _ that]
    by (intro need_ok_cong) (simp add: c)
  have n: "dd = None \<longleftrightarrow> (live n \<longrightarrow> need_ok B b now p rt n)"
    using check_need_None [of B b now p d n npr rt] by (simp add: c)
  show ?case
  proof (cases dd)
    case None
    with c n Cons.IH [OF distinct_keys_tl [OF Cons.prems], of npr1 rt1] rt1 show ?thesis by auto
  next
    case (Some d')
    with c n show ?thesis by auto
  qed
qed

lemma check_needs_npr:
  "fst (check_needs B b now p d ns npr rt) = None \<Longrightarrow>
   fst (snd (check_needs B b now p d ns npr rt)) = fold (add_own b) ns npr"
proof (induction ns arbitrary: npr rt)
  case Nil
  then show ?case by simp
next
  case (Cons n ns)
  obtain dd npr1 rt1 where c: "check_need B b now p d n npr rt = (dd, npr1, rt1)"
    by (metis prod.exhaust)
  with Cons.prems have n: "dd = None" by (auto split: option.splits)
  have "npr1 = add_own b n npr"
    using check_need_npr [of B b now p d n npr rt] by (simp add: c n)
  with Cons c n show ?case by simp
qed

lemma length_add_own [simp]: "length (add_own b n npr) = length npr"
  by (simp add: add_own_def)

lemma fold_add_own:
  assumes "distinct (need_keys ns)" "i < length npr"
    and "\<And>r. r \<in> set (need_keys ns) \<Longrightarrow> npr ! unat r = 0"
  shows "fold (add_own b) ns npr ! i =
    (if r_kind (t_resources b ! i) \<noteq> 2 \<and> (\<exists>n\<in>set ns. live n \<and> unat (n_resource n) = i)
     then (case need_map ns (of_nat i) of Some a \<Rightarrow> a | None \<Rightarrow> 0) else npr ! i)"
  using assms
proof (induction ns arbitrary: npr)
  case Nil
  then show ?case by simp
next
  case (Cons n ns)
  have rest: "add_own b n npr ! unat r = 0" if "r \<in> set (need_keys ns)" for r
  proof -
    have "npr ! unat r = 0" using that Cons.prems(3) by simp
    moreover have "live n \<Longrightarrow> unat (n_resource n) \<noteq> unat r"
      using that Cons.prems(1) by (auto simp: word_unat_eq_iff [symmetric])
    ultimately show ?thesis by (auto simp: add_own_def)
  qed
  have same: "\<not> (\<exists>m\<in>set ns. live m \<and> unat (n_resource m) = i)" if "live n" "unat (n_resource n) = i"
    using that keys_Cons_neq [OF Cons.prems(1)] by auto
  have sat: "sat16 (0 + ucast (n_amount n)) = n_amount n"
    using unat_u16_bound [of "n_amount n"] by (simp add: word_unat_eq_iff unat_sat16)
  have new: "add_own b n npr ! i = (if live n \<and> unat (n_resource n) = i \<and> r_kind (t_resources b ! i) \<noteq> 2
      then n_amount n else npr ! i)"
    using Cons.prems(2,3) sat by (cases "unat (n_resource n) = i") (auto simp: add_own_def)
  have key: "need_map (n # ns) (of_nat i) = (if live n \<and> unat (n_resource n) = i then Some (n_amount n)
      else need_map ns (of_nat i))" if "\<exists>m\<in>set (n # ns). live m \<and> unat (n_resource m) = i"
    using that by (auto simp: word_unat_eq_iff)
  have "fold (add_own b) (n # ns) npr ! i =
    (if r_kind (t_resources b ! i) \<noteq> 2 \<and> (\<exists>m\<in>set ns. live m \<and> unat (n_resource m) = i)
     then (case need_map ns (of_nat i) of Some a \<Rightarrow> a | None \<Rightarrow> 0) else add_own b n npr ! i)"
    using Cons.IH [OF distinct_keys_tl [OF Cons.prems(1)], of "add_own b n npr"] Cons.prems(2) rest
    by simp
  then show ?case using new key same by auto
qed

lemma own_needs_fold:
  assumes "op_config_ok b op" "unat (b_max_resources b) \<le> LOXBUDGET_MAX_RESOURCES"
  shows "fold (add_own b) (op_needs b op) (replicate LOXBUDGET_MAX_RESOURCES 0) = own_needs b op"
proof (rule nth_equalityI)
  have l: "length (fold (add_own b) ns npr) = length npr" for ns npr
    by (induction ns arbitrary: npr) (simp_all add: add_own_def)
  show "length (fold (add_own b) (op_needs b op) (replicate LOXBUDGET_MAX_RESOURCES 0)) = length (own_needs b op)"
    by (simp add: l own_needs_def)
next
  fix i assume "i < length (fold (add_own b) (op_needs b op) (replicate LOXBUDGET_MAX_RESOURCES 0))"
  have l: "length (fold (add_own b) ns npr) = length npr" for ns npr
    by (induction ns arbitrary: npr) (simp_all add: add_own_def)
  with \<open>i < length _\<close> have i: "i < 8" by simp
  have d: "distinct (need_keys (op_needs b op))"
    and range: "\<And>r. r \<in> set (need_keys (op_needs b op)) \<Longrightarrow> r < b_max_resources b"
    using assms(1) by (auto simp: op_config_ok_def)
  have z: "replicate 8 (0 :: u16) ! unat r = 0" if "r \<in> set (need_keys (op_needs b op))" for r
    using range [OF that] assms(2) by (simp add: word_less_nat_alt)
  have key: "(\<exists>n\<in>set (op_needs b op). live n \<and> unat (n_resource n) = i) \<longleftrightarrow> of_nat i \<in> set (need_keys (op_needs b op))"
    using i by (auto simp: need_keys_def word_unat_eq_iff unat_of_nat)
  have out: "of_nat i \<in> set (need_keys (op_needs b op)) \<Longrightarrow> i < unat (b_max_resources b)"
    using range [of "of_nat i"] i by (simp add: word_less_nat_alt unat_of_nat)
  have none: "of_nat i \<notin> set (need_keys (op_needs b op)) \<Longrightarrow> need_map (op_needs b op) (of_nat i) = None"
    by (metis dom_need_map domIff)
  show "fold (add_own b) (op_needs b op) (replicate LOXBUDGET_MAX_RESOURCES 0) ! i = own_needs b op ! i"
    using i fold_add_own [OF d _ z, of i b] key out none
    by (auto simp: own_needs_def)
qed

section \<open>The other stages\<close>

lemma check_hal1_ask:
  "ask_all fl [(f, q)] e = (fst (check_hal1 fl f q d e) = None, snd (check_hal1 fl f q d e))"
  by (auto simp: check_hal1_def split: prod.splits)

lemma ask_all_Cons:
  "ask_all fl (x # qs) e = (case ask_all fl [x] e of (True, e') \<Rightarrow> ask_all fl qs e' | (False, e') \<Rightarrow> (False, e'))"
  by (cases x) (auto split: prod.splits)

lemma check_hal_gate:
  "hal_gate P b p e = (fst (check_hal P b p d e) = None, snd (check_hal P b p d e))"
proof -
  obtain o1 e1 where 1: "check_hal1 (p_flags p) LOXBUDGET_OPF_REQUIRES_BOOT_PROVEN
      (loxbudget_hal_boot_proven' P b) d e = (o1, e1)" by fastforce
  obtain o2 e2 where 2: "check_hal1 (p_flags p) LOXBUDGET_OPF_REQUIRES_VOLTAGE_OK
      (loxbudget_hal_voltage_ok' P b) d e1 = (o2, e2)" by fastforce
  obtain o3 e3 where 3: "check_hal1 (p_flags p) LOXBUDGET_OPF_REQUIRES_NETWORK_UP
      (loxbudget_hal_network_up' P b) d e2 = (o3, e3)" by fastforce
  have "hal_gate P b p e = (if o1 = None then if o2 = None then (o3 = None, e3) else (False, e2) else (False, e1))"
    unfolding hal_gate_def hal_queries_def
    by (cases o1; cases o2)
       (simp_all add: ask_all_Cons [where qs = "_ # _"] check_hal1_ask [where d = d] 1 2 3 del: ask_all.simps)
  then show ?thesis by (simp add: check_hal_def 1 2 3 split: option.splits)
qed

text \<open>The denial of the queries is the denial of the answer that stops them.\<close>

definition hal_denial :: "loxbudget_decision \<Rightarrow> u8 \<Rightarrow> loxbudget_decision" where
  "hal_denial d v =
     d\<lparr>d_action := LOXBUDGET_REJECT,
       d_reason := (if v = 2 then LOXBUDGET_REASON_HAL_NOT_CONFIGURED else LOXBUDGET_REASON_PRECONDITION_FAIL)\<rparr>"

lemma check_hal_answer: "fst (check_hal P b p d e) = map_option (hal_denial d) (hal_answer P b p e)"
proof -
  have step: "map_option (hal_denial d) (ask_first fl ((f, q) # qs) e) =
      (case check_hal1 fl f q d e of (Some d', _) \<Rightarrow> Some d' | (None, e') \<Rightarrow> map_option (hal_denial d) (ask_first fl qs e'))"
    for fl f qs e and q :: "'a \<Rightarrow> u8 \<times> 'a"
    by (auto simp: check_hal1_def hal_denial_def deny_def split: prod.splits)
  show ?thesis
    by (auto simp: check_hal_def hal_answer_def hal_queries_def step simp del: ask_first.simps(2)
        split: prod.splits option.splits)
qed

lemma ask_first_values: "ask_first fl qs e = Some v \<Longrightarrow> v = 0 \<or> v = 2"
  by (induction fl qs e rule: ask_first.induct) (auto split: prod.splits if_splits)

lemma hal_gate_answer: "fst (hal_gate P b p e) \<longleftrightarrow> hal_answer P b p e = None"
proof -
  have "fst (ask_all fl qs e) \<longleftrightarrow> ask_first fl qs e = None" for fl qs and e :: 'a
    by (induction fl qs e rule: ask_first.induct) (auto split: prod.splits)
  then show ?thesis by (simp add: hal_gate_def hal_answer_def)
qed

lemma check_pressure_None:
  "check_pressure b p (d\<lparr>d_action := action_of_u8 a\<rparr>) = None \<longleftrightarrow>
     (b_pressure b = 4 \<longrightarrow> has_flag (p_flags p) LOXBUDGET_OPF_LOCKDOWN_PASS) \<and> a \<noteq> 2 \<and> a \<noteq> 3 \<and> a \<noteq> 4"
  by (simp add: check_pressure_def)

lemma mapped_action_le:
  "profile_in_range p \<Longrightarrow> loxbudget_mapped_action p pr \<le> 4"
  by (simp add: profile_in_range_def loxbudget_mapped_action_def not_less split: loxbudget_pressure.split)

lemma u8_le_4: "(a :: u8) \<le> 4 \<longleftrightarrow> a \<in> {0, 1, 2, 3, 4}"
proof
  assume "a \<le> 4"
  then have "unat a \<le> 4" by (simp add: word_le_nat_alt)
  then have "unat a \<in> {0, 1, 2, 3, 4}" by auto
  then show "a \<in> {0, 1, 2, 3, 4}" by (auto simp: word_unat_eq_iff)
qed auto

lemma check_cascade1_None: "check_cascade1 b npr d i = None \<longleftrightarrow> fits b i (npr ! i)"
  by (auto simp: check_cascade1_def fits_def Let_def word_less_nat_alt not_less)

lemma check_cascade_from_None: "check_cascade_from b npr d is = None \<longleftrightarrow> (\<forall>i\<in>set is. fits b i (npr ! i))"
proof (induction "is")
  case (Cons i "is")
  with check_cascade1_None [of b npr d i] show ?case by (auto split: option.splits)
qed simp

lemma check_cascade_None:
  "fst (check_cascade B b op (own_needs b op) d) = None \<longleftrightarrow> cascade_fits B b op"
  by (auto simp: check_cascade_def cascade_fits_def total_needs_def check_cascade_from_None split: prod.splits)

section \<open>Grants\<close>

lemma profile_SomeD:
  assumes "loxbudget_profile_c b op = Some p"
  shows "op < b_max_ops b" "t_op_cfg b ! unat op \<noteq> 0" "p = t_ops b ! unat op"
  using assms by (auto simp: loxbudget_profile_c_def not_le split: if_splits)

lemma config_profile:
  assumes "config_ok b" "loxbudget_profile_c b op = Some p"
  shows "op_config_ok b op" "profile_in_range p" "p_op_id p = op"
proof -
  note p = profile_SomeD [OF assms(2)]
  show c: "op_config_ok b op" using assms(1) p(1) by (simp add: config_ok_def)
  with p show "profile_in_range p" "p_op_id p = op" by (simp_all add: op_config_ok_def)
qed

lemma pressure_stage:
  assumes "profile_in_range p"
  shows "check_pressure b p (d\<lparr>d_action := action_of_u8 (loxbudget_mapped_action p (b_pressure b))\<rparr>) = None \<longleftrightarrow>
         pressure_allows b p"
  using mapped_action_le [OF assms, of "b_pressure b"]
  by (auto simp: check_pressure_None pressure_allows_def u8_le_4)

lemma verdict_admissible:
  assumes "lb_shape B b" "config_ok b" "check_verdict B P b op e = (d, g, b1, e1)"
  shows "g \<longleftrightarrow> admissible B P b op e"
  using assms(3)
proof (cases rule: check_verdict_cases)
  case unknown
  then show ?thesis by (simp add: admissible_def)
next
  case (pressure p d0)
  with pressure_stage [OF config_profile(2) [OF assms(2) pressure(1)], of b "init_decision b"] show ?thesis
    by (simp add: admissible_def)
next
  case (hal p d0)
  with check_hal_gate [of P b p e d0] show ?thesis by (simp add: admissible_def)
next
  case (needs p d0 e2 now npr rt)
  have gate: "hal_gate P b p e = (True, e2)"
    using check_hal_gate [of P b p e d0] needs(6) by simp
  have "distinct (need_keys (op_needs b op))"
    using config_profile(1) [OF assms(2) needs(1)] by (simp add: op_config_ok_def)
  from check_needs_None [OF this, of B b now p d0 "replicate LOXBUDGET_MAX_RESOURCES 0" "t_rate b"] needs(8)
  have "\<exists>n\<in>set (op_needs b op). live n \<and> \<not> need_ok B b now p (t_rate b) n" by auto
  moreover have "check_clock B P b e2 = now"
    using needs(7) by (auto simp: check_clock_def split: if_splits)
  ultimately show ?thesis
    using needs(1,2) by (auto simp: admissible_def gate)
next
  case (cascade p d0 e2 now npr rt vis)
  have "npr = own_needs b op"
    using check_needs_npr [of B b now p d0 "op_needs b op" "replicate LOXBUDGET_MAX_RESOURCES 0" "t_rate b"]
      own_needs_fold [OF config_profile(1) [OF assms(2) cascade(1)]]
      size_shape_lengths(7) [OF lb_shape_size [OF assms(1)]] cascade(8)
    by simp
  with cascade(1,2,9) check_cascade_None [of B b op d0] show ?thesis
    by (simp add: admissible_def)
next
  case (granted p d0 e2 now npr rt vis)
  have gate: "hal_gate P b p e = (True, e2)"
    using check_hal_gate [of P b p e d0] granted(6) by simp
  have dist: "distinct (need_keys (op_needs b op))"
    using config_profile(1) [OF assms(2) granted(1)] by (simp add: op_config_ok_def)
  have "npr = own_needs b op"
    using check_needs_npr [of B b now p d0 "op_needs b op" "replicate LOXBUDGET_MAX_RESOURCES 0" "t_rate b"]
      own_needs_fold [OF config_profile(1) [OF assms(2) granted(1)]]
      size_shape_lengths(7) [OF lb_shape_size [OF assms(1)]] granted(8)
    by simp
  then have "cascade_fits B b op"
    using granted(9) check_cascade_None [of B b op d0] by simp
  moreover have "pressure_allows b p"
    using granted(4,5) pressure_stage [OF config_profile(2) [OF assms(2) granted(1)], of b "init_decision b"] by simp
  moreover have "check_clock B P b e2 = now"
    using granted(7) by (auto simp: check_clock_def split: if_splits)
  moreover have "\<forall>n\<in>set (op_needs b op). live n \<longrightarrow> need_ok B b now p (t_rate b) n"
    using check_needs_None [OF dist, of B b now p d0 "replicate LOXBUDGET_MAX_RESOURCES 0" "t_rate b"] granted(8) by simp
  ultimately show ?thesis
    using granted(1,2) by (simp add: admissible_def gate)
qed

section \<open>Denials\<close>

subsection \<open>What a denial says\<close>

text \<open>A need that is refused: the decision names it, and its reason is true of it.\<close>

definition need_denial ::
    "build \<Rightarrow> loxbudget \<Rightarrow> u32 \<Rightarrow> loxbudget_op_profile \<Rightarrow> rate_state list \<Rightarrow> loxbudget_need \<Rightarrow> loxbudget_decision \<Rightarrow> bool" where
  "need_denial B b now p rt n d \<longleftrightarrow>
     d_denied_resource d = n_resource n \<and> d_requested d = n_amount n \<and>
     (let r = t_resources b ! unat (n_resource n); rs = rt ! unat (n_resource n) in
      case d_reason d of
        LOXBUDGET_REASON_PRECONDITION_FAIL \<Rightarrow>
          r_kind r = 2 \<and> r_limit r = 0 \<and> d_available d = 0 \<and> d_action d = LOXBUDGET_REJECT
      | LOXBUDGET_REASON_INSUFFICIENT_RES \<Rightarrow>
          r_kind r \<noteq> 2 \<and> unat (d_available d) = room r \<and> room r < unat (n_amount n) \<and>
          d_action d = (if r_kind r = 0 then LOXBUDGET_WAIT else LOXBUDGET_REJECT)
      | LOXBUDGET_REASON_LIFETIME_EXHAUSTED \<Rightarrow>
          rated B p r \<and> unat (n_amount n) \<le> room r \<and> lifetime_exceeded rs (n_amount n) \<and>
          d_available d = 0 \<and> d_action d = LOXBUDGET_REJECT
      | LOXBUDGET_REASON_RATE_LIMIT \<Rightarrow>
          rated B p r \<and> unat (n_amount n) \<le> room r \<and> \<not> lifetime_exceeded rs (n_amount n) \<and>
          \<not> windows_accept B now rs (n_amount n) \<and> d_available d = 0 \<and> d_action d = LOXBUDGET_REJECT
      | _ \<Rightarrow> False)"

text \<open>The first need of the operation that the state at the call refuses.\<close>

definition refused_need ::
    "build \<Rightarrow> loxbudget \<Rightarrow> u32 \<Rightarrow> loxbudget_op_profile \<Rightarrow> rate_state list \<Rightarrow> loxbudget_need list \<Rightarrow> loxbudget_need option" where
  "refused_need B b now p rt = find (\<lambda>n. live n \<and> \<not> need_ok B b now p rt n)"

text \<open>The denial of the cascade names the first resource that the accumulated needs do not fit.\<close>

definition cascade_denial :: "build \<Rightarrow> loxbudget \<Rightarrow> u8 \<Rightarrow> loxbudget_decision \<Rightarrow> bool" where
  "cascade_denial B b op d \<longleftrightarrow>
     causality_on B \<and> fst (total_needs B b op) \<and> d_denied_resource d < b_max_resources b \<and>
     (let i = unat (d_denied_resource d); r = t_resources b ! i; req = snd (total_needs B b op) in
      d_requested d = req ! i \<and> \<not> fits b i (req ! i) \<and> (\<forall>j < i. fits b j (req ! j)) \<and>
      unat (d_available d) = (if r_kind r = 2 then 0 else room r) \<and>
      d_action d = (if r_kind r = 0 then LOXBUDGET_WAIT else LOXBUDGET_REJECT))"

text \<open>
  The whole operation is at fault: no resource is named. The operation is locked out when
  the instance is in lockdown and the operation may not pass, or its profile says so.
\<close>

definition names_nothing :: "loxbudget_decision \<Rightarrow> bool" where
  "names_nothing d \<longleftrightarrow> d_denied_resource d = 0xFF \<and> d_requested d = 0 \<and> d_available d = 0"

definition locked_out :: "loxbudget \<Rightarrow> loxbudget_op_profile \<Rightarrow> bool" where
  "locked_out b p \<longleftrightarrow>
     b_pressure b = 4 \<and> \<not> has_flag (p_flags p) LOXBUDGET_OPF_LOCKDOWN_PASS \<or>
     loxbudget_mapped_action p (b_pressure b) = 4"

definition explained ::
    "build \<Rightarrow> 'e platform \<Rightarrow> loxbudget \<Rightarrow> u8 \<Rightarrow> 'e \<Rightarrow> loxbudget_decision \<Rightarrow> bool" where
  "explained B P b op e d \<longleftrightarrow>
     (case loxbudget_profile_c b op of
        None \<Rightarrow> d_reason d = LOXBUDGET_REASON_UNKNOWN_OP \<and> d_action d = LOXBUDGET_REJECT \<and> names_nothing d
      | Some p \<Rightarrow>
          let a = loxbudget_mapped_action p (b_pressure b);
              answer = hal_answer P b p e;
              now = check_clock B P b (snd (hal_gate P b p e));
              refused = refused_need B b now p (t_rate b) (op_needs b op);
              need_denied = (pressure_allows b p \<and> answer = None \<and>
                (case refused of None \<Rightarrow> False | Some n \<Rightarrow> need_denial B b now p (t_rate b) n d))
          in case d_reason d of
               LOXBUDGET_REASON_OK \<Rightarrow>
                 admissible B P b op e \<and> d_action d = action_of_u8 a \<and> names_nothing d
             | LOXBUDGET_REASON_LOCKDOWN_ACTIVE \<Rightarrow>
                 locked_out b p \<and> d_action d = LOXBUDGET_LOCKDOWN \<and> names_nothing d
             | LOXBUDGET_REASON_PRESSURE_BLOCK \<Rightarrow>
                 \<not> locked_out b p \<and> a \<in> {2, 3} \<and> d_action d = action_of_u8 a \<and> names_nothing d
             | LOXBUDGET_REASON_HAL_NOT_CONFIGURED \<Rightarrow>
                 pressure_allows b p \<and> answer = Some 2 \<and> d_action d = LOXBUDGET_REJECT \<and> names_nothing d
             | LOXBUDGET_REASON_PRECONDITION_FAIL \<Rightarrow>
                 pressure_allows b p \<and> answer = Some 0 \<and> d_action d = LOXBUDGET_REJECT \<and> names_nothing d \<or>
                 need_denied
             | LOXBUDGET_REASON_CAUSAL_CASCADE \<Rightarrow>
                 pressure_allows b p \<and> answer = None \<and> refused = None \<and> cascade_denial B b op d
             | LOXBUDGET_REASON_UNKNOWN_OP \<Rightarrow> False
             | _ \<Rightarrow> need_denied)"

subsection \<open>Each stage's denials\<close>

lemma check_need_Some:
  assumes "fst (check_need B b now p d n npr rt) = Some d'"
    and "live n \<Longrightarrow> n_resource n < b_max_resources b \<and> t_res_cfg b ! unat (n_resource n) \<noteq> 0"
  shows "live n \<and> need_denial B b now p rt n d'"
  using assms check_windows_ok [of B now "ucast (n_amount n)" "rs_windows (rt ! unat (n_resource n))"]
  by (auto simp: check_need_def check_rate_def need_denial_def deny_res_def live_def rated_def windows_accept_def
      Let_def word_less_nat_alt word_le_nat_alt split: prod.splits if_splits)

lemma need_denial_cong:
  "rt ! unat (n_resource n) = rt' ! unat (n_resource n) \<Longrightarrow> need_denial B b now p rt n d = need_denial B b now p rt' n d"
  by (simp add: need_denial_def)

lemma check_needs_Some:
  assumes "distinct (need_keys ns)" "fst (check_needs B b now p d ns npr rt) = Some d'"
    and "\<And>r. r \<in> set (need_keys ns) \<Longrightarrow> r < b_max_resources b \<and> t_res_cfg b ! unat r \<noteq> 0"
  shows "\<exists>n. refused_need B b now p rt ns = Some n \<and> need_denial B b now p rt n d'"
  using assms
proof (induction ns arbitrary: npr rt)
  case Nil
  then show ?case by simp
next
  case (Cons n ns)
  obtain dd npr1 rt1 where c: "check_need B b now p d n npr rt = (dd, npr1, rt1)"
    by (metis prod.exhaust)
  have n: "dd = None \<longleftrightarrow> (live n \<longrightarrow> need_ok B b now p rt n)"
    using check_need_None [of B b now p d n npr rt] by (simp add: c)
  show ?case
  proof (cases dd)
    case (Some d1)
    with Cons.prems(2) c have "d1 = d'" by simp
    with Some c n check_need_Some [of B b now p d n npr rt d'] Cons.prems(3) show ?thesis
      by (auto simp: refused_need_def)
  next
    case None
    have same: "rt1 ! unat (n_resource m) = rt ! unat (n_resource m)" if "m \<in> set ns" "live m" for m
      using check_need_other [of n "unat (n_resource m)" B b now p d npr rt] keys_Cons_neq [OF Cons.prems(1) _ that]
      by (simp add: c)
    obtain m where m: "refused_need B b now p rt1 ns = Some m" "need_denial B b now p rt1 m d'"
      using Cons.IH [OF distinct_keys_tl [OF Cons.prems(1)], of npr1 rt1] Cons.prems None c by auto
    have "refused_need B b now p rt (n # ns) = refused_need B b now p rt ns"
      using n None by (auto simp: refused_need_def)
    also have "\<dots> = refused_need B b now p rt1 ns"
      unfolding refused_need_def
      by (rule find_cong [OF refl]) (use need_ok_cong [OF same] in blast)
    finally have "refused_need B b now p rt (n # ns) = Some m" by (simp add: m(1))
    moreover have "m \<in> set ns \<and> live m"
      using m(1) by (auto simp: refused_need_def find_Some_iff)
    ultimately show ?thesis
      using m(2) need_denial_cong [OF same] by auto
  qed
qed

lemma refused_need_None:
  "refused_need B b now p rt ns = None \<longleftrightarrow> (\<forall>n\<in>set ns. live n \<longrightarrow> need_ok B b now p rt n)"
  by (auto simp: refused_need_def find_None_iff)

lemma check_cascade1_Some:
  assumes "check_cascade1 b npr d i = Some d'"
  shows "d_action d' = (if r_kind (t_resources b ! i) = 0 then LOXBUDGET_WAIT else LOXBUDGET_REJECT)"
    and "d_reason d' = LOXBUDGET_REASON_CAUSAL_CASCADE" "d_denied_resource d' = of_nat i"
    and "d_requested d' = npr ! i" "\<not> fits b i (npr ! i)"
    and "unat (d_available d') = (if r_kind (t_resources b ! i) = 2 then 0 else room (t_resources b ! i))"
  using assms check_cascade1_None [of b npr d i]
  by (auto simp: check_cascade1_def deny_res_def Let_def split: if_splits)

lemma check_cascade_from_Some:
  "check_cascade_from b npr d [0..<n] = Some d' \<Longrightarrow>
   \<exists>i < n. check_cascade1 b npr d i = Some d' \<and> (\<forall>j < i. fits b j (npr ! j))"
proof -
  have "\<exists>us i vs. xs = us @ i # vs \<and> check_cascade1 b npr d i = Some d' \<and> (\<forall>j\<in>set us. fits b j (npr ! j))"
    if "check_cascade_from b npr d xs = Some d'" for xs
    using that
  proof (induction xs)
    case (Cons x xs)
    show ?case
    proof (cases "check_cascade1 b npr d x")
      case None
      with Cons obtain us i vs where "xs = us @ i # vs" "check_cascade1 b npr d i = Some d'"
        "\<forall>j\<in>set us. fits b j (npr ! j)" by auto
      with None check_cascade1_None [of b npr d x] show ?thesis
        by (intro exI [of _ "x # us"] exI [of _ i] exI [of _ vs]) simp
    next
      case (Some d1)
      with Cons.prems show ?thesis by (intro exI [of _ "[]"] exI [of _ x] exI [of _ xs]) simp
    qed
  qed simp
  moreover assume "check_cascade_from b npr d [0..<n] = Some d'"
  ultimately obtain us i vs where x: "[0..<n] = us @ i # vs" "check_cascade1 b npr d i = Some d'"
    "\<forall>j\<in>set us. fits b j (npr ! j)" by blast
  have n: "length us < n" using arg_cong [OF x(1), of length] by simp
  have "[0..<n] ! length us = i" unfolding x(1) by simp
  then have i: "i = length us" using n by simp
  have "take (length us) [0..<n] = us" unfolding x(1) by simp
  then have us: "us = [0..<length us]" using n by (simp add: take_upt)
  have "fits b j (npr ! j)" if "j < length us" for j
  proof -
    have "j \<in> set us" by (subst us) (simp add: that)
    with x(3) show ?thesis by blast
  qed
  with n x(2) show "\<exists>i < n. check_cascade1 b npr d i = Some d' \<and> (\<forall>j < i. fits b j (npr ! j))"
    unfolding i by blast
qed

lemma check_cascade_Some:
  assumes "fst (check_cascade B b op (own_needs b op) d) = Some d'"
  shows "cascade_denial B b op d' \<and> d_reason d' = LOXBUDGET_REASON_CAUSAL_CASCADE"
proof -
  let ?npr = "snd (total_needs B b op)"
  have on: "causality_on B" "fst (total_needs B b op)"
    and "check_cascade_from b ?npr d [0..<unat (b_max_resources b)] = Some d'"
    using assms by (auto simp: check_cascade_def total_needs_def split: prod.splits if_splits)
  then obtain i where i: "i < unat (b_max_resources b)"
    and c: "check_cascade1 b ?npr d i = Some d'" and first: "\<forall>j < i. fits b j (?npr ! j)"
    using check_cascade_from_Some by blast
  have "unat (of_nat i :: u8) = i"
    using i unat_u8_bound [of "b_max_resources b"] by (simp add: unat_of_nat)
  then have "(of_nat i :: u8) < b_max_resources b" "unat (of_nat i :: u8) = i"
    using i by (simp_all add: word_less_nat_alt)
  with check_cascade1_Some [OF c] on first show ?thesis
    by (simp add: cascade_denial_def Let_def)
qed

subsection \<open>The decision\<close>

definition allows :: "loxbudget_action \<Rightarrow> bool" where
  "allows a \<longleftrightarrow> a = LOXBUDGET_ALLOW_FULL \<or> a = LOXBUDGET_ALLOW_DEGRADED"

lemma need_denial_action: "need_denial B b now p rt n d \<Longrightarrow> \<not> allows (d_action d) \<and>
    d_reason d \<in> {LOXBUDGET_REASON_PRECONDITION_FAIL, LOXBUDGET_REASON_INSUFFICIENT_RES,
      LOXBUDGET_REASON_LIFETIME_EXHAUSTED, LOXBUDGET_REASON_RATE_LIMIT}"
  by (auto simp: need_denial_def allows_def Let_def split: loxbudget_reason.splits if_splits)

lemma init_decision_simps [simp]:
  "d_denied_resource (init_decision b) = 0xFF" "d_reason (init_decision b) = LOXBUDGET_REASON_OK"
  "d_pressure (init_decision b) = pressure_of_u8 (b_pressure b)"
  "d_requested (init_decision b) = 0" "d_available (init_decision b) = 0"
  by (simp_all add: init_decision_def)

lemma names_nothing_simps [simp]:
  "names_nothing (init_decision b)" "names_nothing (d\<lparr>d_action := a\<rparr>) = names_nothing d"
  "names_nothing (d\<lparr>d_reason := r\<rparr>) = names_nothing d"
  by (simp_all add: names_nothing_def)

text \<open>An explanation leaves no choice: at most one decision is explained by a state and a call.\<close>

lemma need_denial_unique:
  assumes "need_denial B b now p rt n d" "need_denial B b now p rt n d'" "d_pressure d = d_pressure d'"
  shows "d = d'"
proof -
  have av: "unat (d_available d) = unat (d_available d') \<Longrightarrow> d_available d = d_available d'"
    by (simp add: word_unat_eq_iff)
  show ?thesis
    using assms av
    by (cases "d_reason d"; cases "d_reason d'")
      (auto simp: need_denial_def Let_def rated_def intro!: loxbudget_decision.equality)
qed

lemma cascade_denial_unique:
  assumes "cascade_denial B b op d" "cascade_denial B b op d'" "d_pressure d = d_pressure d'" "d_reason d = d_reason d'"
  shows "d = d'"
proof -
  have "unat (d_denied_resource d) = unat (d_denied_resource d')"
  proof (rule ccontr)
    assume "unat (d_denied_resource d) \<noteq> unat (d_denied_resource d')"
    then consider "unat (d_denied_resource d) < unat (d_denied_resource d')"
      | "unat (d_denied_resource d') < unat (d_denied_resource d)" by linarith
    then show False using assms(1,2) by cases (auto simp: cascade_denial_def Let_def)
  qed
  then have r: "d_denied_resource d = d_denied_resource d'" by (simp add: word_unat_eq_iff)
  have "d_available d = d_available d'"
    using assms(1,2) r by (simp add: cascade_denial_def Let_def word_unat_eq_iff)
  then show ?thesis
    using assms r by (intro loxbudget_decision.equality) (simp_all add: cascade_denial_def Let_def)
qed

lemma names_nothing_unique:
  assumes "names_nothing d" "names_nothing d'" "d_pressure d = d_pressure d'" "d_reason d = d_reason d'"
    "d_action d = d_action d'"
  shows "d = d'"
  using assms by (intro loxbudget_decision.equality) (simp_all add: names_nothing_def)

lemma explained_unique:
  assumes "explained B P b op e d" "explained B P b op e d'" "d_pressure d = d_pressure d'"
  shows "d = d'"
proof (cases "loxbudget_profile_c b op")
  case None
  with assms show ?thesis by (auto simp: explained_def intro: names_nothing_unique)
next
  case (Some p)
  have adm: "admissible B P b op e \<longleftrightarrow> pressure_allows b p \<and> hal_answer P b p e = None \<and>
      refused_need B b (check_clock B P b (snd (hal_gate P b p e))) p (t_rate b) (op_needs b op) = None \<and>
      cascade_fits B b op"
    by (simp add: admissible_def Some hal_gate_answer refused_need_None)
  have lock: "\<not> locked_out b p" if "pressure_allows b p"
    using that by (auto simp: locked_out_def pressure_allows_def)
  have press: "loxbudget_mapped_action p (b_pressure b) \<notin> {2, 3}" if "pressure_allows b p"
    using that by (auto simp: pressure_allows_def)
  have casc: "\<not> cascade_fits B b op" if "cascade_denial B b op x" for x
    using that by (auto simp: cascade_denial_def cascade_fits_def Let_def word_less_nat_alt)
  have same: "d_reason d = d_reason d'"
    using assms(1,2) lock press casc
    by (cases "d_reason d"; cases "d_reason d'")
      (auto simp: explained_def Some adm Let_def need_denial_def rated_def split: option.splits)
  show ?thesis
    using assms same adm lock
    by (cases "d_reason d")
      (auto simp: explained_def Some Let_def split: option.splits
        intro: names_nothing_unique need_denial_unique cascade_denial_unique)
qed

lemma verdict_explained:
  assumes "lb_shape B b" "config_ok b" "check_verdict B P b op e = (d, g, b1, e1)"
  shows "explained B P b op e d \<and> (d_reason d = LOXBUDGET_REASON_OK \<longleftrightarrow> g) \<and> (allows (d_action d) \<longleftrightarrow> g)"
  using assms(3)
proof (cases rule: check_verdict_cases)
  case unknown
  then show ?thesis by (simp add: explained_def deny_def allows_def)
next
  case (pressure p d0)
  let ?a = "loxbudget_mapped_action p (b_pressure b)"
  have a: "?a \<in> {0, 1, 2, 3, 4}"
    using mapped_action_le [OF config_profile(2) [OF assms(2) pressure(1)]] by (simp add: u8_le_4)
  have "\<not> pressure_allows b p"
    using pressure_stage [OF config_profile(2) [OF assms(2) pressure(1)], of b "init_decision b"] pressure(5,6) by simp
  with pressure a show ?thesis
    by (auto simp: explained_def check_pressure_def deny_def allows_def locked_out_def Let_def split: if_splits)
next
  case (hal p d0)
  have allowed: "pressure_allows b p"
    using pressure_stage [OF config_profile(2) [OF assms(2) hal(1)], of b "init_decision b"] hal(4,5) by simp
  obtain v where v: "hal_answer P b p e = Some v" "d = hal_denial d0 v"
    using check_hal_answer [of P b p d0 e] hal(6) by (cases "hal_answer P b p e") auto
  from v(1) have "v = 0 \<or> v = 2" unfolding hal_answer_def by (rule ask_first_values)
  with v hal(1,2,4) allowed show ?thesis
    by (auto simp: explained_def allows_def hal_denial_def)
next
  case (needs p d0 e2 now npr rt)
  have allowed: "pressure_allows b p"
    using pressure_stage [OF config_profile(2) [OF assms(2) needs(1)], of b "init_decision b"] needs(4,5) by simp
  have gate: "snd (hal_gate P b p e) = e2" "hal_answer P b p e = None"
    using check_hal_gate [of P b p e d0] needs(6) hal_gate_answer [of P b p e] by simp_all
  have c: "check_clock B P b e2 = now"
    using needs(7) by (auto simp: check_clock_def split: if_splits)
  have o: "op_config_ok b op" by (rule config_profile(1) [OF assms(2) needs(1)])
  have "\<exists>n. refused_need B b now p (t_rate b) (op_needs b op) = Some n \<and> need_denial B b now p (t_rate b) n d"
    using o needs(8)
    by (intro check_needs_Some [where d = d0 and npr = "replicate LOXBUDGET_MAX_RESOURCES 0"])
       (auto simp: op_config_ok_def)
  then obtain n where n: "refused_need B b now p (t_rate b) (op_needs b op) = Some n"
    "need_denial B b now p (t_rate b) n d" by blast
  show ?thesis
    using need_denial_action [OF n(2)] n needs(1,2) allowed by (auto simp: explained_def gate c)
next
  case (cascade p d0 e2 now npr rt vis)
  have allowed: "pressure_allows b p"
    using pressure_stage [OF config_profile(2) [OF assms(2) cascade(1)], of b "init_decision b"] cascade(4,5) by simp
  have gate: "snd (hal_gate P b p e) = e2" "hal_answer P b p e = None"
    using check_hal_gate [of P b p e d0] cascade(6) hal_gate_answer [of P b p e] by simp_all
  have c: "check_clock B P b e2 = now"
    using cascade(7) by (auto simp: check_clock_def split: if_splits)
  have dist: "distinct (need_keys (op_needs b op))"
    using config_profile(1) [OF assms(2) cascade(1)] by (simp add: op_config_ok_def)
  have "refused_need B b now p (t_rate b) (op_needs b op) = None"
    using check_needs_None [OF dist, of B b now p d0 "replicate LOXBUDGET_MAX_RESOURCES 0" "t_rate b"] cascade(8)
    by (simp add: refused_need_None)
  moreover have "npr = own_needs b op"
    using check_needs_npr [of B b now p d0 "op_needs b op" "replicate LOXBUDGET_MAX_RESOURCES 0" "t_rate b"]
      own_needs_fold [OF config_profile(1) [OF assms(2) cascade(1)]]
      size_shape_lengths(7) [OF lb_shape_size [OF assms(1)]] cascade(8)
    by simp
  then have "cascade_denial B b op d \<and> d_reason d = LOXBUDGET_REASON_CAUSAL_CASCADE"
    using cascade(9) by (intro check_cascade_Some [where d = d0]) simp
  ultimately show ?thesis
    using cascade(1,2) allowed by (auto simp: explained_def cascade_denial_def allows_def gate c Let_def)
next
  case (granted p d0 e2 now npr rt vis)
  have "admissible B P b op e" using verdict_admissible [OF assms] granted(2) by simp
  moreover from this have "loxbudget_mapped_action p (b_pressure b) \<in> {0, 1}"
    using granted(1) by (simp add: admissible_def pressure_allows_def)
  ultimately show ?thesis
    using granted(1,2,4,10) by (auto simp: explained_def allows_def)
qed

lemma verdict_pressure:
  assumes "check_verdict B P b op e = (d, g, b1, e1)"
  shows "d_pressure d = pressure_of_u8 (b_pressure b)"
proof -
  have need: "d_pressure d' = d_pressure x" if "fst (check_need B b now p x n npr rt) = Some d'" for now p x n npr rt d'
    using that by (auto simp: check_need_def check_rate_def deny_res_def Let_def split: prod.splits if_splits)
  have loop: "d_pressure d' = d_pressure x" if "check_needs B b now p x ns npr rt = (Some d', npr', rt')" for now p x ns npr rt d' npr' rt'
    using that
  proof (induction ns arbitrary: npr rt)
    case (Cons n ns)
    then show ?case using need [of now p x n npr rt] by (auto split: prod.splits option.splits)
  qed simp
  have hal1: "d_pressure d' = d_pressure x" if "check_hal1 fl f q x y = (Some d', y')" for fl f d' x y y' and q :: "'a \<Rightarrow> u8 \<times> 'a"
    using that by (auto simp: check_hal1_def deny_def split: prod.splits if_splits)
  have hal: "d_pressure d' = d_pressure x" if "check_hal P b p x y = (Some d', y')" for p x y y' d'
    using that by (auto simp: check_hal_def split: prod.splits option.splits dest!: hal1)
  have casc1: "d_pressure d' = d_pressure x" if "check_cascade1 b npr x i = Some d'" for npr x i d'
    using that by (auto simp: check_cascade1_def deny_res_def Let_def split: if_splits)
  have casc: "d_pressure d' = d_pressure x" if "check_cascade B b op npr x = (Some d', v)" for npr x v d'
    using that by (auto simp: check_cascade_def split: prod.splits if_splits dest!: check_cascade_from_Some casc1)
  show ?thesis
    using assms
  proof (cases rule: check_verdict_cases)
    case (pressure p d0)
    then show ?thesis by (auto simp: check_pressure_def deny_def split: if_splits)
  next
    case (needs p d0 e2 now npr rt)
    then show ?thesis by (simp add: loop)
  qed (auto simp: deny_def dest!: hal casc)
qed

section \<open>The whole call\<close>

lemma check_run:
  assumes "b_magic b = LOXBUDGET_MAGIC_INIT"
  obtains d g b1 e1 where "check_verdict B P b op e = (d, g, b1, e1)"
    and "loxbudget_check B P b op True e = (LOXBUDGET_OK, Some d, check_finish B P b1 op d g e1)"
proof -
  obtain d g b1 e1 where v: "check_verdict B P b op e = (d, g, b1, e1)"
    by (metis prod.exhaust)
  have "loxbudget_check B P b op True e = (LOXBUDGET_OK, Some d, check_finish B P b1 op d g e1)"
    using assms v by (simp add: loxbudget_check_def split_def)
  with v show thesis by (rule that)
qed

lemma check_returns:
  "b_magic b = LOXBUDGET_MAGIC_INIT \<Longrightarrow> \<exists>d b' e'. loxbudget_check B P b op True e = (LOXBUDGET_OK, Some d, b', e')"
  by (simp add: loxbudget_check_def split_def)

lemma same_but_audit_counters:
  assumes "same_but_audit b c"
  shows "b_total_decisions c = b_total_decisions b" "b_total_grants c = b_total_grants b"
    and "b_total_denials c = b_total_denials b" "b_total_degradations c = b_total_degradations b"
  using assms by (auto simp: same_but_audit_def)

lemma scratch_only_counters:
  assumes "scratch_only b c"
  shows "b_total_decisions c = b_total_decisions b" "b_total_grants c = b_total_grants b"
    and "b_total_denials c = b_total_denials b" "b_total_degradations c = b_total_degradations b"
    and "t_audit c = t_audit b" "b_audit_size c = b_audit_size b" "b_audit_head c = b_audit_head b"
    and "b_audit_count c = b_audit_count b" "b_decision_hook c = b_decision_hook b"
    and "b_decision_hook_user c = b_decision_hook_user b" "same_hal b c"
  using assms by (auto simp: scratch_only_def same_hal_def)

lemma audit_log_cong:
  assumes "t_audit c = t_audit b" "b_audit_size c = b_audit_size b" "b_audit_head c = b_audit_head b"
    and "b_audit_count c = b_audit_count b"
  shows "audit_log c = audit_log b" "audit_ok c = audit_ok b"
proof -
  have "audit_nth c = audit_nth b"
    using assms by (simp add: fun_eq_iff audit_nth_def audit_mask_def)
  with assms show "audit_log c = audit_log b" "audit_ok c = audit_ok b"
    by (simp_all add: audit_log_def audit_ok_def)
qed

lemma check_finish_counters:
  fixes P :: "'e platform"
  defines "b' \<equiv> \<lambda>B (P :: 'e platform) b op d g e. fst (check_finish B P b op d g e)"
  shows "b_total_decisions (b' B P b op d g e) = b_total_decisions b + 1"
    and "b_total_grants (b' B P b op d g e) = b_total_grants b + (if g then 1 else 0)"
    and "b_total_denials (b' B P b op d g e) = b_total_denials b + (if g then 0 else 1)"
    and "b_total_degradations (b' B P b op d g e) =
           b_total_degradations b + (if g \<and> d_action d = LOXBUDGET_ALLOW_DEGRADED then 1 else 0)"
  unfolding b'_def check_finish_record
  using same_but_audit_counters [OF audit_record_frame [of "check_count b d g" B P op d e]]
  by (simp_all add: check_count_def Let_def)

lemma check_finish_audit:
  assumes "audit_on B" "audit_ok b" "b_audit_size b \<noteq> 0"
  shows "audit_log (fst (check_finish B P b op d g e)) =
    take (unat (b_audit_size b))
      (audit_entry (fst (loxbudget_hal_now_ms' P b (loxbudget_critical_enter' P b e))) op d # audit_log b)"
proof -
  let ?c = "check_count b d g" 
  have h: "loxbudget_hal_now_ms' P ?c = loxbudget_hal_now_ms' P b"
    "loxbudget_critical_enter' P ?c = loxbudget_critical_enter' P b"
    by (simp_all add: same_hal_wrappers(1,2) [OF check_count_hal [of b d g]])
  have c: "audit_log ?c = audit_log b" "audit_ok ?c = audit_ok b"
    by (rule audit_log_cong; simp)+
  show ?thesis
    using assms audit_log_push [of ?c]
    by (simp add: check_finish_record loxbudget_audit_record_def Let_def split_def h c)
qed

lemma check_allows:
  assumes "lb_shape B b" "config_ok b" "loxbudget_check B P b op True e = (LOXBUDGET_OK, Some d, b', e')"
  shows "allows (d_action d) \<longleftrightarrow> admissible B P b op e"
proof -
  obtain d1 g b1 e1 where v: "check_verdict B P b op e = (d1, g, b1, e1)"
    and c: "loxbudget_check B P b op True e = (LOXBUDGET_OK, Some d1, check_finish B P b1 op d1 g e1)"
    by (rule check_run [OF shape_magic [OF assms(1)], of B P op e])
  have "d1 = d" using assms(3) c by simp
  with verdict_explained [OF assms(1,2) v] verdict_admissible [OF assms(1,2) v] show ?thesis by simp
qed

text \<open>The application of the witnesses: nothing overridden, a hook that does nothing.\<close>

definition quiet_platform :: "nat platform" where
  "quiet_platform = host_platform (\<lambda>_ _ _ _ _ e. e)"

lemma sample_check:
  "\<exists>d b' e'. loxbudget_check fixed_build quiet_platform sample_ops op True 7 = (LOXBUDGET_OK, Some d, b', e')"
  by (rule check_returns [OF shape_magic [OF sample_ops_ok(1)]])

section \<open>Properties\<close>

text \<open>
  C3. The decision engine grants exactly the admissible operations: on a well-formed instance
  \<open>loxbudget_check\<close> returns OK with a decision whose action allows the operation if and only if the
  pressure map allows it, every required platform query passes, every need fits its
  resource, lifetime budget and rate windows as they are at the call, and the causal
  cascade fits.
\<close>

theorem check_grants_iff_admissible:
  assumes "lb_shape B b" and "config_ok b"
  shows "\<exists>d b' e'. loxbudget_check B P b op True e = (LOXBUDGET_OK, Some d, b', e') \<and>
           (allows (d_action d) \<longleftrightarrow> admissible B P b op e)"
proof -
  obtain d b' e' where "loxbudget_check B P b op True e = (LOXBUDGET_OK, Some d, b', e')"
    using check_returns [OF shape_magic [OF assms(1)], of B P op e] by blast
  with check_allows [OF assms this] show ?thesis by blast
qed

theorem check_grants_iff_admissible_witness:
  "\<exists>d b' e'. loxbudget_check fixed_build quiet_platform sample_ops 0 True 7 =
     (LOXBUDGET_OK, Some d, b', e') \<and>
     (allows (d_action d) \<longleftrightarrow> admissible fixed_build quiet_platform sample_ops 0 7)"
  by (rule check_grants_iff_admissible [OF sample_ops_ok])

text \<open>
  C6. A decision tells the truth, and the whole truth: its reason and its fields hold of the
  state the check was called on, and no other decision does. An operation that is not
  registered is unknown; a lockdown or a profile action of the current pressure blocks;
  the first required platform query that fails gives HAL_NOT_CONFIGURED when it answers
  the sentinel 2 and PRECONDITION_FAIL when it answers 0; otherwise the first need the
  state refuses is named, with the amount it asks and the amount there is, with WAIT
  exactly for a shortage of a reusable resource, and with the lifetime budget judged
  before the rate windows; a cascade denial names the first resource that the accumulated
  needs do not fit; and OK means admissible, with the action of the pressure map.
\<close>

theorem check_decision_explained:
  assumes "lb_shape B b" and "config_ok b"
    and "loxbudget_check B P b op True e = (LOXBUDGET_OK, Some d, b', e')"
  shows "explained B P b op e d \<and> d_pressure d = pressure_of_u8 (b_pressure b) \<and>
         {x. explained B P b op e x \<and> d_pressure x = pressure_of_u8 (b_pressure b)} = {d} \<and>
         (allows (d_action d) \<longleftrightarrow> d_reason d = LOXBUDGET_REASON_OK)"
proof -
  obtain d1 g b1 e1 where v: "check_verdict B P b op e = (d1, g, b1, e1)"
    and c: "loxbudget_check B P b op True e = (LOXBUDGET_OK, Some d1, check_finish B P b1 op d1 g e1)"
    by (rule check_run [OF shape_magic [OF assms(1)], of B P op e])
  have "d1 = d" using assms(3) c by simp
  with verdict_explained [OF assms(1,2) v] verdict_pressure [OF v]
  have d: "explained B P b op e d" "d_pressure d = pressure_of_u8 (b_pressure b)"
    "allows (d_action d) \<longleftrightarrow> d_reason d = LOXBUDGET_REASON_OK" by auto
  moreover have "{x. explained B P b op e x \<and> d_pressure x = pressure_of_u8 (b_pressure b)} = {d}"
  proof (intro set_eqI iffI)
    fix x assume "x \<in> {x. explained B P b op e x \<and> d_pressure x = pressure_of_u8 (b_pressure b)}"
    then have "x = d" using d(2) by (intro explained_unique [OF _ d(1)]) simp_all
    then show "x \<in> {d}" by simp
  qed (simp add: d)
  ultimately show ?thesis by blast
qed

text \<open>An operation that requires the network, on a platform whose callback gives a fixed answer.\<close>

definition sample_net :: loxbudget where
  "sample_net =
     snd (loxbudget_register_op sample_ops
       (Some ((loxbudget_op_profile_default 2)\<lparr>p_flags := LOXBUDGET_OPF_REQUIRES_NETWORK_UP\<rparr>)))"

definition network_platform :: "u8 \<Rightarrow> nat platform" where
  "network_platform v = quiet_platform\<lparr>fn_bool := \<lambda>_ _ e. (v, e)\<rparr>"

lemma sample_net_ok: "lb_shape fixed_build sample_net" "config_ok sample_net"
  unfolding sample_net_def
  by (intro register_op_shape register_op_config sample_ops_ok lb_shape_size [where B = fixed_build])+

theorem check_decision_explained_witness:
  "(\<exists>d b' e'. loxbudget_check fixed_build quiet_platform sample_ops 3 True 7 = (LOXBUDGET_OK, Some d, b', e') \<and>
      explained fixed_build quiet_platform sample_ops 3 7 d \<and> d_reason d = LOXBUDGET_REASON_UNKNOWN_OP) \<and>
   (\<exists>d b' e'. loxbudget_check fixed_build (network_platform 2) sample_net 2 True 7 = (LOXBUDGET_OK, Some d, b', e') \<and>
      explained fixed_build (network_platform 2) sample_net 2 7 d \<and>
      d_reason d = LOXBUDGET_REASON_HAL_NOT_CONFIGURED) \<and>
   (\<exists>d b' e'. loxbudget_check fixed_build (network_platform 0) sample_net 2 True 7 = (LOXBUDGET_OK, Some d, b', e') \<and>
      explained fixed_build (network_platform 0) sample_net 2 7 d \<and>
      d_reason d = LOXBUDGET_REASON_PRECONDITION_FAIL)"
proof -
  have run: "\<exists>d b' e'. loxbudget_check fixed_build P b op True 7 = (LOXBUDGET_OK, Some d, b', e') \<and>
      explained fixed_build P b op 7 d \<and> d_reason d = r"
    if ok: "lb_shape fixed_build b" "config_ok b"
      and r: "map_option d_reason (fst (snd (loxbudget_check fixed_build P b op True 7))) = Some r"
    for P :: "nat platform" and b op r
  proof -
    obtain d b' e' where c: "loxbudget_check fixed_build P b op True 7 = (LOXBUDGET_OK, Some d, b', e')"
      using check_returns [OF shape_magic [OF ok(1)], of fixed_build P op 7] by blast
    moreover from r c have "d_reason d = r" by simp
    ultimately show ?thesis using check_decision_explained [OF ok c] by blast
  qed
  have "map_option d_reason (fst (snd (loxbudget_check fixed_build quiet_platform sample_ops 3 True 7))) =
      Some LOXBUDGET_REASON_UNKNOWN_OP"
    "map_option d_reason (fst (snd (loxbudget_check fixed_build (network_platform 2) sample_net 2 True 7))) =
      Some LOXBUDGET_REASON_HAL_NOT_CONFIGURED"
    "map_option d_reason (fst (snd (loxbudget_check fixed_build (network_platform 0) sample_net 2 True 7))) =
      Some LOXBUDGET_REASON_PRECONDITION_FAIL"
    by code_simp+
  from run [OF sample_ops_ok this(1)] run [OF sample_net_ok this(2)] run [OF sample_net_ok this(3)]
  show ?thesis by blast
qed

text \<open>
  C12. What a check leaves behind: the resources, lease slots, configuration, causal graph and
  pressure of the instance are unchanged, one decision is counted, and it is counted as a
  grant or as a denial according to its action, a degraded grant also as a degradation.
\<close>

theorem check_effect:
  assumes "lb_shape B b" and "config_ok b"
    and "loxbudget_check B P b op True e = (LOXBUDGET_OK, Some d, b', e')"
  shows "t_resources b' = t_resources b \<and> t_lease_slots b' = t_lease_slots b \<and> same_config b b' \<and>
         live_edges b' = live_edges b \<and> b_pressure b' = b_pressure b \<and>
         b_total_decisions b' = b_total_decisions b + 1 \<and>
         b_total_grants b' = b_total_grants b + (if allows (d_action d) then 1 else 0) \<and>
         b_total_denials b' = b_total_denials b + (if allows (d_action d) then 0 else 1) \<and>
         b_total_degradations b' =
           b_total_degradations b + (if d_action d = LOXBUDGET_ALLOW_DEGRADED then 1 else 0)"
proof -
  obtain d1 g b1 e1 where v: "check_verdict B P b op e = (d1, g, b1, e1)"
    and c: "loxbudget_check B P b op True e = (LOXBUDGET_OK, Some d1, check_finish B P b1 op d1 g e1)"
    by (rule check_run [OF shape_magic [OF assms(1)], of B P op e])
  have d: "d1 = d" using assms(3) c by simp
  then have b': "b' = fst (check_finish B P b1 op d g e1)" using assms(3) c by (metis fst_conv prod.inject)
  have "check_frame b b'"
    using check_frame_holds [of b B P op True e] by (simp add: assms(3))
  moreover have "g \<longleftrightarrow> allows (d_action d)"
    using verdict_explained [OF assms(1,2) v] d by simp
  ultimately show ?thesis
    using check_frame_fields [of b b'] check_frame_config [of b b'] b'
      scratch_only_counters [OF check_verdict_frame [OF v]]
    by (simp add: check_finish_counters live_edges_def allows_def)
qed

theorem check_effect_witness:
  "\<exists>d b' e'. loxbudget_check fixed_build quiet_platform sample_ops 0 True 7 =
     (LOXBUDGET_OK, Some d, b', e') \<and> t_resources b' = t_resources sample_ops \<and>
     b_total_decisions b' = b_total_decisions sample_ops + 1"
proof -
  obtain d b' e' where c: "loxbudget_check fixed_build quiet_platform sample_ops 0 True 7 =
     (LOXBUDGET_OK, Some d, b', e')"
    using sample_check [of 0] by blast
  with check_effect [OF sample_ops_ok c] show ?thesis by auto
qed

lemma check_audit_log:
  assumes "lb_shape B b" and "audit_on B" and "b_audit_size b \<noteq> 0"
    and "loxbudget_check B P b op True e = (LOXBUDGET_OK, Some d, b', e')"
  shows "\<exists>now. audit_log b' = take (unat (b_audit_size b)) (audit_entry now op d # audit_log b)"
proof -
  obtain d1 g b1 e1 where v: "check_verdict B P b op e = (d1, g, b1, e1)"
    and c: "loxbudget_check B P b op True e = (LOXBUDGET_OK, Some d1, check_finish B P b1 op d1 g e1)"
    by (rule check_run [OF shape_magic [OF assms(1)], of B P op e])
  note s = scratch_only_counters [OF check_verdict_frame [OF v]]
  have "audit_ok b" using assms(1,3) audit_ok_shape [of b] by (simp add: lb_shape_def)
  then have "audit_log b1 = audit_log b" "audit_ok b1"
    using audit_log_cong [OF s(5-8)] by simp_all
  with check_finish_audit [OF assms(2), of b1 P op d g e1] assms(3,4) s(6) c show ?thesis
    by auto
qed

text \<open>
  C13. Every decision is recorded once: with an audit ring, a check of any operation, granted
  or denied, puts one entry with this operation, action, reason, resource and amounts
  before the entries that were there, the oldest of which is dropped when the ring is full.
\<close>

theorem check_audited:
  assumes "lb_shape B b" and "audit_on B" and "b_audit_size b \<noteq> 0"
    and "loxbudget_check B P b op True e = (LOXBUDGET_OK, Some d, b', e')"
  shows "\<exists>now. audit_log b' = take (unat (b_audit_size b)) (audit_entry now op d # audit_log b)"
  using assms by (rule check_audit_log)

theorem check_audited_witness:
  "\<exists>d b' e' now. loxbudget_check fixed_build quiet_platform sample_ops 0 True 7 =
     (LOXBUDGET_OK, Some d, b', e') \<and> audit_log b' = [audit_entry now 0 d]"
proof -
  obtain d b' e' where c: "loxbudget_check fixed_build quiet_platform sample_ops 0 True 7 =
     (LOXBUDGET_OK, Some d, b', e')"
    using sample_check [of 0] by blast
  have f: "b_audit_size sample_ops = 4" "audit_log sample_ops = []"
    by code_simp+
  have "audit_on fixed_build" by (simp add: fixed_build_def)
  then have "\<exists>now. audit_log b' = take (unat (b_audit_size sample_ops)) (audit_entry now 0 d # audit_log sample_ops)"
    by (intro check_audited [OF sample_ops_ok(1) _ _ c]) (simp_all add: f)
  with c show ?thesis by (auto simp: f)
qed

end
