(* ===== verification/LB_Cascade_Check.thy ===== *)
theory LB_Cascade_Check
  imports LB_Admission
begin

text \<open>
  What the cascade check of \<open>loxbudget_check\<close> buys: a grant leaves room for the operation
  and everything it may trigger directly. Beyond the direct children the promise is
  weaker than it looks: an operation that the depth limit cuts off on one path is lost on
  a shorter path too.
\<close>

section \<open>Direct children\<close>

text \<open>
  C20. Foresight: if an operation is granted while the causal graph is in use, every
  configured resource that is not a state flag has room for the operation's own need plus
  the scaled needs of all operations it may trigger directly at the current pressure
  (up to the accumulators' saturation at 65535).
\<close>

theorem grant_covers_direct_children:
  assumes "lb_shape B b" and "config_ok b" and "edges_ok (b_max_ops b) (live_edges b)"
    and "causality_on B" and "lb__causality_has_storage' B b"
    and "loxbudget_check B P b op True e = (LOXBUDGET_OK, Some d, b', e')" and "allows (d_action d)"
    and "i < unat (b_max_resources b)" and "t_res_cfg b ! i \<noteq> 0" and "r_kind (t_resources b ! i) \<noteq> 2"
  shows "min 65535 (unat (own_needs b op ! i) + edges_cost B b (direct_edges b op) i) \<le> room (t_resources b ! i)"
proof -
  have adm: "admissible B P b op e"
    using check_allows [OF assms(1,2,6)] assms(7) by simp
  then obtain p where p: "loxbudget_profile_c b op = Some p"
    by (auto simp: admissible_def split: option.splits)
  with adm have fit: "cascade_fits B b op" by (simp add: admissible_def)
  have i8: "i < length (own_needs b op)"
    using assms(8) size_shape_lengths(7) [OF lb_shape_size [OF assms(1)]] by (simp add: own_needs_def)
  have "cascade_ready B b"
    using assms by (simp add: cascade_ready_def shape_graph)
  from add_scaled_needs_result [OF this profile_SomeD(1) [OF p], of "own_needs b op"] obtain vis npr where
    w: "lb__causality_add_scaled_needs B b op (own_needs b op) = (True, vis, npr)"
    and n: "min 65535 (unat (own_needs b op ! i) + edges_cost B b (direct_edges b op) i) \<le> unat (npr ! i)"
    using i8 assms(8) by blast
  have "fits b i (npr ! i)"
    using fit assms(4,8) by (simp add: cascade_fits_def total_needs_def w)
  then have "unat (npr ! i) \<le> room (t_resources b ! i)"
    using assms(9,10) by (auto simp: fits_def)
  with n show ?thesis by simp
qed

section \<open>An example with five operations\<close>

text \<open>
  One reusable resource of 100 units and five operations; operation 0 needs 10 units,
  operation 4 needs all 100.
\<close>

definition deep_ops :: loxbudget where
  "deep_ops =
     (let b = snd (loxbudget_set_resource
            (init_tables graph_build (init_struct graph_build 16384 (loxbudget_config_simple 1 5))) 0 100 0);
          b = fold (\<lambda>op b. snd (loxbudget_register_op b (Some (loxbudget_op_profile_default op)))) [0, 1, 2, 3, 4] b;
          b = snd (loxbudget_op_set_need b 0 0 10)
      in snd (loxbudget_op_set_need b 4 0 100))"

definition outcome :: "loxbudget \<Rightarrow> u8 \<Rightarrow> (loxbudget_action \<times> loxbudget_reason \<times> u16) option" where
  "outcome b op =
     map_option (\<lambda>d. (d_action d, d_reason d, d_requested d))
       (fst (snd (loxbudget_check graph_build quiet_platform b op True 7)))"

text \<open>Operation 0 triggers 1 and, along a path, 2 and 3; and 1 triggers 4.\<close>

definition deep_graph :: loxbudget where
  "deep_graph = snd (trigger_all [(0, 1), (0, 2), (2, 3), (1, 4)] deep_ops)"

lemma deep_accepts:
  "fst (trigger_all [(0, 1), (0, 2), (2, 3), (1, 4)] deep_ops) = replicate 4 LOXBUDGET_OK"
  by code_simp

text \<open>
  The depth limit loses children of shallow operations. In the graph above operation 0
  triggers 1, and 1 triggers 4, so a check of 0 sees the 100 units of 4 and answers WAIT.
  One more edge, from 3 to 1 at the end of the longer path 0, 2, 3, is accepted, and the
  same check grants: the walk reaches 1 at depth 3 first, marks it visited without looking
  at its children, and never comes back to it at depth 1.
\<close>

lemma cascade_depth_loses_children:
  "outcome deep_graph 0 = Some (LOXBUDGET_WAIT, LOXBUDGET_REASON_CAUSAL_CASCADE, 110) \<and>
   fst (trigger_all [(3, 1)] deep_graph) = [LOXBUDGET_OK] \<and>
   outcome (snd (trigger_all [(3, 1)] deep_graph)) 0 = Some (LOXBUDGET_ALLOW_FULL, LOXBUDGET_REASON_OK, 0)"
  by (intro conjI) code_simp+

section \<open>A witness\<close>

definition pair_graph :: loxbudget where
  "pair_graph = snd (trigger_all [(0, 1)] deep_ops)"

lemma deep_ops_ok: "lb_shape graph_build deep_ops" "config_ok deep_ops"
proof -
  have v: "loxbudget_validate_init_args 4 4 16384 (Some (loxbudget_config_simple 1 5)) = LOXBUDGET_OK"
    by (simp add: valid_args_cfg loxbudget_config_simple_def loxbudget_is_aligned_u32_def
        loxbudget_is_pow2_or_zero_u8_def)
  let ?b = "init_tables graph_build (init_struct graph_build 16384 (loxbudget_config_simple 1 5))"
  have "lb_shape graph_build (?b\<lparr>b_lease_magic_base := b_lease_magic_base ?b\<rparr>)"
    by (rule init_tables_shape [OF v])
  then have s: "lb_shape graph_build ?b" by simp
  have c: "config_ok ?b"
    by (rule config_ok_blank [OF lb_shape_size [OF s]]) (simp_all add: loxbudget_config_simple_def)
  show "lb_shape graph_build deep_ops"
    using s by (simp add: deep_ops_def Let_def register_op_shape set_resource_shape op_set_need_shape)
  show "config_ok deep_ops"
    using s c by (simp add: deep_ops_def Let_def register_op_config set_resource_config op_set_need_config
        register_op_shape set_resource_shape op_set_need_shape lb_shape_size [where B = graph_build])
qed

lemma pair_graph_facts:
  "lb__causality_has_storage' graph_build pair_graph" "edges_ok (b_max_ops pair_graph) (live_edges pair_graph)"
  "b_max_resources pair_graph = 1" "t_res_cfg pair_graph ! 0 = 1" "r_kind (t_resources pair_graph ! 0) = 0"
  by code_simp+

lemma pair_graph_outcome: "outcome pair_graph 0 = Some (LOXBUDGET_ALLOW_FULL, LOXBUDGET_REASON_OK, 0)"
  by code_simp

lemma pair_graph_run:
  "loxbudget_op_may_trigger graph_build (Some deep_ops) 0 1 LOXBUDGET_TRIGGER_ALWAYS = (LOXBUDGET_OK, Some pair_graph)"
  by code_simp

lemma deep_ops_edges: "edges_ok (b_max_ops deep_ops) (live_edges deep_ops)"
  by code_simp

lemma pair_graph_ok: "lb_shape graph_build pair_graph" "config_ok pair_graph"
proof -
  show "lb_shape graph_build pair_graph"
    by (rule may_trigger_shape(1) [OF pair_graph_run deep_ops_ok(1) deep_ops_edges])
  have "only_graph deep_ops pair_graph" using may_trigger_frame [OF pair_graph_run] by simp
  then show "config_ok pair_graph"
    by (rule same_config_ok [OF only_graph_config lb_shape_size [OF deep_ops_ok(1)] deep_ops_ok(2)])
qed

theorem grant_covers_direct_children_witness:
  "min 65535 (unat (own_needs pair_graph 0 ! 0) + edges_cost graph_build pair_graph (direct_edges pair_graph 0) 0)
     \<le> room (t_resources pair_graph ! 0)"
proof -
  obtain d b' e' where c: "loxbudget_check graph_build quiet_platform pair_graph 0 True 7 = (LOXBUDGET_OK, Some d, b', e')"
    using check_returns [OF shape_magic [OF pair_graph_ok(1)], of graph_build quiet_platform 0 7] by blast
  have "d_action d = LOXBUDGET_ALLOW_FULL"
    using pair_graph_outcome unfolding outcome_def c by simp
  then have allowed: "allows (d_action d)" by (simp add: allows_def)
  have on: "causality_on graph_build" by (simp add: fixed_build_def graph_build_def)
  show ?thesis
    by (rule grant_covers_direct_children [OF pair_graph_ok pair_graph_facts(2) on pair_graph_facts(1) c allowed])
      (simp_all add: pair_graph_facts(3-5))
qed

end
