(* ===== verification/LB_Lease.thy ===== *)
theory LB_Lease
  imports LB_Admission
begin

text \<open>
  Leases: \<open>loxbudget_enter\<close>, \<open>loxbudget_leave\<close> and \<open>loxbudget_yield_check\<close>
  (\<open>src/loxbudget_core.c\<close>). Entering is a check, a second validation of the needs outside
  the critical section (together \<open>enter_prepare\<close>), and the slot allocation with all
  reservations inside it (\<open>enter_commit\<close>); the two are separate definitions because
  another task may run between them.
\<close>

section \<open>Definitions\<close>

definition loxbudget_lease_magic_for_id' :: "loxbudget \<Rightarrow> u8 \<Rightarrow> u16" where
  "loxbudget_lease_magic_for_id' b i = b_lease_magic_base b XOR ucast i"

definition zero_lease :: loxbudget_lease where
  "zero_lease = \<lparr>l_acquired_at_ms = 0, l_magic = 0, l_id = 0, l_op = 0\<rparr>"

subsection \<open>Enter\<close>

text \<open>Phase A: the needs are validated again on the resources.\<close>

fun enter_validate :: "loxbudget \<Rightarrow> loxbudget_need list \<Rightarrow> bool" where
  "enter_validate b [] = True"
| "enter_validate b (n # ns) =
     (if n_amount n = 0 then enter_validate b ns
      else let r = t_resources b ! unat (n_resource n) in
        if kind_of_u8 (r_kind r) = LOXBUDGET_RES_STATE
        then (if r_limit r = 0 then False else enter_validate b ns)
        else if available r < n_amount n then False
        else enter_validate b ns)"

definition enter_prepare ::
    "build \<Rightarrow> 'e platform \<Rightarrow> loxbudget \<Rightarrow> u8 \<Rightarrow> bool \<Rightarrow> 'e \<Rightarrow>
     (loxbudget_status \<times> loxbudget_lease option + loxbudget_op_profile) \<times> loxbudget \<times> 'e" where
  "enter_prepare B P b op out_ok e =
     (case loxbudget_check B P b op True e of (st, d, b1, e1) \<Rightarrow>
       (if st \<noteq> LOXBUDGET_OK then Inl (st, None)
        else if \<not> out_ok then Inl (LOXBUDGET_ERR_INVALID_ARG, None)
        else (case loxbudget_profile_c b1 op of
            None \<Rightarrow> Inl (LOXBUDGET_ERR_BAD_STATE, None)
          | Some p \<Rightarrow>
              if d_action (the d) \<noteq> LOXBUDGET_ALLOW_FULL \<and> d_action (the d) \<noteq> LOXBUDGET_ALLOW_DEGRADED
              then Inl (LOXBUDGET_ERR_BAD_STATE, Some zero_lease)
              else if \<not> enter_validate b1 (op_needs b1 op) then Inl (LOXBUDGET_ERR_BAD_STATE, None)
              else Inr p), b1, e1))"

text \<open>The mutations of one resource: \<open>uint16_t\<close> additions, and the watermark.\<close>

definition reserve :: "u16 \<Rightarrow> loxbudget_resource \<Rightarrow> loxbudget_resource" where
  "reserve a r =
     (let v = r_reserved r + a
      in r\<lparr>r_reserved := v, r_high_watermark := (if v > r_high_watermark r then v else r_high_watermark r)\<rparr>)"

definition consume :: "u16 \<Rightarrow> loxbudget_resource \<Rightarrow> loxbudget_resource" where
  "consume a r =
     (let v = r_used r + a
      in r\<lparr>r_used := v, r_high_watermark := (if v > r_high_watermark r then v else r_high_watermark r)\<rparr>)"

definition commit_rate :: "build \<Rightarrow> u32 \<Rightarrow> u16 \<Rightarrow> rate_state \<Rightarrow> rate_state" where
  "commit_rate B now a rs =
     rs\<lparr>rs_windows := map (\<lambda>w. lb__rate_commit B w now (ucast a)) (rs_windows rs),
        rs_consumed_lifetime :=
          (if 0xFFFFFFFF - rs_consumed_lifetime rs < ucast a then 0xFFFFFFFF
           else rs_consumed_lifetime rs + ucast a)\<rparr>"

definition commit_need ::
    "build \<Rightarrow> 'e platform \<Rightarrow> loxbudget_op_profile \<Rightarrow> loxbudget_need \<Rightarrow> loxbudget \<times> 'e \<Rightarrow> loxbudget \<times> 'e" where
  "commit_need B P p n be =
     (case be of (b, e) \<Rightarrow>
       let i = unat (n_resource n); r = t_resources b ! i in
       if n_amount n = 0 then (b, e)
       else if kind_of_u8 (r_kind r) = LOXBUDGET_RES_REUSABLE
       then (b\<lparr>t_resources := upd_at i (reserve (n_amount n)) (t_resources b)\<rparr>, e)
       else if kind_of_u8 (r_kind r) = LOXBUDGET_RES_CONSUMABLE
       then let b1 = b\<lparr>t_resources := upd_at i (consume (n_amount n)) (t_resources b)\<rparr> in
            if rate_on B \<and> \<not> has_flag (p_flags p) LOXBUDGET_OPF_BYPASS_RATE_LIMIT
            then (case loxbudget_hal_now_ms' P b1 e of (now, e1) \<Rightarrow>
                    (b1\<lparr>t_rate := upd_at i (commit_rate B now (n_amount n)) (t_rate b1)\<rparr>, e1))
            else (b1, e)
       else (b, e))"

definition free_slot :: "loxbudget \<Rightarrow> nat option" where
  "free_slot b = first_index (\<lambda>s. ls_active s = 0) (take (unat (b_max_leases b)) (t_lease_slots b))"

text \<open>The critical section of \<open>loxbudget_enter\<close>.\<close>

definition enter_commit ::
    "build \<Rightarrow> 'e platform \<Rightarrow> loxbudget \<Rightarrow> u8 \<Rightarrow> loxbudget_op_profile \<Rightarrow> 'e \<Rightarrow>
     loxbudget_status \<times> loxbudget_lease option \<times> loxbudget \<times> 'e" where
  "enter_commit B P b op p e =
     (let e1 = loxbudget_critical_enter' P b e in
      case free_slot b of
        None \<Rightarrow> (LOXBUDGET_ERR_NO_SPACE, None, b, loxbudget_critical_exit' P b e1)
      | Some i \<Rightarrow>
          (case fold (commit_need B P p) (op_needs b op) (b, e1) of (b1, e2) \<Rightarrow>
             let magic = loxbudget_lease_magic_for_id' b (of_nat i);
                 b2 = b1\<lparr>t_lease_slots := (t_lease_slots b1)[i :=
                        \<lparr>ls_magic = magic, ls_active = 1, ls_acquired_pressure = b_pressure b1\<rparr>]\<rparr>
             in case loxbudget_hal_now_ms' P b2 e2 of (now, e3) \<Rightarrow>
                  (LOXBUDGET_OK,
                   Some \<lparr>l_acquired_at_ms = now, l_magic = magic, l_id = of_nat i, l_op = op\<rparr>,
                   b2, loxbudget_critical_exit' P b2 e3)))"

definition loxbudget_enter ::
    "build \<Rightarrow> 'e platform \<Rightarrow> loxbudget \<Rightarrow> u8 \<Rightarrow> bool \<Rightarrow> 'e \<Rightarrow>
     loxbudget_status \<times> loxbudget_lease option \<times> loxbudget \<times> 'e" where
  "loxbudget_enter B P b op out_ok e =
     (case enter_prepare B P b op out_ok e of
        (Inl (st, out), b1, e1) \<Rightarrow> (st, out, b1, e1)
      | (Inr p, b1, e1) \<Rightarrow> enter_commit B P b1 op p e1)"

subsection \<open>Leave\<close>

definition release :: "u16 \<Rightarrow> loxbudget_resource \<Rightarrow> loxbudget_resource" where
  "release a r = r\<lparr>r_reserved := (if r_reserved r \<ge> a then r_reserved r - a else 0)\<rparr>"

definition release_need :: "loxbudget_need \<Rightarrow> loxbudget_resource list \<Rightarrow> loxbudget_resource list" where
  "release_need n rs =
     (if n_amount n = 0 then rs
      else if kind_of_u8 (r_kind (rs ! unat (n_resource n))) = LOXBUDGET_RES_REUSABLE
      then upd_at (unat (n_resource n)) (release (n_amount n)) rs
      else rs)"

definition loxbudget_leave ::
    "'e platform \<Rightarrow> loxbudget \<Rightarrow> loxbudget_lease \<Rightarrow> 'e \<Rightarrow> loxbudget_status \<times> loxbudget \<times> 'e" where
  "loxbudget_leave P b l e =
     (let st = loxbudget_validate_budget (Some b) in
      if st \<noteq> LOXBUDGET_OK then (st, b, e)
      else if l_id l \<ge> b_max_leases b then (LOXBUDGET_ERR_INVALID_ARG, b, e)
      else if l_magic l \<noteq> loxbudget_lease_magic_for_id' b (l_id l) then (LOXBUDGET_ERR_BAD_STATE, b, e)
      else (case loxbudget_profile_c b (l_op l) of
          None \<Rightarrow> (LOXBUDGET_ERR_BAD_STATE, b, e)
        | Some p \<Rightarrow>
            let e1 = loxbudget_critical_enter' P b e; i = unat (l_id l); s = t_lease_slots b ! i in
            if ls_active s = 0 \<or> ls_magic s \<noteq> l_magic l
            then (LOXBUDGET_ERR_BAD_STATE, b, loxbudget_critical_exit' P b e1)
            else let b1 = b\<lparr>t_resources := fold release_need (op_needs b (l_op l)) (t_resources b),
                            t_lease_slots := upd_at i (\<lambda>s. s\<lparr>ls_active := 0, ls_magic := 0\<rparr>) (t_lease_slots b)\<rparr>
                 in (LOXBUDGET_OK, b1, loxbudget_critical_exit' P b1 e1)))"

subsection \<open>Yield\<close>

definition yield_hint :: "loxbudget_op_profile \<Rightarrow> u8 \<Rightarrow> u8 \<Rightarrow> loxbudget_pressure_hint" where
  "yield_hint p prev cur =
     (let out = (if cur = prev then LOXBUDGET_PRESSURE_HOLDING
                 else if cur > prev then LOXBUDGET_PRESSURE_RISING
                 else LOXBUDGET_PRESSURE_FALLING);
          a = loxbudget_mapped_action p cur
      in if cur = u8_of_pressure LOXBUDGET_PRESSURE_LOCKDOWN \<and> \<not> has_flag (p_flags p) LOXBUDGET_OPF_LOCKDOWN_PASS
         then LOXBUDGET_SHOULD_ABORT
         else if a = u8_of_action LOXBUDGET_WAIT \<or> a = u8_of_action LOXBUDGET_REJECT \<or>
                 a = u8_of_action LOXBUDGET_LOCKDOWN
         then LOXBUDGET_SHOULD_ABORT
         else out)"

definition loxbudget_yield_check ::
    "loxbudget \<Rightarrow> loxbudget_lease \<Rightarrow> bool \<Rightarrow> loxbudget_status \<times> loxbudget_pressure_hint option" where
  "loxbudget_yield_check b l out_ok =
     (let st = loxbudget_validate_budget (Some b) in
      if st \<noteq> LOXBUDGET_OK \<or> \<not> out_ok
      then (if \<not> out_ok then LOXBUDGET_ERR_INVALID_ARG else st, None)
      else if l_id l \<ge> b_max_leases b then (LOXBUDGET_ERR_INVALID_ARG, None)
      else if l_magic l \<noteq> loxbudget_lease_magic_for_id' b (l_id l) then (LOXBUDGET_ERR_BAD_STATE, None)
      else (case loxbudget_profile_c b (l_op l) of
          None \<Rightarrow> (LOXBUDGET_ERR_BAD_STATE, None)
        | Some p \<Rightarrow>
            let s = t_lease_slots b ! unat (l_id l) in
            if ls_active s = 0 \<or> ls_magic s \<noteq> l_magic l then (LOXBUDGET_ERR_BAD_STATE, None)
            else (LOXBUDGET_OK, Some (yield_hint p (ls_acquired_pressure s) (b_pressure b)))))"

section \<open>Applying the needs to a table\<close>

text \<open>
  Reserving, charging and releasing all walk the needs and update one entry per live need.
  As the keys are different, the result is given by the map of the needs.
\<close>

definition on_needs :: "(u16 \<Rightarrow> 'a \<Rightarrow> 'a) \<Rightarrow> loxbudget_need list \<Rightarrow> 'a list \<Rightarrow> 'a list" where
  "on_needs f ns xs =
     fold (\<lambda>n xs. if live n then upd_at (unat (n_resource n)) (f (n_amount n)) xs else xs) ns xs"

lemma on_needs_simps [simp]:
  "on_needs f [] xs = xs"
  "on_needs f (n # ns) xs =
     on_needs f ns (if live n then upd_at (unat (n_resource n)) (f (n_amount n)) xs else xs)"
  by (simp_all add: on_needs_def)

lemma length_on_needs [simp]: "length (on_needs f ns xs) = length xs"
  by (induction ns arbitrary: xs) simp_all

definition amount_of :: "loxbudget_need list \<Rightarrow> nat \<Rightarrow> u16" where
  "amount_of ns i = (case need_map ns (of_nat i) of Some a \<Rightarrow> a | None \<Rightarrow> 0)"

lemma need_map_live: "need_map ns r = Some a \<Longrightarrow> a \<noteq> 0"
  by (auto simp: need_map_def live_def dest!: map_of_SomeD)

lemma on_needs_nth:
  assumes "distinct (need_keys ns)" "i < length xs" "i < 256"
  shows "on_needs f ns xs ! i = (case need_map ns (of_nat i) of None \<Rightarrow> xs ! i | Some a \<Rightarrow> f a (xs ! i))"
  using assms
proof (induction ns arbitrary: xs)
  case Nil
  then show ?case by simp
next
  case (Cons n ns)
  have i: "unat (n_resource n) = i \<longleftrightarrow> of_nat i = n_resource n"
    using Cons.prems(3) by (auto simp: word_unat_eq_iff unat_of_nat)
  have tl: "distinct (need_keys ns)" by (rule distinct_keys_tl [OF Cons.prems(1)])
  show ?case
  proof (cases "live n \<and> of_nat i = n_resource n")
    case True
    then have "need_map ns (of_nat i) = None"
      using Cons.prems(1) by (metis distinct.simps(2) domIff dom_need_map need_Cons(1))
    with True Cons.IH [OF tl, of "upd_at i (f (n_amount n)) xs"] Cons.prems(2,3) i show ?thesis by simp
  next
    case False
    define ys where "ys = (if live n then upd_at (unat (n_resource n)) (f (n_amount n)) xs else xs)"
    have "ys ! i = xs ! i" "length ys = length xs"
      using False i by (auto simp: ys_def)
    moreover have "need_map (n # ns) (of_nat i) = need_map ns (of_nat i)" using False by auto
    ultimately show ?thesis
      using Cons.IH [OF tl, of ys] Cons.prems(2,3) unfolding on_needs_simps(2) ys_def [symmetric] by (simp del: need_Cons split: option.splits)
  qed
qed

lemma on_needs_map:
  assumes "\<And>a x. g (f a x) = g x"
  shows "map g (on_needs f ns xs) = map g xs"
proof (induction ns arbitrary: xs)
  case (Cons n ns)
  have "map g (upd_at j (f a) xs) = map g xs" for j a
    by (rule nth_equalityI) (auto simp: nth_upd_at assms)
  with Cons show ?case by simp
qed simp

lemma on_needs_cong:
  assumes "\<And>n xs. n \<in> set ns \<Longrightarrow> step n xs = (if live n then upd_at (unat (n_resource n)) (f (n_amount n)) xs else xs)"
  shows "fold step ns xs = on_needs f ns xs"
  using assms by (induction ns arbitrary: xs) auto

text \<open>The three updates, each by the kind of the resource.\<close>

definition take_on :: "u16 \<Rightarrow> loxbudget_resource \<Rightarrow> loxbudget_resource" where
  "take_on a r = (if r_kind r = 0 then reserve a r else if r_kind r = 1 then consume a r else r)"

definition give_back :: "u16 \<Rightarrow> loxbudget_resource \<Rightarrow> loxbudget_resource" where
  "give_back a r = (if r_kind r = 0 then release a r else r)"

lemma take_on_frame [simp]:
  "r_limit (take_on a r) = r_limit r" "r_kind (take_on a r) = r_kind r" "r_flags (take_on a r) = r_flags r"
  by (simp_all add: take_on_def reserve_def consume_def Let_def)

lemma give_back_frame [simp]:
  "r_limit (give_back a r) = r_limit r" "r_kind (give_back a r) = r_kind r" "r_flags (give_back a r) = r_flags r"
  "r_used (give_back a r) = r_used r" "r_high_watermark (give_back a r) = r_high_watermark r"
  by (simp_all add: give_back_def release_def)

lemma release_needs_eq: "fold release_need ns rs = on_needs give_back ns rs"
proof (rule on_needs_cong)
  fix n and rs :: "loxbudget_resource list"
  show "release_need n rs = (if live n then upd_at (unat (n_resource n)) (give_back (n_amount n)) rs else rs)"
    by (auto simp: release_need_def live_def give_back_def upd_at_def intro: nth_equalityI)
qed

text \<open>Charging the rate table with the amounts \<open>f\<close>, each at some reading of the clock.\<close>

definition charged ::
    "build \<Rightarrow> loxbudget_op_profile \<Rightarrow> loxbudget_resource list \<Rightarrow> (nat \<Rightarrow> u16) \<Rightarrow> rate_state list \<Rightarrow> rate_state list \<Rightarrow> bool" where
  "charged B p rs f rt rt' \<longleftrightarrow>
     map (\<lambda>r. length (rs_windows r)) rt' = map (\<lambda>r. length (rs_windows r)) rt \<and> length rt' = length rt \<and>
     (\<forall>j. j < length rt \<longrightarrow> j < length rs \<longrightarrow> j < 256 \<longrightarrow>
        (if f j \<noteq> 0 \<and> rated B p (rs ! j) then \<exists>now. rt' ! j = commit_rate B now (f j) (rt ! j)
         else rt' ! j = rt ! j))"

lemma charged_cong:
  assumes "\<And>j. j < 256 \<Longrightarrow> f j = g j"
  shows "charged B p rs f rt rt' = charged B p rs g rt rt'"
  using assms by (auto simp: charged_def)

lemma charged_step:
  assumes "charged B p rs f rt rt1" "charged B p rs' g rt1 rt2"
    and "\<And>j. j < 256 \<Longrightarrow> f j = 0 \<or> g j = 0" "map r_kind rs' = map r_kind rs"
  shows "charged B p rs (\<lambda>j. if f j \<noteq> 0 then f j else g j) rt rt2"
proof -
  have l: "length rs' = length rs" using map_eq_imp_length_eq [OF assms(4)] .
  have "rated B p (rs' ! j) = rated B p (rs ! j)" if "j < length rs" for j
    using that l arg_cong [OF assms(4), where f = "\<lambda>xs. xs ! j"] by (simp add: rated_def)
  moreover have z: "g j = 0" if "j < 256" "f j \<noteq> 0" for j
    using assms(3) that by blast
  ultimately show ?thesis
    using assms(1,2) l by (auto simp: charged_def z)
qed

definition amount1 :: "loxbudget_need \<Rightarrow> nat \<Rightarrow> u16" where
  "amount1 n j = (if live n \<and> j = unat (n_resource n) then n_amount n else 0)"

lemma amount_of_Cons:
  assumes "distinct (need_keys (n # ns))" "j < 256"
  shows "amount_of (n # ns) j = (if amount1 n j \<noteq> 0 then amount1 n j else amount_of ns j)"
    and "amount1 n j = 0 \<or> amount_of ns j = 0"
proof -
  have j: "j = unat (n_resource n) \<longleftrightarrow> of_nat j = n_resource n"
    using assms(2) by (auto simp: word_unat_eq_iff unat_of_nat)
  have "need_map ns (n_resource n) = None" if "live n"
    using that assms(1) by (metis distinct.simps(2) domIff dom_need_map need_Cons(1))
  then show "amount_of (n # ns) j = (if amount1 n j \<noteq> 0 then amount1 n j else amount_of ns j)"
    and "amount1 n j = 0 \<or> amount_of ns j = 0"
    by (auto simp: amount_of_def amount1_def j live_def)
qed

lemma amount_of_Nil [simp]: "amount_of [] j = 0"
  by (simp add: amount_of_def)

lemma commit_need_eq:
  "\<exists>rt e'. commit_need B P p n (b, e) =
       (b\<lparr>t_resources := (if live n then upd_at (unat (n_resource n)) (take_on (n_amount n)) (t_resources b)
                         else t_resources b), t_rate := rt\<rparr>, e') \<and>
     charged B p (t_resources b) (amount1 n) (t_rate b) rt"
proof -
  let ?i = "unat (n_resource n)"
  have same: "upd_at ?i (take_on (n_amount n)) (t_resources b) = t_resources b"
    if "r_kind (t_resources b ! ?i) \<noteq> 0" "r_kind (t_resources b ! ?i) \<noteq> 1"
    using that by (intro upd_at_id) (simp add: take_on_def)
  have upd: "upd_at ?i (reserve (n_amount n)) (t_resources b) = upd_at ?i (take_on (n_amount n)) (t_resources b)"
    if "r_kind (t_resources b ! ?i) = 0"
    using that by (simp add: upd_at_def take_on_def)
  have upd': "upd_at ?i (consume (n_amount n)) (t_resources b) = upd_at ?i (take_on (n_amount n)) (t_resources b)"
    if "r_kind (t_resources b ! ?i) = 1"
    using that by (simp add: upd_at_def take_on_def)
  have win: "map (\<lambda>r. length (rs_windows r)) (upd_at ?i (commit_rate B now a) (t_rate b)) =
      map (\<lambda>r. length (rs_windows r)) (t_rate b)" for now a
    by (rule nth_equalityI) (auto simp: nth_upd_at commit_rate_def)
  show ?thesis
  proof (cases "live n \<and> rated B p (t_resources b ! ?i)")
    case True
    obtain now e1 where c: "loxbudget_hal_now_ms' P (b\<lparr>t_resources := upd_at ?i (consume (n_amount n)) (t_resources b)\<rparr>) e = (now, e1)"
      by fastforce
    show ?thesis
      by (rule exI [of _ "upd_at ?i (commit_rate B now (n_amount n)) (t_rate b)"], rule exI [of _ e1])
        (use True c upd' win in \<open>auto simp: commit_need_def rated_def live_def nth_upd_at charged_def amount1_def Let_def\<close>)
  next
    case False
    show ?thesis
      by (rule exI [of _ "t_rate b"], rule exI [of _ e])
        (use False same upd upd' in \<open>auto simp: commit_need_def rated_def live_def charged_def amount1_def Let_def\<close>)
  qed
qed

lemma commit_needs_eq:
  assumes "distinct (need_keys ns)"
  shows "\<exists>rt e'. fold (commit_need B P p) ns (b, e) = (b\<lparr>t_resources := on_needs take_on ns (t_resources b), t_rate := rt\<rparr>, e') \<and>
     charged B p (t_resources b) (amount_of ns) (t_rate b) rt"
  using assms
proof (induction ns arbitrary: b e)
  case Nil
  show ?case by (intro exI [of _ "t_rate b"] exI [of _ e]) (simp add: charged_def)
next
  case (Cons n ns)
  let ?rs = "if live n then upd_at (unat (n_resource n)) (take_on (n_amount n)) (t_resources b) else t_resources b"
  obtain rt1 e1 where c: "commit_need B P p n (b, e) = (b\<lparr>t_resources := ?rs, t_rate := rt1\<rparr>, e1)"
    and r1: "charged B p (t_resources b) (amount1 n) (t_rate b) rt1"
    using commit_need_eq [of B P p n b e] by blast
  define b1 where "b1 = b\<lparr>t_resources := ?rs, t_rate := rt1\<rparr>"
  obtain rt e' where f: "fold (commit_need B P p) ns (b1, e1) =
      (b1\<lparr>t_resources := on_needs take_on ns (t_resources b1), t_rate := rt\<rparr>, e')"
    and r2: "charged B p (t_resources b1) (amount_of ns) (t_rate b1) rt"
    using Cons.IH [OF distinct_keys_tl [OF Cons.prems], of b1 e1] by blast
  have "map r_kind ?rs = map r_kind (t_resources b)"
    using on_needs_map [of r_kind take_on "[n]" "t_resources b"] by simp
  then have "charged B p (t_resources b) (\<lambda>j. if amount1 n j \<noteq> 0 then amount1 n j else amount_of ns j) (t_rate b) rt"
    using r2 amount_of_Cons(2) [OF Cons.prems] by (intro charged_step [OF r1, of ?rs]) (simp_all add: b1_def)
  then have "charged B p (t_resources b) (amount_of (n # ns)) (t_rate b) rt"
    by (subst charged_cong [OF amount_of_Cons(1) [OF Cons.prems]])
  moreover have "fold (commit_need B P p) (n # ns) (b, e) =
      (b\<lparr>t_resources := on_needs take_on (n # ns) (t_resources b), t_rate := rt\<rparr>, e')"
    using f by (simp add: c b1_def)
  ultimately show ?case by blast
qed

section \<open>What entering and leaving do\<close>

subsection \<open>The books\<close>

text \<open>
  Entering and leaving change the resources, the rate table and the lease slots;
  everything else of the instance stays.
\<close>

definition books_only :: "loxbudget \<Rightarrow> loxbudget \<Rightarrow> bool" where
  "books_only b c \<longleftrightarrow> (\<exists>rs rt ls. c = b\<lparr>t_resources := rs, t_rate := rt, t_lease_slots := ls\<rparr>)"

lemma books_only_fields:
  assumes "books_only b c"
  shows "b_magic c = b_magic b" "b_max_resources c = b_max_resources b" "b_max_ops c = b_max_ops b"
    and "b_max_leases c = b_max_leases b" "b_pressure c = b_pressure b" "b_lease_magic_base c = b_lease_magic_base b"
    and "t_res_cfg c = t_res_cfg b" "t_op_cfg c = t_op_cfg b" "t_ops c = t_ops b" "t_needs c = t_needs b"
    and "live_edges c = live_edges b" "same_hal b c" "audit_log c = audit_log b"
    and "b_total_decisions c = b_total_decisions b" "b_total_grants c = b_total_grants b"
    and "b_total_denials c = b_total_denials b" "b_total_degradations c = b_total_degradations b"
proof -
  obtain rs rt ls where c: "c = b\<lparr>t_resources := rs, t_rate := rt, t_lease_slots := ls\<rparr>"
    using assms by (auto simp: books_only_def)
  show "audit_log c = audit_log b" by (rule audit_log_cong) (simp_all add: c)
  show "b_magic c = b_magic b" "b_max_resources c = b_max_resources b" "b_max_ops c = b_max_ops b"
    and "b_max_leases c = b_max_leases b" "b_pressure c = b_pressure b" "b_lease_magic_base c = b_lease_magic_base b"
    and "t_res_cfg c = t_res_cfg b" "t_op_cfg c = t_op_cfg b" "t_ops c = t_ops b" "t_needs c = t_needs b"
    and "live_edges c = live_edges b" "same_hal b c"
    and "b_total_decisions c = b_total_decisions b" "b_total_grants c = b_total_grants b"
    and "b_total_denials c = b_total_denials b" "b_total_degradations c = b_total_degradations b"
    by (simp_all add: c live_edges_def same_hal_def)
qed

lemma books_only_accessors:
  assumes "books_only b c"
  shows "loxbudget_profile_c c = loxbudget_profile_c b" "op_needs c = op_needs b"
    and "loxbudget_lease_magic_for_id' c = loxbudget_lease_magic_for_id' b"
  using books_only_fields [OF assms]
  by (simp_all add: fun_eq_iff loxbudget_profile_c_def op_needs_def loxbudget_lease_magic_for_id'_def)

definition rates_sized :: "rate_state list \<Rightarrow> rate_state list \<Rightarrow> bool" where
  "rates_sized rt rt' \<longleftrightarrow> length rt' = length rt \<and> (rate_table_ok rt \<longrightarrow> rate_table_ok rt')"

lemma books_shape:
  assumes "lb_shape B b" "length rs = length (t_resources b)" "rates_sized (t_rate b) rt"
    and "length ls = length (t_lease_slots b)"
  shows "lb_shape B (b\<lparr>t_resources := rs, t_rate := rt, t_lease_slots := ls\<rparr>)"
proof -
  let ?c = "b\<lparr>t_resources := rs, t_rate := rt, t_lease_slots := ls\<rparr>"
  have "size_shape ?c = size_shape b" using assms(2,4) by (simp add: size_shape_def)
  moreover have "audit_shape ?c = audit_shape b" by (simp add: audit_shape_def)
  moreover have "feature_shape B ?c"
    using assms(1,3) shape_rate_table [OF assms(1)] 
    by (simp add: lb_shape_def feature_shape_def rates_sized_def rate_table_ok_def)
  ultimately show ?thesis using assms(1) by (simp add: lb_shape_def)
qed

lemma books_config:
  assumes "map r_kind rs = map r_kind (t_resources b)" "map r_limit rs = map r_limit (t_resources b)"
  shows "same_config b (b\<lparr>t_resources := rs, t_rate := rt, t_lease_slots := ls\<rparr>)"
  using assms by (simp add: same_config_def)

lemma charged_sized:
  assumes "charged B p rs f rt rt'"
  shows "rates_sized rt rt'"
proof -
  have "map (\<lambda>r. length (rs_windows r)) rt' = map (\<lambda>r. length (rs_windows r)) rt" "length rt' = length rt"
    using assms by (simp_all add: charged_def)
  then have "length (rs_windows (rt' ! j)) = length (rs_windows (rt ! j))" if "j < length rt" for j
    using that by (metis nth_map)
  with \<open>length rt' = length rt\<close> show ?thesis by (simp add: rates_sized_def rate_table_ok_def list_all_length)
qed

subsection \<open>Enter\<close>

lemma validate_needs:
  "enter_validate b ns \<longleftrightarrow>
     (\<forall>n\<in>set ns. live n \<longrightarrow> (let r = t_resources b ! unat (n_resource n) in
        if r_kind r = 2 then r_limit r \<noteq> 0 else unat (n_amount n) \<le> room r))"
  by (induction ns) (auto simp: live_def Let_def word_less_nat_alt not_less)

lemma free_slot_Some:
  assumes "free_slot b = Some i"
  shows "i < unat (b_max_leases b)" "i < length (t_lease_slots b)" "ls_active (t_lease_slots b ! i) = 0"
  using first_index_Some [OF assms [unfolded free_slot_def]] by auto

lemma free_slot_cong:
  "t_lease_slots c = t_lease_slots b \<Longrightarrow> b_max_leases c = b_max_leases b \<Longrightarrow> free_slot c = free_slot b"
  by (simp add: free_slot_def)

definition new_lease :: "loxbudget \<Rightarrow> nat \<Rightarrow> u8 \<Rightarrow> u32 \<Rightarrow> loxbudget_lease" where
  "new_lease b i op now =
     \<lparr>l_acquired_at_ms = now, l_magic = loxbudget_lease_magic_for_id' b (of_nat i), l_id = of_nat i, l_op = op\<rparr>"

text \<open>The instance after entering, up to the rate table \<open>rt\<close>.\<close>

definition entered :: "loxbudget \<Rightarrow> u8 \<Rightarrow> nat \<Rightarrow> rate_state list \<Rightarrow> loxbudget" where
  "entered b op i rt =
     b\<lparr>t_resources := on_needs take_on (op_needs b op) (t_resources b), t_rate := rt,
       t_lease_slots := (t_lease_slots b)[i :=
         \<lparr>ls_magic = loxbudget_lease_magic_for_id' b (of_nat i), ls_active = 1, ls_acquired_pressure = b_pressure b\<rparr>]\<rparr>"

lemma entered_books: "books_only b (entered b op i rt)"
  unfolding books_only_def entered_def by blast

lemma enter_commit_full:
  "free_slot b = None \<Longrightarrow> enter_commit B P b op p e =
     (LOXBUDGET_ERR_NO_SPACE, None, b, loxbudget_critical_exit' P b (loxbudget_critical_enter' P b e))"
  by (simp add: enter_commit_def)

lemma enter_commit_Some:
  assumes "free_slot b = Some i" "distinct (need_keys (op_needs b op))"
  shows "\<exists>rt now e'. enter_commit B P b op p e =
       (LOXBUDGET_OK, Some (new_lease b i op now), entered b op i rt, e') \<and>
     charged B p (t_resources b) (amount_of (op_needs b op)) (t_rate b) rt"
proof -
  obtain rt e2 where f: "fold (commit_need B P p) (op_needs b op) (b, loxbudget_critical_enter' P b e) =
      (b\<lparr>t_resources := on_needs take_on (op_needs b op) (t_resources b), t_rate := rt\<rparr>, e2)"
    and c: "charged B p (t_resources b) (amount_of (op_needs b op)) (t_rate b) rt"
    using commit_needs_eq [OF assms(2), of B P p b "loxbudget_critical_enter' P b e"] by blast
  obtain now e3 where t: "loxbudget_hal_now_ms' P (entered b op i rt) e2 = (now, e3)"
    by fastforce
  have "enter_commit B P b op p e =
    (LOXBUDGET_OK, Some (new_lease b i op now), entered b op i rt, loxbudget_critical_exit' P (entered b op i rt) e3)"
    using t by (simp add: enter_commit_def assms(1) Let_def f new_lease_def entered_def)
  with c show ?thesis by blast
qed

lemma check_frame_accessors:
  assumes "check_frame b b1"
  shows "loxbudget_profile_c b1 = loxbudget_profile_c b" "op_needs b1 = op_needs b" "free_slot b1 = free_slot b"
    and "loxbudget_lease_magic_for_id' b1 = loxbudget_lease_magic_for_id' b"
  using same_config_accessors [OF check_frame_config [OF assms]] check_frame_fields [OF assms]
  by (simp_all add: free_slot_def loxbudget_lease_magic_for_id'_def fun_eq_iff)

text \<open>The instance after a check.\<close>

definition checked :: "build \<Rightarrow> 'e platform \<Rightarrow> loxbudget \<Rightarrow> u8 \<Rightarrow> 'e \<Rightarrow> loxbudget" where
  "checked B P b op e = fst (snd (snd (loxbudget_check B P b op True e)))"

lemma checked_frame: "check_frame b (checked B P b op e)"
  unfolding checked_def by (rule check_frame_holds)

lemma admissible_validates:
  assumes "admissible B P b op e" "check_frame b b1"
  shows "enter_validate b1 (op_needs b1 op)"
proof -
  obtain p now where "\<forall>n\<in>set (op_needs b op). live n \<longrightarrow> need_ok B b now p (t_rate b) n"
    using assms(1) by (auto simp: admissible_def split: option.splits)
  then show ?thesis
    by (auto simp: validate_needs check_frame_accessors [OF assms(2)] check_frame_fields(1) [OF assms(2)]
        need_ok_def Let_def)
qed

lemma prepare_denied:
  assumes "lb_shape B b" "config_ok b" "\<not> admissible B P b op e"
  shows "\<exists>out e1. enter_prepare B P b op True e = (Inl (LOXBUDGET_ERR_BAD_STATE, out), checked B P b op e, e1)"
proof -
  obtain d b1 e1 where c: "loxbudget_check B P b op True e = (LOXBUDGET_OK, Some d, b1, e1)"
    using check_returns [OF shape_magic [OF assms(1)], of B P op e] by blast
  have "\<not> allows (d_action d)" using check_allows [OF assms(1,2) c] assms(3) by simp
  then show ?thesis
    by (auto simp: enter_prepare_def c allows_def checked_def split: option.splits)
qed

lemma prepare_granted:
  assumes "lb_shape B b" "config_ok b" "admissible B P b op e"
  shows "\<exists>p e1. enter_prepare B P b op True e = (Inr p, checked B P b op e, e1) \<and>
           loxbudget_profile_c b op = Some p"
proof -
  obtain d b1 e1 where c: "loxbudget_check B P b op True e = (LOXBUDGET_OK, Some d, b1, e1)"
    using check_returns [OF shape_magic [OF assms(1)], of B P op e] by blast
  have a: "allows (d_action d)" using check_allows [OF assms(1,2) c] assms(3) by simp
  have f: "check_frame b b1" using checked_frame [of b B P op e] by (simp add: c checked_def)
  obtain p where "loxbudget_profile_c b op = Some p"
    using assms(3) by (auto simp: admissible_def split: option.splits)
  with a f admissible_validates [OF assms(3) f] show ?thesis
    by (auto simp: enter_prepare_def c allows_def checked_def check_frame_accessors [OF f])
qed

text \<open>The three outcomes of entering.\<close>

lemma enter_cases:
  assumes "lb_shape B b" "config_ok b"
  obtains (denied) out e1 where "\<not> admissible B P b op e"
      "loxbudget_enter B P b op True e = (LOXBUDGET_ERR_BAD_STATE, out, checked B P b op e, e1)"
  | (full) e1 where "admissible B P b op e" "free_slot b = None"
      "loxbudget_enter B P b op True e = (LOXBUDGET_ERR_NO_SPACE, None, checked B P b op e, e1)"
  | (entered) p i rt now e1 where "admissible B P b op e" "free_slot b = Some i"
      "loxbudget_profile_c b op = Some p"
      "charged B p (t_resources b) (amount_of (op_needs b op)) (t_rate (checked B P b op e)) rt"
      "loxbudget_enter B P b op True e =
         (LOXBUDGET_OK, Some (new_lease b i op now), entered (checked B P b op e) op i rt, e1)"
proof (cases "admissible B P b op e")
  case False
  with prepare_denied [OF assms False] show thesis
    by (auto simp: loxbudget_enter_def intro: denied)
next
  case adm: True
  let ?b = "checked B P b op e"
  obtain p e1 where p: "enter_prepare B P b op True e = (Inr p, ?b, e1)"
    and pr: "loxbudget_profile_c b op = Some p"
    using prepare_granted [OF assms adm] by blast
  have f: "check_frame b ?b" by (rule checked_frame)
  note acc = check_frame_accessors [OF f]
  show thesis
  proof (cases "free_slot b")
    case None
    then have "free_slot ?b = None" by (simp add: acc)
    with p None adm show thesis by (intro full) (simp_all add: loxbudget_enter_def enter_commit_full)
  next
    case (Some i)
    then have i: "free_slot ?b = Some i" by (simp add: acc)
    have "distinct (need_keys (op_needs ?b op))"
      using config_profile(1) [OF assms(2) pr] by (simp add: acc op_config_ok_def)
    from enter_commit_Some [OF i this, of B P p e1] obtain rt now e' where
      c: "enter_commit B P ?b op p e1 = (LOXBUDGET_OK, Some (new_lease ?b i op now), entered ?b op i rt, e')"
      and ch: "charged B p (t_resources ?b) (amount_of (op_needs ?b op)) (t_rate ?b) rt" by blast
    have "new_lease ?b i op now = new_lease b i op now" by (simp add: new_lease_def acc)
    with c p have "loxbudget_enter B P b op True e = (LOXBUDGET_OK, Some (new_lease b i op now), entered ?b op i rt, e')"
      by (simp add: loxbudget_enter_def)
    with ch show thesis
      by (intro entered [OF adm Some pr]) (simp_all add: acc check_frame_fields(1) [OF f])
  qed
qed

end
