(* ===== verification/LB_Ledger.thy ===== *)
theory LB_Ledger
  imports LB_Lease
begin

text \<open>
  The accounting of leases. \<open>books_ok\<close> bounds every resource by its limit; \<open>ledger_ok\<close>
  relates an instance to the list of leases its clients hold: the active slots are
  theirs, and what is reserved of a reusable resource is the sum of what their
  operations need. Entering adds a lease to the list, leaving removes one, so clients
  that give back what they took leave nothing behind.
\<close>

section \<open>Resources within their limits\<close>

definition resource_ok :: "loxbudget_resource \<Rightarrow> bool" where
  "resource_ok r \<longleftrightarrow>
     unat (r_used r) + unat (r_reserved r) \<le> unat (r_limit r) \<and>
     r_used r \<le> r_high_watermark r \<and> r_reserved r \<le> r_high_watermark r \<and> r_high_watermark r \<le> r_limit r"

definition books_ok :: "loxbudget \<Rightarrow> bool" where
  "books_ok b \<longleftrightarrow> list_all resource_ok (t_resources b)"

lemma u16_add_limit: "unat x + unat y \<le> unat (l :: u16) \<Longrightarrow> unat (x + y :: u16) = unat x + unat y"
  using unat_u16_bound [of l] by (simp add: unat_word_ariths)

text \<open>Taking an amount for which there is room.\<close>

lemma take_on_amounts:
  assumes "resource_ok r" "r_kind r \<noteq> 2 \<Longrightarrow> unat a \<le> room r"
  shows "unat (r_reserved (take_on a r)) = unat (r_reserved r) + (if r_kind r = 0 then unat a else 0)"
    and "unat (r_used (take_on a r)) = unat (r_used r) + (if r_kind r = 1 then unat a else 0)"
proof -
  have "unat (r_used r) + unat (r_reserved r) + unat a \<le> unat (r_limit r)" if "r_kind r \<noteq> 2"
    using assms that by (auto simp: resource_ok_def room_def)
  then have "unat (r_reserved r + a) = unat (r_reserved r) + unat a" "unat (r_used r + a) = unat (r_used r) + unat a"
    if "r_kind r \<noteq> 2"
    using that by (auto intro!: u16_add_limit [where l = "r_limit r"])
  then show "unat (r_reserved (take_on a r)) = unat (r_reserved r) + (if r_kind r = 0 then unat a else 0)"
    and "unat (r_used (take_on a r)) = unat (r_used r) + (if r_kind r = 1 then unat a else 0)"
    by (simp_all add: take_on_def reserve_def consume_def Let_def)
qed

lemma take_on_ok:
  assumes "resource_ok r" "r_kind r \<noteq> 2 \<Longrightarrow> unat a \<le> room r"
  shows "resource_ok (take_on a r)"
proof -
  note am = take_on_amounts [OF assms]
  have sum: "unat (r_used (take_on a r)) + unat (r_reserved (take_on a r)) \<le> unat (r_limit r)"
    using am assms by (auto simp: resource_ok_def room_def)
  have "r_high_watermark (take_on a r) =
      max (r_high_watermark r) (if r_kind r = 0 then r_reserved (take_on a r)
        else if r_kind r = 1 then r_used (take_on a r) else 0)"
    by (auto simp: take_on_def reserve_def consume_def Let_def max_def not_less not_le)
  moreover have "r_reserved (take_on a r) \<le> r_limit r" "r_used (take_on a r) \<le> r_limit r"
    using sum by (simp_all add: word_le_nat_alt)
  moreover have "r_kind r \<noteq> 0 \<Longrightarrow> r_reserved (take_on a r) = r_reserved r"
    "r_kind r \<noteq> 1 \<Longrightarrow> r_used (take_on a r) = r_used r"
    by (simp_all add: take_on_def reserve_def consume_def Let_def)
  ultimately show ?thesis
    using assms(1) sum by (auto simp: resource_ok_def max_def)
qed

lemma give_back_amounts:
  "unat (r_reserved (give_back a r)) = unat (r_reserved r) - (if r_kind r = 0 then unat a else 0)"
proof -
  have "unat (if a \<le> r_reserved r then r_reserved r - a else 0) = unat (r_reserved r) - unat a"
    by (auto simp: unat_sub word_le_nat_alt)
  then show ?thesis by (simp add: give_back_def release_def)
qed

lemma give_back_ok: "resource_ok r \<Longrightarrow> resource_ok (give_back a r)"
  using give_back_amounts [of a r] by (auto simp: resource_ok_def word_le_nat_alt)

text \<open>On the whole table.\<close>

lemma on_needs_amount:
  assumes "distinct (need_keys ns)" "i < length xs" "i < 256"
  shows "on_needs f ns xs ! i = (if amount_of ns i = 0 then xs ! i else f (amount_of ns i) (xs ! i))"
  using on_needs_nth [OF assms, of f] need_map_live [of ns "of_nat i"]
  by (auto simp: amount_of_def split: option.splits)

definition affordable :: "loxbudget \<Rightarrow> loxbudget_need list \<Rightarrow> bool" where
  "affordable b ns \<longleftrightarrow>
     (\<forall>i < length (t_resources b). amount_of ns i \<noteq> 0 \<longrightarrow> r_kind (t_resources b ! i) \<noteq> 2 \<longrightarrow>
        unat (amount_of ns i) \<le> room (t_resources b ! i))"

lemma need_of_amount:
  assumes "amount_of ns i \<noteq> 0" "i < 256"
  shows "\<exists>n\<in>set ns. live n \<and> unat (n_resource n) = i \<and> n_amount n = amount_of ns i"
proof -
  obtain a where "need_map ns (of_nat i) = Some a" "a = amount_of ns i"
    using assms(1) by (auto simp: amount_of_def split: option.splits)
  then obtain n where "n \<in> set ns" "live n" "n_resource n = of_nat i" "n_amount n = amount_of ns i"
    by (auto simp: need_map_def dest!: map_of_SomeD)
  with assms(2) show ?thesis by (auto simp: unat_of_nat)
qed

lemma admissible_affordable:
  assumes "admissible B P b op e" "length (t_resources b) \<le> 256"
  shows "affordable b (op_needs b op)"
proof -
  obtain p now where n: "\<forall>n\<in>set (op_needs b op). live n \<longrightarrow> need_ok B b now p (t_rate b) n"
    using assms(1) by (auto simp: admissible_def split: option.splits)
  show ?thesis
    unfolding affordable_def
  proof (intro allI impI)
    fix i assume i: "i < length (t_resources b)" "amount_of (op_needs b op) i \<noteq> 0" "r_kind (t_resources b ! i) \<noteq> 2"
    with need_of_amount [of "op_needs b op" i] assms(2) obtain m where
      "m \<in> set (op_needs b op)" "live m" "unat (n_resource m) = i" "n_amount m = amount_of (op_needs b op) i" by auto
    with n i show "unat (amount_of (op_needs b op) i) \<le> room (t_resources b ! i)"
      by (auto simp: need_ok_def Let_def)
  qed
qed

lemma enter_books:
  assumes "books_ok b" "affordable b ns" "distinct (need_keys ns)" "length (t_resources b) \<le> 256"
  shows "list_all resource_ok (on_needs take_on ns (t_resources b))"
proof (unfold list_all_length, intro allI impI)
  fix i assume i: "i < length (on_needs take_on ns (t_resources b))"
  with assms(1) have "resource_ok (t_resources b ! i)" by (simp add: books_ok_def list_all_length)
  with assms i show "resource_ok (on_needs take_on ns (t_resources b) ! i)"
    by (auto simp: on_needs_amount affordable_def intro: take_on_ok)
qed

lemma leave_books:
  assumes "list_all resource_ok rs" "distinct (need_keys ns)" "length rs \<le> 256"
  shows "list_all resource_ok (on_needs give_back ns rs)"
  using assms by (auto simp: list_all_length on_needs_amount intro: give_back_ok)

section \<open>The ledger\<close>

definition held :: "loxbudget \<Rightarrow> loxbudget_lease list \<Rightarrow> nat \<Rightarrow> nat" where
  "held b L i = sum_list (map (\<lambda>l. unat (amount_of (op_needs b (l_op l)) i)) L)"

definition lease_valid :: "loxbudget \<Rightarrow> loxbudget_lease \<Rightarrow> bool" where
  "lease_valid b l \<longleftrightarrow>
     l_id l < b_max_leases b \<and> l_magic l = loxbudget_lease_magic_for_id' b (l_id l) \<and>
     loxbudget_profile_c b (l_op l) \<noteq> None \<and>
     ls_active (t_lease_slots b ! unat (l_id l)) \<noteq> 0 \<and> ls_magic (t_lease_slots b ! unat (l_id l)) = l_magic l"

text \<open>The active slots are those of the leases that are held, each with a slot of its own.\<close>

definition slots_ok :: "loxbudget \<Rightarrow> loxbudget_lease list \<Rightarrow> bool" where
  "slots_ok b L \<longleftrightarrow>
     distinct (map l_id L) \<and> (\<forall>l\<in>set L. lease_valid b l) \<and>
     (\<forall>i < unat (b_max_leases b). ls_active (t_lease_slots b ! i) \<noteq> 0 \<longrightarrow> of_nat i \<in> l_id ` set L)"

definition ledger_ok :: "loxbudget \<Rightarrow> loxbudget_lease list \<Rightarrow> bool" where
  "ledger_ok b L \<longleftrightarrow>
     slots_ok b L \<and>
     (\<forall>i < length (t_resources b). r_kind (t_resources b ! i) = 0 \<longrightarrow>
        unat (r_reserved (t_resources b ! i)) = held b L i)"

lemma ledger_slots: "ledger_ok b L \<Longrightarrow> slots_ok b L"
  by (simp add: ledger_ok_def)

text \<open>The parts of an instance the ledger reads.\<close>

lemma slots_cong:
  assumes "t_lease_slots c = t_lease_slots b" "b_max_leases c = b_max_leases b"
    and "b_lease_magic_base c = b_lease_magic_base b" "same_config b c"
  shows "slots_ok c L = slots_ok b L"
proof -
  have "loxbudget_lease_magic_for_id' c = loxbudget_lease_magic_for_id' b"
    using assms(3) by (simp add: fun_eq_iff loxbudget_lease_magic_for_id'_def)
  then show ?thesis
    using assms same_config_accessors [OF assms(4)] by (simp add: slots_ok_def lease_valid_def)
qed

lemma ledger_cong:
  assumes "t_lease_slots c = t_lease_slots b" "t_resources c = t_resources b" "b_max_leases c = b_max_leases b"
    and "b_lease_magic_base c = b_lease_magic_base b" "same_config b c"
  shows "ledger_ok c L = ledger_ok b L"
  using assms slots_cong [OF assms(1,3-5), of L] same_config_accessors [OF assms(5)]
  by (simp add: ledger_ok_def held_def)

lemma slots_check_frame: "check_frame b c \<Longrightarrow> slots_ok c L = slots_ok b L"
  by (rule slots_cong) (simp_all add: check_frame_fields check_frame_config)

lemma ledger_check_frame: "check_frame b c \<Longrightarrow> ledger_ok c L = ledger_ok b L"
  by (rule ledger_cong) (simp_all add: check_frame_fields check_frame_config)

lemma slots_length:
  assumes "slots_ok b L"
  shows "length L \<le> unat (b_max_leases b)"
proof -
  have "unat ` set (map l_id L) \<subseteq> {..<unat (b_max_leases b)}"
    using assms by (auto simp: slots_ok_def lease_valid_def word_less_nat_alt)
  then have "card (unat ` set (map l_id L)) \<le> unat (b_max_leases b)"
    by (metis card_lessThan card_mono finite_lessThan)
  moreover have "card (unat ` set (map l_id L)) = length L"
  proof -
    have "card (unat ` set (map l_id L)) = card (set (map l_id L))"
      by (rule card_image) (simp add: inj_on_def word_unat_eq_iff)
    also have "\<dots> = length (map l_id L)"
      using assms by (intro distinct_card) (simp add: slots_ok_def)
    finally show ?thesis by simp
  qed
  ultimately show ?thesis by simp
qed

lemmas ledger_length = slots_length [OF ledger_slots]

lemma small_slot: "i < unat (n :: u8) \<Longrightarrow> unat (of_nat i :: u8) = i"
  using unat_u8_bound [of n] by (simp add: unat_of_nat)

lemma held_Cons: "held b (l # L) i = unat (amount_of (op_needs b (l_op l)) i) + held b L i"
  by (simp add: held_def)

lemma enter_slots:
  assumes "slots_ok b L" "free_slot b = Some i" "loxbudget_profile_c b op \<noteq> None"
  shows "slots_ok (entered b op i rt) (new_lease b i op now # L)"
proof -
  let ?c = "entered b op i rt" and ?l = "new_lease b i op now"
  note acc = books_only_accessors [OF entered_books [of b op i rt]]
  note fld = books_only_fields [OF entered_books [of b op i rt]]
  note slot = free_slot_Some [OF assms(2)]
  have id: "unat (l_id ?l) = i" using slot(1) by (simp add: new_lease_def small_slot)
  have fresh: "l_id x \<noteq> l_id ?l" if "x \<in> set L" for x
    using that assms(1) slot(3) id by (auto simp: slots_ok_def lease_valid_def)
  have slots: "t_lease_slots ?c ! unat (l_id x) = t_lease_slots b ! unat (l_id x)" if "x \<in> set L" for x
    using fresh [OF that] id by (simp add: entered_def word_unat_eq_iff)
  have new: "t_lease_slots ?c ! i =
      \<lparr>ls_magic = loxbudget_lease_magic_for_id' b (of_nat i), ls_active = 1, ls_acquired_pressure = b_pressure b\<rparr>"
    using slot(2) by (simp add: entered_def)
  have "lease_valid ?c ?l"
    using new id slot(1) assms(3) by (simp add: lease_valid_def acc fld new_lease_def word_less_nat_alt)
  moreover have "lease_valid ?c x" if "x \<in> set L" for x
    using that assms(1) slots [OF that] by (simp add: slots_ok_def lease_valid_def acc fld)
  moreover have "of_nat j \<in> l_id ` set (?l # L)"
    if "j < unat (b_max_leases b)" "ls_active (t_lease_slots ?c ! j) \<noteq> 0" for j
    using that assms(1) by (cases "j = i") (auto simp: slots_ok_def entered_def new_lease_def)
  moreover have "distinct (map l_id (?l # L))"
  proof -
    have "l_id ?l \<notin> set (map l_id L)" using fresh by fastforce
    with assms(1) show ?thesis by (simp add: slots_ok_def)
  qed
  ultimately show ?thesis
    unfolding slots_ok_def fld(4) by auto
qed

lemma enter_ledger:
  assumes "ledger_ok b L" "size_shape b" "books_ok b" "affordable b (op_needs b op)"
    and "distinct (need_keys (op_needs b op))" "free_slot b = Some i" "loxbudget_profile_c b op \<noteq> None"
  shows "ledger_ok (entered b op i rt) (new_lease b i op now # L)"
proof -
  let ?c = "entered b op i rt" and ?l = "new_lease b i op now"
  note acc = books_only_accessors [OF entered_books [of b op i rt]]
  have "unat (r_reserved (t_resources ?c ! j)) = held ?c (?l # L) j"
    if j: "j < length (t_resources b)" "r_kind (t_resources ?c ! j) = 0" for j
  proof -
    have j256: "j < 256" using j size_shape_lengths(3,7) [OF assms(2)] by simp
    have at: "t_resources ?c ! j = (if amount_of (op_needs b op) j = 0 then t_resources b ! j
        else take_on (amount_of (op_needs b op) j) (t_resources b ! j))"
      using on_needs_amount [OF assms(5) j(1) j256, of take_on] by (simp add: entered_def)
    have k: "r_kind (t_resources b ! j) = 0" using j(2) at by (auto split: if_splits)
    have "resource_ok (t_resources b ! j)" using assms(3) j(1) by (simp add: books_ok_def list_all_length)
    then have "unat (r_reserved (t_resources ?c ! j)) =
        unat (r_reserved (t_resources b ! j)) + unat (amount_of (op_needs b op) j)"
      using assms(4) j(1) k at by (auto simp: take_on_amounts affordable_def)
    moreover have "unat (r_reserved (t_resources b ! j)) = held b L j"
      using assms(1) j(1) k by (simp add: ledger_ok_def)
    moreover have "held ?c L j = held b L j" by (simp add: held_def acc)
    ultimately show ?thesis by (simp add: held_Cons acc new_lease_def)
  qed
  moreover have "length (t_resources ?c) = length (t_resources b)" by (simp add: entered_def)
  moreover have "slots_ok ?c (?l # L)"
    by (rule enter_slots [OF ledger_slots [OF assms(1)] assms(6,7)])
  ultimately show ?thesis
    unfolding ledger_ok_def by simp
qed

text \<open>Leaving with a valid lease.\<close>

definition left :: "loxbudget \<Rightarrow> loxbudget_lease \<Rightarrow> loxbudget" where
  "left b l =
     b\<lparr>t_resources := on_needs give_back (op_needs b (l_op l)) (t_resources b),
       t_lease_slots := upd_at (unat (l_id l)) (\<lambda>s. s\<lparr>ls_active := 0, ls_magic := 0\<rparr>) (t_lease_slots b)\<rparr>"

lemma left_books: "books_only b (left b l)"
  unfolding books_only_def left_def
  by (rule exI, rule exI [of _ "t_rate b"], rule exI, simp)

lemma leave_valid:
  assumes "b_magic b = LOXBUDGET_MAGIC_INIT" "lease_valid b l"
  shows "\<exists>e'. loxbudget_leave P b l e = (LOXBUDGET_OK, left b l, e')"
  using assms
  by (auto simp: loxbudget_leave_def lease_valid_def left_def release_needs_eq Let_def not_le [symmetric])

lemma leave_cases:
  obtains (valid) e' where "b_magic b = LOXBUDGET_MAGIC_INIT" "lease_valid b l"
      "loxbudget_leave P b l e = (LOXBUDGET_OK, left b l, e')"
  | (invalid) st e' where "\<not> (b_magic b = LOXBUDGET_MAGIC_INIT \<and> lease_valid b l)" "st \<noteq> LOXBUDGET_OK"
      "loxbudget_leave P b l e = (st, b, e')"
proof (cases "b_magic b = LOXBUDGET_MAGIC_INIT \<and> lease_valid b l")
  case True
  with leave_valid [of b l P e] show thesis by (auto intro: valid)
next
  case False
  then have "\<exists>st e'. st \<noteq> LOXBUDGET_OK \<and> loxbudget_leave P b l e = (st, b, e')"
    by (auto simp: loxbudget_leave_def lease_valid_def Let_def not_le [symmetric] split: option.splits)
  with False show thesis by (auto intro: invalid)
qed

lemma leave_slots:
  assumes "slots_ok b L" "length (t_lease_slots b) = unat (b_max_leases b)" "l \<in> set L"
  shows "slots_ok (left b l) (remove1 l L)"
proof -
  let ?c = "left b l" and ?L = "remove1 l L"
  note acc = books_only_accessors [OF left_books [of b l]]
  note fld = books_only_fields [OF left_books [of b l]]
  have dl: "distinct L" using assms(1) by (auto simp: slots_ok_def distinct_map)
  have set: "set ?L = set L - {l}" using dl by (rule set_remove1_eq)
  have inj: "inj_on l_id (set L)" using assms(1) by (simp add: slots_ok_def distinct_map)
  have other: "l_id x \<noteq> l_id l" if "x \<in> set ?L" for x
    using that set inj_onD [OF inj, of x l] assms(3) by auto
  have slots: "t_lease_slots ?c ! i = (if i = unat (l_id l) then (t_lease_slots b ! i)\<lparr>ls_active := 0, ls_magic := 0\<rparr>
      else t_lease_slots b ! i)" if "i < unat (b_max_leases b)" for i
    using that assms(2) by (simp add: left_def nth_upd_at)
  have "lease_valid ?c x" if x: "x \<in> set ?L" for x
  proof -
    have v: "lease_valid b x" using x set assms(1) by (simp add: slots_ok_def)
    then have "t_lease_slots ?c ! unat (l_id x) = t_lease_slots b ! unat (l_id x)"
      using other [OF x] by (subst slots) (auto simp: lease_valid_def word_less_nat_alt word_unat_eq_iff)
    with v show ?thesis by (simp add: lease_valid_def acc(1,3) fld(4))
  qed
  moreover have "of_nat i \<in> l_id ` set ?L" if "i < unat (b_max_leases b)" "ls_active (t_lease_slots ?c ! i) \<noteq> 0" for i
  proof -
    have i: "i \<noteq> unat (l_id l)" "ls_active (t_lease_slots b ! i) \<noteq> 0"
      using that(2) unfolding slots [OF that(1)] by (cases "i = unat (l_id l)"; simp)+
    then have "of_nat i \<in> l_id ` set L" using assms(1) that(1) by (simp add: slots_ok_def)
    then obtain x where "x \<in> set L" "l_id x = of_nat i" by auto
    moreover from this have "x \<noteq> l" using i(1) small_slot [OF that(1)] by auto
    ultimately have "x \<in> set ?L" "of_nat i = l_id x" by (simp_all add: set)
    then show ?thesis by blast
  qed
  moreover have "distinct (map l_id ?L)"
    using inj_on_subset [OF inj, of "set ?L"] dl by (simp add: distinct_map set_remove1_eq)
  ultimately show ?thesis
    unfolding slots_ok_def fld(4) by auto
qed

lemma leave_ledger:
  assumes "ledger_ok b L" "size_shape b" "l \<in> set L" "distinct (need_keys (op_needs b (l_op l)))"
  shows "ledger_ok (left b l) (remove1 l L)"
proof -
  let ?c = "left b l" and ?L = "remove1 l L"
  note acc = books_only_accessors [OF left_books [of b l]]
  have "unat (r_reserved (t_resources ?c ! i)) = held ?c ?L i"
    if i: "i < length (t_resources b)" "r_kind (t_resources ?c ! i) = 0" for i
  proof -
    have "i < 256" using i size_shape_lengths(3,7) [OF assms(2)] by simp
    then have at: "t_resources ?c ! i = (if amount_of (op_needs b (l_op l)) i = 0 then t_resources b ! i
        else give_back (amount_of (op_needs b (l_op l)) i) (t_resources b ! i))"
      using on_needs_amount [OF assms(4) i(1), of give_back] by (simp add: left_def)
    have k: "r_kind (t_resources b ! i) = 0" using i(2) at by (auto split: if_splits)
    have "unat (r_reserved (t_resources ?c ! i)) =
        unat (r_reserved (t_resources b ! i)) - unat (amount_of (op_needs b (l_op l)) i)"
      using k at by (simp add: give_back_amounts)
    moreover have "unat (r_reserved (t_resources b ! i)) = held b L i"
      using assms(1) i(1) k by (simp add: ledger_ok_def)
    moreover have "held b L i = unat (amount_of (op_needs b (l_op l)) i) + held b ?L i"
      using sum_list_map_remove1 [OF assms(3), of "\<lambda>l. unat (amount_of (op_needs b (l_op l)) i)"] by (simp add: held_def)
    moreover have "held ?c ?L i = held b ?L i" by (simp add: held_def acc)
    ultimately show ?thesis by simp
  qed
  moreover have "length (t_resources ?c) = length (t_resources b)" by (simp add: left_def)
  moreover have "slots_ok ?c ?L"
    by (rule leave_slots [OF ledger_slots [OF assms(1)] size_shape_lengths(6) [OF assms(2)] assms(3)])
  ultimately show ?thesis
    unfolding ledger_ok_def by simp
qed

section \<open>Well-formed instances\<close>

definition inst_ok :: "build \<Rightarrow> loxbudget \<Rightarrow> bool" where
  "inst_ok B b \<longleftrightarrow> lb_shape B b \<and> config_ok b \<and> edges_ok (b_max_ops b) (live_edges b) \<and> books_ok b"

lemma inst_okD:
  assumes "inst_ok B b"
  shows "lb_shape B b" "config_ok b" "edges_ok (b_max_ops b) (live_edges b)" "books_ok b" "size_shape b"
  using assms by (auto simp: inst_ok_def intro: lb_shape_size)

lemma inst_table: "inst_ok B b \<Longrightarrow> length (t_resources b) \<le> 256"
  by (frule size_shape_lengths(3) [OF inst_okD(5)], frule size_shape_lengths(7) [OF inst_okD(5)]) simp

lemma inst_needs: "inst_ok B b \<Longrightarrow> loxbudget_profile_c b op \<noteq> None \<Longrightarrow> distinct (need_keys (op_needs b op))"
  using config_profile(1) [OF inst_okD(2)] by (auto simp: op_config_ok_def)

lemma inst_check_frame:
  assumes "inst_ok B b" "check_frame b c" "lb_shape B c"
  shows "inst_ok B c"
  using assms same_config_ok [OF check_frame_config [OF assms(2)] inst_okD(5,2) [OF assms(1)]]
  by (simp add: inst_ok_def books_ok_def live_edges_def check_frame_fields [OF assms(2)])

lemma check_inst:
  assumes "inst_ok B b"
  shows "inst_ok B (fst (snd (snd (loxbudget_check B P b op ok e))))"
  by (rule inst_check_frame [OF assms check_frame_holds check_shape [OF inst_okD(1,3) [OF assms]]])

lemma rates_sized_like: "rates_like rt rt' \<Longrightarrow> rates_sized rt rt'"
  by (simp add: rates_sized_def rates_like_ok) (simp add: rates_like_def)

lemma entered_config: "same_config b (entered b op i rt)"
  unfolding entered_def by (rule books_config) (simp_all add: on_needs_map)

lemma entered_shape: "lb_shape B b \<Longrightarrow> rates_sized (t_rate b) rt \<Longrightarrow> lb_shape B (entered b op i rt)"
  unfolding entered_def by (rule books_shape) simp_all

lemma left_eq:
  "left b l = b\<lparr>t_resources := on_needs give_back (op_needs b (l_op l)) (t_resources b), t_rate := t_rate b,
      t_lease_slots := upd_at (unat (l_id l)) (\<lambda>s. s\<lparr>ls_active := 0, ls_magic := 0\<rparr>) (t_lease_slots b)\<rparr>"
  by (simp add: left_def)

lemma left_config: "same_config b (left b l)"
  unfolding left_eq by (rule books_config) (simp_all add: on_needs_map)

lemma left_shape: "lb_shape B b \<Longrightarrow> lb_shape B (left b l)"
  unfolding left_eq by (rule books_shape) (simp_all add: rates_sized_def)

lemma entered_inst:
  assumes "inst_ok B b" "affordable b (op_needs b op)" "loxbudget_profile_c b op \<noteq> None"
    and "rates_sized (t_rate b) rt"
  shows "inst_ok B (entered b op i rt)"
proof -
  note ok = inst_okD [OF assms(1)]
  have keys: "distinct (need_keys (op_needs b op))" by (rule inst_needs [OF assms(1,3)])
  have "lb_shape B (entered b op i rt)"
    by (rule entered_shape [OF ok(1) assms(4)])
  moreover have "config_ok (entered b op i rt)"
    by (rule same_config_ok [OF entered_config ok(5,2)])
  moreover have "books_ok (entered b op i rt)"
    using enter_books [OF ok(4) assms(2) keys inst_table [OF assms(1)]] by (simp add: books_ok_def entered_def)
  ultimately show ?thesis
    using ok(3) books_only_fields(3,11) [OF entered_books [of b op i rt]] by (simp add: inst_ok_def)
qed

lemma left_inst:
  assumes "inst_ok B b" "loxbudget_profile_c b (l_op l) \<noteq> None"
  shows "inst_ok B (left b l)"
proof -
  note ok = inst_okD [OF assms(1)]
  have keys: "distinct (need_keys (op_needs b (l_op l)))" by (rule inst_needs [OF assms])
  have "lb_shape B (left b l)"
    by (rule left_shape [OF ok(1)])
  moreover have "config_ok (left b l)"
    by (rule same_config_ok [OF left_config ok(5,2)])
  moreover have "books_ok (left b l)"
    using leave_books [OF _ keys inst_table [OF assms(1)]] ok(4) by (simp add: books_ok_def left_def)
  ultimately show ?thesis
    using ok(3) books_only_fields(3,11) [OF left_books [of b l]] by (simp add: inst_ok_def)
qed

lemma prepare_frame:
  "check_frame b (fst (snd (enter_prepare B P b op ok e)))"
  "inst_ok B b \<Longrightarrow> inst_ok B (fst (snd (enter_prepare B P b op ok e)))"
proof -
  have "fst (snd (enter_prepare B P b op ok e)) = fst (snd (snd (loxbudget_check B P b op True e)))"
    by (simp add: enter_prepare_def split_def)
  then show "check_frame b (fst (snd (enter_prepare B P b op ok e)))"
    "inst_ok B b \<Longrightarrow> inst_ok B (fst (snd (enter_prepare B P b op ok e)))"
    by (simp_all add: check_frame_holds check_inst)
qed

text \<open>An enter that fails has done no more than a check.\<close>

lemma enter_error_frame:
  assumes "loxbudget_enter B P b op ok e = (st, out, b', e')" "st \<noteq> LOXBUDGET_OK"
  shows "check_frame b b'"
proof -
  obtain r b1 e1 where p: "enter_prepare B P b op ok e = (r, b1, e1)" by (metis prod.exhaust)
  have "check_frame b b1" using prepare_frame(1) [of b B P op ok e] by (simp add: p)
  moreover have "b' = b1"
    using assms p by (auto simp: loxbudget_enter_def enter_commit_def Let_def split_def split: sum.splits option.splits)
  ultimately show ?thesis by simp
qed

text \<open>What a successful enter has done.\<close>

lemma checked_inst: "inst_ok B b \<Longrightarrow> inst_ok B (checked B P b op e)"
  unfolding checked_def by (rule check_inst)

lemma affordable_frame:
  "check_frame b c \<Longrightarrow> affordable c (op_needs c op) = affordable b (op_needs b op)"
  by (simp add: affordable_def check_frame_accessors check_frame_fields(1))

lemma enter_OK:
  assumes "inst_ok B b" "loxbudget_enter B P b op True e = (LOXBUDGET_OK, out, b', e')"
  obtains p i rt now where "admissible B P b op e" "free_slot b = Some i" "loxbudget_profile_c b op = Some p"
    "charged B p (t_resources b) (amount_of (op_needs b op)) (t_rate (checked B P b op e)) rt"
    "out = Some (new_lease b i op now)" "b' = entered (checked B P b op e) op i rt" "inst_ok B b'"
proof (cases rule: enter_cases [OF inst_okD(1,2) [OF assms(1)], of P op e, case_names denied full entered])
  case (entered p i rt now e1)
  let ?b = "checked B P b op e"
  note acc = check_frame_accessors [OF checked_frame [of b B P op e]]
  have "affordable ?b (op_needs ?b op)"
    using admissible_affordable [OF entered(1) inst_table [OF assms(1)]] affordable_frame [OF checked_frame [of b B P op e], of op] by simp
  then have "inst_ok B (LB_Lease.entered ?b op i rt)"
    by (rule entered_inst [OF checked_inst [OF assms(1)]]) (simp_all add: acc entered(3) charged_sized [OF entered(4)])
  with entered assms(2) show thesis by (intro that) simp_all
qed (use assms(2) in simp_all)

lemma enter_inst:
  assumes "inst_ok B b"
  shows "inst_ok B (fst (snd (snd (loxbudget_enter B P b op ok e))))"
proof (cases ok)
  case True
  show ?thesis
  proof (cases "fst (loxbudget_enter B P b op True e) = LOXBUDGET_OK")
    case OK: True
    obtain st out b' e' where r: "loxbudget_enter B P b op True e = (st, out, b', e')" by (metis prod.exhaust)
    with OK have "loxbudget_enter B P b op True e = (LOXBUDGET_OK, out, b', e')" by simp
    then have "inst_ok B b'" by (rule enter_OK [OF assms])
    with True r show ?thesis by simp
  next
    case False
    with True checked_inst [OF assms, of P op e] show ?thesis
      by (cases rule: enter_cases [OF inst_okD(1,2) [OF assms], of P op e, case_names denied full entered]) simp_all
  qed
next
  case False
  obtain d b1 e1 where c: "loxbudget_check B P b op True e = (LOXBUDGET_OK, Some d, b1, e1)"
    using check_returns [OF shape_magic [OF inst_okD(1) [OF assms]], of B P op e] by blast
  with False have "fst (snd (snd (loxbudget_enter B P b op ok e))) = checked B P b op e"
    by (simp add: loxbudget_enter_def enter_prepare_def checked_def)
  with checked_inst [OF assms] show ?thesis by simp
qed

lemma leave_inst: "inst_ok B b \<Longrightarrow> inst_ok B (fst (snd (loxbudget_leave P b l e)))"
  by (cases rule: leave_cases [of b l P e]) (simp_all add: left_inst lease_valid_def)

end
