(* ===== verification/LB_Clients.thy ===== *)
theory LB_Clients
  imports LB_Ledger
begin

text \<open>
  The lease protocol from the clients' side: what entering, leaving and yielding promise
  to a caller, and what any number of clients together do to an instance. The
  accounting argument is a locale over a state with outstanding items; it is interpreted
  on the instance together with the leases its clients hold. The last section has the
  cases outside the contract: leases kept after leaving, and operations reconfigured
  while they are held.
\<close>

section \<open>Any number of clients\<close>

datatype client_event =
    C_Enter u8          \<comment> \<open>enter an operation and keep the lease, if there is one\<close>
  | C_Leave nat         \<comment> \<open>give back a lease that is held, by its position\<close>
  | C_Check u8
  | C_Pressure c_enum

text \<open>An instance, the leases held, and the environment.\<close>

type_synonym 'e clients = "loxbudget \<times> loxbudget_lease list \<times> 'e"

fun client_step :: "build \<Rightarrow> 'e platform \<Rightarrow> client_event \<Rightarrow> 'e clients \<Rightarrow> 'e clients" where
  "client_step B P (C_Enter op) (b, L, e) =
     (case loxbudget_enter B P b op True e of (st, out, b', e') \<Rightarrow>
        (b', (if st = LOXBUDGET_OK then the out # L else L), e'))"
| "client_step B P (C_Leave k) (b, L, e) =
     (if k < length L
      then (case loxbudget_leave P b (L ! k) e of (st, b', e') \<Rightarrow>
              (b', (if st = LOXBUDGET_OK then remove1 (L ! k) L else L), e'))
      else (b, L, e))"
| "client_step B P (C_Check op) (b, L, e) =
     (case loxbudget_check B P b op True e of (_, _, b', e') \<Rightarrow> (b', L, e'))"
| "client_step B P (C_Pressure p) (b, L, e) =
     (case loxbudget_set_pressure P b p e of (_, b', e') \<Rightarrow> (b', L, e'))"

section \<open>Accounts\<close>

text \<open>
  A system whose steps keep an invariant under which the use of every tracked quantity is
  the sum of the costs of the outstanding items, at most \<open>cap\<close> of them.
\<close>

locale accounts =
  fixes step :: "'ev \<Rightarrow> 's \<Rightarrow> 's"
    and inv :: "'s \<Rightarrow> bool"
    and outstanding :: "'s \<Rightarrow> 'l list"
    and tracked :: "'s \<Rightarrow> nat \<Rightarrow> bool"
    and usage :: "'s \<Rightarrow> nat \<Rightarrow> nat"
    and cost :: "'s \<Rightarrow> 'l \<Rightarrow> nat \<Rightarrow> nat"
    and cap :: "'s \<Rightarrow> nat"
  assumes step_inv: "inv s \<Longrightarrow> inv (step ev s)"
    and usage_sum: "inv s \<Longrightarrow> tracked s i \<Longrightarrow> usage s i = sum_list (map (\<lambda>l. cost s l i) (outstanding s))"
    and bounded: "inv s \<Longrightarrow> length (outstanding s) \<le> cap s"
begin

lemma run_inv: "inv s \<Longrightarrow> inv (fold step evs s)"
  by (induction evs arbitrary: s) (simp_all add: step_inv)

lemma run_usage:
  "inv s \<Longrightarrow> tracked (fold step evs s) i \<Longrightarrow>
   usage (fold step evs s) i =
     sum_list (map (\<lambda>l. cost (fold step evs s) l i) (outstanding (fold step evs s)))"
  by (rule usage_sum [OF run_inv])

lemma run_quiescent:
  "inv s \<Longrightarrow> outstanding (fold step evs s) = [] \<Longrightarrow> tracked (fold step evs s) i \<Longrightarrow> usage (fold step evs s) i = 0"
  using run_usage by simp

lemma run_bounded: "inv s \<Longrightarrow> length (outstanding (fold step evs s)) \<le> cap (fold step evs s)"
  by (rule bounded [OF run_inv])

end

definition clients_ok :: "build \<Rightarrow> 'e clients \<Rightarrow> bool" where
  "clients_ok B s \<longleftrightarrow> inst_ok B (fst s) \<and> ledger_ok (fst s) (fst (snd s))"

lemma set_pressure_inst:
  assumes "inst_ok B b"
  shows "inst_ok B (fst (snd (loxbudget_set_pressure P b p e)))"
    and "ledger_ok (fst (snd (loxbudget_set_pressure P b p e))) L = ledger_ok b L"
proof -
  have "fst (snd (loxbudget_set_pressure P b p e)) = b\<lparr>b_pressure := b_pressure b\<rparr> \<or>
      fst (snd (loxbudget_set_pressure P b p e)) = b\<lparr>b_pressure := ucast p\<rparr>"
    by (simp add: loxbudget_set_pressure_def Let_def)
  then obtain x where b': "fst (snd (loxbudget_set_pressure P b p e)) = b\<lparr>b_pressure := x\<rparr>" by blast
  have cfg: "same_config b (b\<lparr>b_pressure := x\<rparr>)" by (simp add: same_config_def)
  have "lb_shape B (b\<lparr>b_pressure := x\<rparr>)"
    using inst_okD(1) [OF assms] by (simp add: shape_simple_update)
  moreover have "config_ok (b\<lparr>b_pressure := x\<rparr>)"
    by (rule same_config_ok [OF cfg inst_okD(5,2) [OF assms]])
  ultimately show "inst_ok B (fst (snd (loxbudget_set_pressure P b p e)))"
    using inst_okD(3,4) [OF assms] by (simp add: b' inst_ok_def books_ok_def live_edges_def)
  show "ledger_ok (fst (snd (loxbudget_set_pressure P b p e))) L = ledger_ok b L"
    unfolding b' by (rule ledger_cong [OF _ _ _ _ cfg]) simp_all
qed

lemma enter_step_ledger:
  assumes "inst_ok B b" "ledger_ok b L" "loxbudget_enter B P b op True e = (st, out, b', e')"
  shows "ledger_ok b' (if st = LOXBUDGET_OK then the out # L else L)"
proof (cases "st = LOXBUDGET_OK")
  case True
  with assms(3) have "loxbudget_enter B P b op True e = (LOXBUDGET_OK, out, b', e')" by simp
  then show ?thesis
  proof (rule enter_OK [OF assms(1)])
    fix p i rt now
    let ?b = "checked B P b op e"
    assume a: "admissible B P b op e" "free_slot b = Some i" "loxbudget_profile_c b op = Some p"
      "out = Some (new_lease b i op now)" "b' = entered ?b op i rt"
    note f = checked_frame [of b B P op e]
    note acc = check_frame_accessors [OF f]
    note ok = inst_okD [OF checked_inst [OF assms(1), of P op e]]
    have "affordable ?b (op_needs ?b op)"
      using admissible_affordable [OF a(1) inst_table [OF assms(1)]] affordable_frame [OF f, of op] by simp
    moreover have "distinct (need_keys (op_needs ?b op))"
      using inst_needs [OF assms(1), of op] a(3) by (simp add: acc)
    ultimately have "ledger_ok (entered ?b op i rt) (new_lease ?b i op now # L)"
      using assms(2) a(2,3) by (intro enter_ledger ok) (simp_all add: acc ledger_check_frame [OF f])
    moreover have "new_lease ?b i op now = new_lease b i op now" by (simp add: new_lease_def acc)
    ultimately show ?thesis using True a(4,5) by simp
  qed
next
  case False
  with enter_error_frame [OF assms(3)] assms(2) show ?thesis by (simp add: ledger_check_frame)
qed

lemma client_step_ok: "clients_ok B s \<Longrightarrow> clients_ok B (client_step B P ev s)"
proof (induction B P ev s rule: client_step.induct)
  case (1 B P op b L e)
  then have b: "inst_ok B b" "ledger_ok b L" by (simp_all add: clients_ok_def)
  obtain st out b' e' where r: "loxbudget_enter B P b op True e = (st, out, b', e')" by (metis prod.exhaust)
  with enter_inst [OF b(1), of P op True e] enter_step_ledger [OF b r] show ?case
    by (simp add: clients_ok_def)
next
  case (2 B P k b L e)
  then have b: "inst_ok B b" "ledger_ok b L" by (simp_all add: clients_ok_def)
  show ?case
  proof (cases "k < length L")
    case True
    then have l: "L ! k \<in> set L" by simp
    with b(2) have v: "lease_valid b (L ! k)" by (simp add: ledger_ok_def slots_ok_def)
    from leave_valid [OF shape_magic [OF inst_okD(1) [OF b(1)]] v, of P e] obtain e' where
      r: "loxbudget_leave P b (L ! k) e = (LOXBUDGET_OK, left b (L ! k), e')" by blast
    have "distinct (need_keys (op_needs b (l_op (L ! k))))"
      using inst_needs [OF b(1)] v by (simp add: lease_valid_def)
    with True r leave_ledger [OF b(2) inst_okD(5) [OF b(1)] l] left_inst [OF b(1)] v show ?thesis
      by (simp add: clients_ok_def lease_valid_def)
  next
    case False
    with b show ?thesis by (simp add: clients_ok_def)
  qed
next
  case (3 B P op b L e)
  then show ?case
    using check_inst [of B b P op True e] ledger_check_frame [OF check_frame_holds [of b B P op True e], of L]
    by (simp add: clients_ok_def split_def)
next
  case (4 B P p b L e)
  then show ?case
    using set_pressure_inst [of B b P p e] by (simp add: clients_ok_def split_def)
qed

interpretation clients: accounts "client_step B P" "clients_ok B" "\<lambda>s. fst (snd s)"
  "\<lambda>s i. i < length (t_resources (fst s)) \<and> r_kind (t_resources (fst s) ! i) = 0"
  "\<lambda>s i. unat (r_reserved (t_resources (fst s) ! i))"
  "\<lambda>s l i. unat (amount_of (op_needs (fst s) (l_op l)) i)"
  "\<lambda>s. unat (b_max_leases (fst s))"
  for B P
proof unfold_locales
  show "clients_ok B s \<Longrightarrow> clients_ok B (client_step B P ev s)" for s ev by (rule client_step_ok)
qed (auto simp: clients_ok_def ledger_ok_def held_def intro: ledger_length)

end
