(* ===== verification/LB_Lease_Props.thy ===== *)
theory LB_Lease_Props
  imports LB_Clients
begin

text \<open>
  The properties of the lease protocol: outcomes and effects of one call, the round trip
  of entering and leaving, the accounting over any run of clients, the yield hint, and what
  happens outside the contract, with stale leases and with needs changed while held. The witnesses use \<open>demo\<close>: the example instance of \<open>LB_Config\<close> with operation
  0 needing 40 units of the reusable resource and 10 of the consumable one, and operation
  1 needing 60 units of the reusable one.
\<close>

section \<open>The example\<close>

definition demo :: loxbudget where
  "demo =
     (let b = snd (loxbudget_op_set_need sample_ops 0 0 40);
          b = snd (loxbudget_op_set_need b 0 1 10)
      in snd (loxbudget_op_set_need b 1 0 60))"

lemma demo_shape: "lb_shape fixed_build demo"
  unfolding demo_def Let_def by (intro op_set_need_shape sample_ops_ok)

lemma demo_config: "config_ok demo"
  using sample_ops_ok
  by (simp add: demo_def Let_def op_set_need_config op_set_need_shape lb_shape_size [where B = fixed_build])

lemma demo_facts:
  "t_edge_count demo = 0" "list_all resource_ok (t_resources demo)" "b_max_ops demo = 3" "b_max_leases demo = 4"
  "t_lease_slots demo = replicate 4 zero_slot" "length (t_resources demo) = 2"
  "list_all (\<lambda>r. r_reserved r = 0) (t_resources demo)" "free_slot demo = Some 0"
  by (code_simp; simp)+

lemma demo_ok: "inst_ok fixed_build demo"
  using demo_shape demo_config demo_facts(1,2)
  by (simp add: inst_ok_def books_ok_def edges_ok_def live_edges_def)

lemma demo_ledger: "ledger_ok demo []"
  using demo_facts(4-7) by (auto simp: ledger_ok_def slots_ok_def held_def zero_slot_def list_all_length)

lemma demo_enter:
  "map_prod id (map_option (\<lambda>l. (l_id l, l_op l))) (fst (loxbudget_enter fixed_build quiet_platform demo 0 True 7),
     fst (snd (loxbudget_enter fixed_build quiet_platform demo 0 True 7))) = (LOXBUDGET_OK, Some (0, 0))"
  by code_simp

section \<open>One call\<close>

text \<open>
  C9. The outcome of entering: OK exactly when the operation is admissible and a lease slot is
  free, NO_SPACE when it is admissible and every slot is taken, and BAD_STATE when it is
  not admissible. (The second validation of the needs never fails on its own when no other
  task runs in between.)
\<close>

theorem enter_outcome:
  assumes "inst_ok B b"
  shows "fst (loxbudget_enter B P b op True e) =
    (if \<not> admissible B P b op e then LOXBUDGET_ERR_BAD_STATE
     else if \<forall>i < unat (b_max_leases b). ls_active (t_lease_slots b ! i) \<noteq> 0 then LOXBUDGET_ERR_NO_SPACE
     else LOXBUDGET_OK)"
proof -
  have "length (t_lease_slots b) = unat (b_max_leases b)"
    by (rule size_shape_lengths(6) [OF inst_okD(5) [OF assms]])
  then have "free_slot b = None \<longleftrightarrow> (\<forall>i < unat (b_max_leases b). ls_active (t_lease_slots b ! i) \<noteq> 0)"
    by (auto simp: free_slot_def first_index_None all_set_conv_all_nth)
  then show ?thesis
    by (cases rule: enter_cases [OF inst_okD(1,2) [OF assms], of P op e, case_names denied full entered]) auto
qed

theorem enter_outcome_witness:
  "fst (loxbudget_enter fixed_build quiet_platform demo 2 True 7) = LOXBUDGET_ERR_BAD_STATE"
proof -
  have "loxbudget_profile_c demo 2 = None" by code_simp
  then have "\<not> admissible fixed_build quiet_platform demo 2 7" by (simp add: admissible_def)
  with enter_outcome [OF demo_ok, of quiet_platform 2 7] show ?thesis by simp
qed

text \<open>
  C11. A failed enter takes nothing: whatever the instance and the arguments, when
  \<open>loxbudget_enter\<close> returns an error the resources, lease slots, configuration, pressure and
  causal graph are as before, and the caller's lease is untouched or zeroed.
\<close>

theorem enter_error_atomic:
  assumes "loxbudget_enter B P b op ok e = (st, out, b', e')" and "st \<noteq> LOXBUDGET_OK"
  shows "t_resources b' = t_resources b \<and> t_lease_slots b' = t_lease_slots b \<and> same_config b b' \<and>
         b_pressure b' = b_pressure b \<and> live_edges b' = live_edges b \<and> (out = None \<or> out = Some zero_lease)"
proof -
  have "out = None \<or> out = Some zero_lease"
    using assms
    by (auto simp: loxbudget_enter_def enter_prepare_def enter_commit_def Let_def split_def
        split: sum.splits option.splits if_splits)
  with enter_error_frame [OF assms] show ?thesis
    by (simp add: check_frame_fields check_frame_config live_edges_def)
qed

theorem enter_error_atomic_witness:
  "\<exists>st out b' e'. loxbudget_enter fixed_build quiet_platform demo 2 True 7 = (st, out, b', e') \<and>
     st = LOXBUDGET_ERR_BAD_STATE \<and> t_resources b' = t_resources demo"
proof -
  have st: "fst (loxbudget_enter fixed_build quiet_platform demo 2 True 7) = LOXBUDGET_ERR_BAD_STATE"
    by code_simp
  obtain st out b' e' where r: "loxbudget_enter fixed_build quiet_platform demo 2 True 7 = (st, out, b', e')"
    by (metis prod.exhaust)
  with st have "st = LOXBUDGET_ERR_BAD_STATE" by simp
  with r enter_error_atomic [OF r] show ?thesis by auto
qed

text \<open>
  C1. A successful enter takes exactly what the operation needs: of every reusable resource
  the need is added to the reservation, of every consumable one to the consumption, with no
  16-bit wrap-around and never beyond the limit, and nothing else of the resource changes
  but its watermark. The lease names a slot that was free, which is now active with the
  lease's magic and the current pressure; the other slots are unchanged.
\<close>

theorem enter_takes_exactly:
  assumes "inst_ok B b" and "loxbudget_enter B P b op True e = (LOXBUDGET_OK, Some l, b', e')"
  shows "l_op l = op \<and> l_magic l = b_lease_magic_base b XOR ucast (l_id l) \<and> l_id l < b_max_leases b \<and>
         ls_active (t_lease_slots b ! unat (l_id l)) = 0 \<and>
         t_lease_slots b' = (t_lease_slots b)[unat (l_id l) :=
            \<lparr>ls_magic = l_magic l, ls_active = 1, ls_acquired_pressure = b_pressure b\<rparr>] \<and>
         (\<forall>i < unat (b_max_resources b).
            let r = t_resources b ! i; r' = t_resources b' ! i; a = unat (amount_of (op_needs b op) i) in
            unat (r_reserved r') = unat (r_reserved r) + (if r_kind r = 0 then a else 0) \<and>
            unat (r_used r') = unat (r_used r) + (if r_kind r = 1 then a else 0) \<and>
            unat (r_used r') + unat (r_reserved r') \<le> unat (r_limit r) \<and>
            r_limit r' = r_limit r \<and> r_kind r' = r_kind r)"
  using assms(2)
proof (rule enter_OK [OF assms(1)])
  fix p i rt now
  let ?b = "checked B P b op e"
  assume a: "admissible B P b op e" "free_slot b = Some i" "loxbudget_profile_c b op = Some p"
    "Some l = Some (new_lease b i op now)" "b' = entered ?b op i rt" "inst_ok B b'"
  note f = checked_frame [of b B P op e]
  note acc = check_frame_accessors [OF f]
  note slot = free_slot_Some [OF a(2)]
  note len = size_shape_lengths [OF inst_okD(5) [OF assms(1)]]
  have id: "unat (l_id l) = i" "l_op l = op" "l_magic l = loxbudget_lease_magic_for_id' b (l_id l)"
    using a(4) slot(1) by (auto simp: new_lease_def small_slot)
  have afford: "affordable b (op_needs b op)"
    by (rule admissible_affordable [OF a(1) inst_table [OF assms(1)]])
  have keys: "distinct (need_keys (op_needs b op))" using inst_needs [OF assms(1), of op] a(3) by simp
  have res: "t_resources b' ! j = (if amount_of (op_needs b op) j = 0 then t_resources b ! j
      else take_on (amount_of (op_needs b op) j) (t_resources b ! j))" if "j < unat (b_max_resources b)" for j
    using on_needs_amount [OF keys, of j "t_resources b" take_on] that len(3,7)
    by (simp add: a(5) entered_def acc check_frame_fields(1) [OF f])
  have "let r = t_resources b ! j; r' = t_resources b' ! j; am = unat (amount_of (op_needs b op) j) in
            unat (r_reserved r') = unat (r_reserved r) + (if r_kind r = 0 then am else 0) \<and>
            unat (r_used r') = unat (r_used r) + (if r_kind r = 1 then am else 0) \<and>
            unat (r_used r') + unat (r_reserved r') \<le> unat (r_limit r) \<and>
            r_limit r' = r_limit r \<and> r_kind r' = r_kind r" if j: "j < unat (b_max_resources b)" for j
  proof -
    have ok: "resource_ok (t_resources b ! j)"
      using inst_okD(4) [OF assms(1)] j len(3) by (simp add: books_ok_def list_all_length)
    have rm: "r_kind (t_resources b ! j) \<noteq> 2 \<Longrightarrow> amount_of (op_needs b op) j \<noteq> 0 \<Longrightarrow>
        unat (amount_of (op_needs b op) j) \<le> room (t_resources b ! j)"
      using afford j len(3) by (simp add: affordable_def)
    show ?thesis
      using res [OF j] take_on_amounts [OF ok, of "amount_of (op_needs b op) j"]
        take_on_ok [OF ok, of "amount_of (op_needs b op) j"] rm ok
      by (auto simp: Let_def resource_ok_def)
  qed
  moreover have "t_lease_slots b' = (t_lease_slots b)[i :=
      \<lparr>ls_magic = l_magic l, ls_active = 1, ls_acquired_pressure = b_pressure b\<rparr>]"
    using a(4) id by (simp add: a(5) entered_def new_lease_def acc check_frame_fields [OF f])
  ultimately show ?thesis
    using slot id by (simp add: loxbudget_lease_magic_for_id'_def word_less_nat_alt)
qed

theorem enter_takes_exactly_witness:
  "\<exists>l b' e'. loxbudget_enter fixed_build quiet_platform demo 0 True 7 = (LOXBUDGET_OK, Some l, b', e') \<and>
     unat (r_reserved (t_resources b' ! 0)) = unat (r_reserved (t_resources demo ! 0)) + 40"
proof -
  obtain st out b' e' where r: "loxbudget_enter fixed_build quiet_platform demo 0 True 7 = (st, out, b', e')"
    by (metis prod.exhaust)
  with demo_enter obtain l where "st = LOXBUDGET_OK" "out = Some l" by (auto simp: map_prod_def)
  with r have r: "loxbudget_enter fixed_build quiet_platform demo 0 True 7 = (LOXBUDGET_OK, Some l, b', e')" by simp
  have "b_max_resources demo = 2" "r_kind (t_resources demo ! 0) = 0" "amount_of (op_needs demo 0) 0 = 40"
    by code_simp+
  with enter_takes_exactly [OF demo_ok r] r show ?thesis by (auto simp: Let_def)
qed

section \<open>Enter and leave\<close>

lemma enter_lease_valid:
  assumes "inst_ok B b" "loxbudget_enter B P b op True e = (LOXBUDGET_OK, Some l, b', e')"
  shows "lease_valid b' l"
  using assms(2)
proof (rule enter_OK [OF assms(1)])
  fix p i rt now
  let ?b = "checked B P b op e"
  assume a: "free_slot b = Some i" "loxbudget_profile_c b op = Some p"
    "Some l = Some (new_lease b i op now)" "b' = entered ?b op i rt"
  note f = checked_frame [of b B P op e]
  note acc = check_frame_accessors [OF f] books_only_accessors [OF entered_books [of ?b op i rt]]
  note slot = free_slot_Some [OF a(1)]
  have "t_lease_slots b' ! i =
      \<lparr>ls_magic = loxbudget_lease_magic_for_id' b (of_nat i), ls_active = 1, ls_acquired_pressure = b_pressure b\<rparr>"
    using slot(2) by (simp add: a(4) entered_def acc check_frame_fields [OF f])
  then show ?thesis
    using slot(1) a(2,3) books_only_fields(4) [OF entered_books [of ?b op i rt]]
    unfolding a(4) by (simp add: lease_valid_def acc new_lease_def small_slot word_less_nat_alt check_frame_fields [OF f])
qed

lemma entered_then_left:
  assumes "distinct (need_keys (op_needs b op))" "j < length (t_resources b)" "j < 256"
    and "resource_ok (t_resources b ! j)" "affordable b (op_needs b op)" "l_op l = op"
  shows "r_reserved (t_resources (left (entered b op i rt) l) ! j) = r_reserved (t_resources b ! j)"
proof -
  note acc = books_only_accessors [OF entered_books [of b op i rt]]
  let ?a = "amount_of (op_needs b op) j" and ?r = "t_resources b ! j"
  have at: "t_resources (left (entered b op i rt) l) ! j = (if ?a = 0 then ?r else give_back ?a (take_on ?a ?r))"
    using on_needs_amount [OF assms(1-3), of take_on]
      on_needs_amount [OF assms(1), of j "on_needs take_on (op_needs b op) (t_resources b)" give_back] assms(2,3)
    by (simp add: left_def acc assms(6)) (simp add: entered_def)
  have "unat (r_reserved (give_back ?a (take_on ?a ?r))) = unat (r_reserved ?r)" if "?a \<noteq> 0"
    using that assms(2,4,5) by (simp add: give_back_amounts take_on_amounts affordable_def)
  with at show ?thesis by (auto simp: word_unat_eq_iff)
qed

text \<open>
  C2. Entering and leaving again: the lease that a successful enter returns is accepted by
  \<open>loxbudget_leave\<close>, after which every reservation is what it was before, the slot is free
  again and the other slots are untouched; a second leave with the same lease is refused
  and changes nothing.
\<close>

theorem enter_leave_roundtrip:
  assumes "inst_ok B b" and "loxbudget_enter B P b op True e = (LOXBUDGET_OK, Some l, b', e')"
  shows "\<exists>b'' e''. loxbudget_leave P b' l e' = (LOXBUDGET_OK, b'', e'') \<and>
     (\<forall>i < length (t_resources b). r_reserved (t_resources b'' ! i) = r_reserved (t_resources b ! i)) \<and>
     (\<forall>i < length (t_lease_slots b). ls_active (t_lease_slots b'' ! i) = ls_active (t_lease_slots b ! i)) \<and>
     (\<forall>x. \<exists>st y. st \<noteq> LOXBUDGET_OK \<and> loxbudget_leave P b'' l x = (st, b'', y))"
  using assms(2)
proof (rule enter_OK [OF assms(1)])
  fix p i rt now
  let ?b = "checked B P b op e"
  assume a: "admissible B P b op e" "free_slot b = Some i" "loxbudget_profile_c b op = Some p"
    "Some l = Some (new_lease b i op now)" "b' = entered ?b op i rt" "inst_ok B b'"
  note f = checked_frame [of b B P op e]
  note acc = check_frame_accessors [OF f]
  note slot = free_slot_Some [OF a(2)]
  have l: "l_op l = op" "unat (l_id l) = i" using a(4) slot(1) by (simp_all add: new_lease_def small_slot)
  obtain e'' where leave: "loxbudget_leave P b' l e' = (LOXBUDGET_OK, left b' l, e'')"
    using leave_valid [OF shape_magic [OF inst_okD(1) [OF a(6)]] enter_lease_valid [OF assms], of P e'] by blast
  have "r_reserved (t_resources (left b' l) ! j) = r_reserved (t_resources b ! j)" if j: "j < length (t_resources b)" for j
  proof -
    have "distinct (need_keys (op_needs ?b op))" using inst_needs [OF assms(1), of op] a(3) by (simp add: acc)
    moreover have "resource_ok (t_resources ?b ! j)" "j < length (t_resources ?b)"
      using inst_okD(4) [OF assms(1)] j by (simp_all add: books_ok_def list_all_length check_frame_fields(1) [OF f])
    moreover have "affordable ?b (op_needs ?b op)"
      using admissible_affordable [OF a(1) inst_table [OF assms(1)]] affordable_frame [OF f, of op] by simp
    ultimately have "r_reserved (t_resources (left (entered ?b op i rt) l) ! j) = r_reserved (t_resources ?b ! j)"
      using j inst_table [OF assms(1)] l(1) by (intro entered_then_left) auto
    then show ?thesis by (simp add: a(5) check_frame_fields(1) [OF f])
  qed
  moreover have slots: "ls_active (t_lease_slots (left b' l) ! j) = ls_active (t_lease_slots b ! j)"
    if "j < length (t_lease_slots b)" for j
    using that slot(3) l
    by (cases "i = j") (simp_all add: left_def a(5) entered_def check_frame_fields(2) [OF f] nth_upd_at)
  moreover have "\<exists>st y. st \<noteq> LOXBUDGET_OK \<and> loxbudget_leave P (left b' l) l x = (st, left b' l, y)" for x
  proof -
    have "ls_active (t_lease_slots (left b' l) ! unat (l_id l)) = 0"
      using slots slot l by simp
    then have "\<not> lease_valid (left b' l) l" by (simp add: lease_valid_def)
    then show ?thesis by (cases rule: leave_cases [of "left b' l" l P x]) auto
  qed
  ultimately show ?thesis using leave by blast
qed

theorem enter_leave_roundtrip_witness:
  "\<exists>l b' e' b'' e''. loxbudget_enter fixed_build quiet_platform demo 0 True 7 = (LOXBUDGET_OK, Some l, b', e') \<and>
     loxbudget_leave quiet_platform b' l e' = (LOXBUDGET_OK, b'', e'') \<and>
     r_reserved (t_resources b'' ! 0) = r_reserved (t_resources demo ! 0)"
proof -
  obtain st out b' e' where r: "loxbudget_enter fixed_build quiet_platform demo 0 True 7 = (st, out, b', e')"
    by (metis prod.exhaust)
  with demo_enter obtain l where "st = LOXBUDGET_OK" "out = Some l" by (auto simp: map_prod_def)
  with r have r: "loxbudget_enter fixed_build quiet_platform demo 0 True 7 = (LOXBUDGET_OK, Some l, b', e')" by simp
  with enter_leave_roundtrip [OF demo_ok r] demo_facts(6) show ?thesis by fastforce
qed

section \<open>All clients together\<close>

text \<open>
  C4. No leak, no overcommitment: start with an instance whose ledger is right and let any
  number of clients enter, leave with leases they hold, check and change the pressure in
  any order. Then at every moment each reusable resource has reserved exactly the sum of the needs
  of the leases that are held, at most its limit, and there are at most \<open>max_leases\<close> of
  them; when all have been given back, nothing is reserved.
\<close>

theorem clients_never_leak:
  assumes "inst_ok B b" and "ledger_ok b L" and "fold (client_step B P) evs (b, L, e) = (b', L', e')"
    and "i < length (t_resources b')" and "r_kind (t_resources b' ! i) = 0"
  shows "unat (r_reserved (t_resources b' ! i)) = (\<Sum>l\<leftarrow>L'. unat (amount_of (op_needs b' (l_op l)) i)) \<and>
         unat (r_used (t_resources b' ! i)) + unat (r_reserved (t_resources b' ! i)) \<le> unat (r_limit (t_resources b' ! i)) \<and>
         length L' \<le> unat (b_max_leases b') \<and> (L' = [] \<longrightarrow> r_reserved (t_resources b' ! i) = 0)"
proof -
  have s: "clients_ok B (b, L, e)" using assms(1,2) by (simp add: clients_ok_def)
  from clients.run_inv [OF s, where P = P and evs = evs] have "inst_ok B b'" by (simp add: assms(3) clients_ok_def)
  then have "resource_ok (t_resources b' ! i)"
    using inst_okD(4) assms(4) by (auto simp: books_ok_def list_all_length)
  with clients.run_usage [OF s, where P = P and evs = evs and i = i] clients.run_bounded [OF s, where P = P and evs = evs]
    assms(3-5) show ?thesis
    by (auto simp: resource_ok_def unat_eq_zero)
qed

theorem clients_never_leak_witness:
  "case fold (client_step fixed_build quiet_platform) [C_Enter 0, C_Enter 1, C_Leave 1, C_Leave 0] (demo, [], 7) of
     (b', L', e') \<Rightarrow> unat (r_reserved (t_resources b' ! 0)) = (\<Sum>l\<leftarrow>L'. unat (amount_of (op_needs b' (l_op l)) 0))"
proof -
  obtain b' L' e' where r: "fold (client_step fixed_build quiet_platform) [C_Enter 0, C_Enter 1, C_Leave 1, C_Leave 0]
      (demo, [], 7) = (b', L', e')" by (metis prod.exhaust)
  have "(case fold (client_step fixed_build quiet_platform) [C_Enter 0, C_Enter 1, C_Leave 1, C_Leave 0] (demo, [], 7) of
     (b', L', e') \<Rightarrow> 0 < length (t_resources b') \<and> r_kind (t_resources b' ! 0) = 0)"
    by code_simp
  with r clients_never_leak [OF demo_ok demo_ledger r, of 0] show ?thesis by simp
qed

section \<open>Yield\<close>

text \<open>
  C39. The yield hint: for a lease that is held, \<open>loxbudget_yield_check\<close> says SHOULD_ABORT exactly
  when the pressure would no longer admit the operation (the condition the decision engine
  uses), and otherwise compares the pressure with the one at acquisition; a lease that is
  not held is answered with an error and no hint.
\<close>

theorem yield_check_hint:
  assumes "inst_ok B b"
  shows "if lease_valid b l
     then \<exists>p. loxbudget_profile_c b (l_op l) = Some p \<and>
       loxbudget_yield_check b l True = (LOXBUDGET_OK, Some
         (let prev = ls_acquired_pressure (t_lease_slots b ! unat (l_id l)) in
          if \<not> pressure_allows b p then LOXBUDGET_SHOULD_ABORT
          else if b_pressure b = prev then LOXBUDGET_PRESSURE_HOLDING
          else if b_pressure b > prev then LOXBUDGET_PRESSURE_RISING
          else LOXBUDGET_PRESSURE_FALLING))
     else fst (loxbudget_yield_check b l True) \<noteq> LOXBUDGET_OK \<and> snd (loxbudget_yield_check b l True) = None"
proof (cases "lease_valid b l")
  case True
  then obtain p where p: "loxbudget_profile_c b (l_op l) = Some p" by (auto simp: lease_valid_def)
  have "loxbudget_mapped_action p (b_pressure b) \<in> {0, 1, 2, 3, 4}"
    using mapped_action_le [OF config_profile(2) [OF inst_okD(2) [OF assms] p]] by (simp add: u8_le_4)
  then have "yield_hint p prev (b_pressure b) =
      (if \<not> pressure_allows b p then LOXBUDGET_SHOULD_ABORT
       else if b_pressure b = prev then LOXBUDGET_PRESSURE_HOLDING
       else if b_pressure b > prev then LOXBUDGET_PRESSURE_RISING
       else LOXBUDGET_PRESSURE_FALLING)" for prev
    by (auto simp: yield_hint_def pressure_allows_def Let_def)
  with True p shape_magic [OF inst_okD(1) [OF assms]] show ?thesis
    by (auto simp: loxbudget_yield_check_def lease_valid_def Let_def not_le [symmetric])
next
  case False
  with shape_magic [OF inst_okD(1) [OF assms]] show ?thesis
    by (auto simp: loxbudget_yield_check_def lease_valid_def Let_def not_le [symmetric] split: option.splits)
qed

lemma demo_held:
  "case loxbudget_enter fixed_build quiet_platform demo 0 True 7 of (st, out, b', e') \<Rightarrow>
     st = LOXBUDGET_OK \<and> (case out of None \<Rightarrow> False | Some l \<Rightarrow>
       l_op l = 0 \<and> loxbudget_profile_c b' 0 = Some (loxbudget_op_profile_default 0) \<and>
       pressure_allows b' (loxbudget_op_profile_default 0) \<and>
       ls_acquired_pressure (t_lease_slots b' ! unat (l_id l)) = b_pressure b')"
  by code_simp

theorem yield_check_hint_witness:
  "\<exists>l b' e'. loxbudget_enter fixed_build quiet_platform demo 0 True 7 = (LOXBUDGET_OK, Some l, b', e') \<and>
     loxbudget_yield_check b' l True = (LOXBUDGET_OK, Some LOXBUDGET_PRESSURE_HOLDING)"
proof -
  obtain st out b' e' where r: "loxbudget_enter fixed_build quiet_platform demo 0 True 7 = (st, out, b', e')"
    by (metis prod.exhaust)
  with demo_held obtain l where l: "st = LOXBUDGET_OK" "out = Some l" by (auto split: option.splits)
  note r = r [unfolded l]
  have f: "l_op l = 0" "loxbudget_profile_c b' 0 = Some (loxbudget_op_profile_default 0)"
    "pressure_allows b' (loxbudget_op_profile_default 0)"
    "ls_acquired_pressure (t_lease_slots b' ! unat (l_id l)) = b_pressure b'"
    using demo_held r by simp_all
  have "inst_ok fixed_build b'"
    using enter_inst [OF demo_ok, of quiet_platform 0 True 7] r by simp
  from yield_check_hint [OF this, of l] enter_lease_valid [OF demo_ok r] f r show ?thesis
    by (simp add: Let_def)
qed

section \<open>Outside the contract\<close>

subsection \<open>One enter, one leave, as the contract does not see them\<close>

lemma enter_result:
  assumes "inst_ok B b" "loxbudget_enter B P b op True e = (LOXBUDGET_OK, Some l, b', e')"
  shows "inst_ok B b'" "same_config b b'" "b_magic b' = b_magic b" "b_max_leases b' = b_max_leases b"
    and "b_lease_magic_base b' = b_lease_magic_base b"
    and "l_op l = op" "loxbudget_profile_c b op \<noteq> None" "free_slot b = Some (unat (l_id l))"
    and "l_magic l = loxbudget_lease_magic_for_id' b (l_id l)"
    and "map ls_active (t_lease_slots b') = (map ls_active (t_lease_slots b))[unat (l_id l) := 1]"
    and "\<And>j. j < length (t_resources b) \<Longrightarrow> r_kind (t_resources b ! j) = 0 \<Longrightarrow>
      unat (r_reserved (t_resources b' ! j)) =
        unat (r_reserved (t_resources b ! j)) + unat (amount_of (op_needs b op) j)"
proof -
  obtain p i rt now where a: "admissible B P b op e" "free_slot b = Some i" "loxbudget_profile_c b op = Some p"
    "Some l = Some (new_lease b i op now)" "b' = entered (checked B P b op e) op i rt" "inst_ok B b'"
    by (rule enter_OK [OF assms])
  let ?b = "checked B P b op e"
  note f = checked_frame [of b B P op e]
  note acc = check_frame_accessors [OF f]
  note slot = free_slot_Some [OF a(2)]
  show "inst_ok B b'" by (rule a(6))
  show "same_config b b'"
    unfolding a(5) by (rule same_config_trans [OF check_frame_config [OF f] entered_config])
  show "b_max_leases b' = b_max_leases b" "b_lease_magic_base b' = b_lease_magic_base b"
    using books_only_fields [OF entered_books [of ?b op i rt]] check_frame_fields [OF f] by (simp_all add: a(5))
  show "b_magic b' = b_magic b"
    using shape_magic [OF inst_okD(1) [OF assms(1)]] shape_magic [OF inst_okD(1) [OF a(6)]] by simp
  have id: "unat (l_id l) = i" "l_op l = op"
    using a(4) slot(1) by (simp_all add: new_lease_def small_slot)
  show "l_op l = op" "loxbudget_profile_c b op \<noteq> None" "free_slot b = Some (unat (l_id l))"
    using id a(2,3) by simp_all
  show "l_magic l = loxbudget_lease_magic_for_id' b (l_id l)"
    using a(4) by (simp add: new_lease_def)
  show "map ls_active (t_lease_slots b') = (map ls_active (t_lease_slots b))[unat (l_id l) := 1]"
    by (simp add: a(5) id(1) entered_def map_update check_frame_fields(2) [OF f])
  fix j assume j: "j < length (t_resources b)" "r_kind (t_resources b ! j) = 0"
  have keys: "distinct (need_keys (op_needs b op))" using inst_needs [OF assms(1), of op] a(3) by simp
  have "resource_ok (t_resources b ! j)"
    using inst_okD(4) [OF assms(1)] j by (simp add: books_ok_def list_all_length)
  moreover have "unat (amount_of (op_needs b op) j) \<le> room (t_resources b ! j)" if "amount_of (op_needs b op) j \<noteq> 0"
    using admissible_affordable [OF a(1) inst_table [OF assms(1)]] j that by (simp add: affordable_def)
  moreover have "t_resources b' ! j = (if amount_of (op_needs b op) j = 0 then t_resources b ! j
      else take_on (amount_of (op_needs b op) j) (t_resources b ! j))"
    using on_needs_amount [OF keys, of j "t_resources b" take_on] j inst_table [OF assms(1)]
    by (simp add: a(5) entered_def acc check_frame_fields(1) [OF f])
  ultimately show "unat (r_reserved (t_resources b' ! j)) =
      unat (r_reserved (t_resources b ! j)) + unat (amount_of (op_needs b op) j)"
    using take_on_amounts(1) [of "t_resources b ! j" "amount_of (op_needs b op) j"] j(2)
    by (cases "amount_of (op_needs b op) j = 0") simp_all
qed

lemma left_reserved:
  assumes "distinct (need_keys (op_needs b (l_op l)))" "j < length (t_resources b)" "j < 256"
    "r_kind (t_resources b ! j) = 0"
  shows "unat (r_reserved (t_resources (left b l) ! j)) =
    unat (r_reserved (t_resources b ! j)) - unat (amount_of (op_needs b (l_op l)) j)"
  using on_needs_amount [OF assms(1-3), of give_back] give_back_amounts [of _ "t_resources b ! j"] assms(4)
  by (simp add: left_def)

lemma left_slots:
  assumes "unat (l_id l) < length (t_lease_slots b)"
  shows "map ls_active (t_lease_slots (left b l)) = (map ls_active (t_lease_slots b))[unat (l_id l) := 0]"
  using assms by (simp add: left_def upd_at_def map_update)

lemma free_slot_active:
  assumes "map ls_active (t_lease_slots c) = map ls_active (t_lease_slots b)" "b_max_leases c = b_max_leases b"
  shows "free_slot c = free_slot b"
proof -
  have key: "first_index (\<lambda>s. ls_active s = 0) xs = first_index (\<lambda>a. a = 0) (map ls_active xs)" for xs
    by (induction xs) (simp_all split: option.splits)
  have "free_slot d = first_index (\<lambda>a. a = 0) (take (unat (b_max_leases d)) (map ls_active (t_lease_slots d)))" for d
    unfolding free_slot_def take_map by (rule key)
  then show ?thesis by (simp add: assms)
qed

lemma leave_refused:
  assumes "ls_active (t_lease_slots b ! unat (l_id l)) = 0"
  shows "\<exists>st y. st \<noteq> LOXBUDGET_OK \<and> loxbudget_leave P b l x = (st, b, y)"
proof -
  have "\<not> lease_valid b l" using assms by (simp add: lease_valid_def)
  then show ?thesis by (cases rule: leave_cases [of b l P x]) auto
qed

lemma leave_result:
  assumes "inst_ok B b" "lease_valid b l" "loxbudget_leave P b l e = (LOXBUDGET_OK, b', e')"
  shows "b' = left b l" "inst_ok B b'" "same_config b b'" "b_max_leases b' = b_max_leases b"
    and "b_lease_magic_base b' = b_lease_magic_base b"
    and "map ls_active (t_lease_slots b') = (map ls_active (t_lease_slots b))[unat (l_id l) := 0]"
    and "\<And>j. j < length (t_resources b) \<Longrightarrow> r_kind (t_resources b ! j) = 0 \<Longrightarrow>
      unat (r_reserved (t_resources b' ! j)) =
        unat (r_reserved (t_resources b ! j)) - unat (amount_of (op_needs b (l_op l)) j)"
proof -
  show b': "b' = left b l"
    using leave_valid [OF shape_magic [OF inst_okD(1) [OF assms(1)]] assms(2), of P e] assms(3) by auto
  show "inst_ok B b'"
    unfolding b' using assms(2) by (intro left_inst [OF assms(1)]) (simp add: lease_valid_def)
  show "same_config b b'" unfolding b' by (rule left_config)
  show "b_max_leases b' = b_max_leases b" "b_lease_magic_base b' = b_lease_magic_base b"
    by (simp_all add: b' left_def)
  have "unat (l_id l) < length (t_lease_slots b)"
    using assms(2) size_shape_lengths(6) [OF inst_okD(5) [OF assms(1)]] by (simp add: lease_valid_def word_less_nat_alt)
  then show "map ls_active (t_lease_slots b') = (map ls_active (t_lease_slots b))[unat (l_id l) := 0]"
    unfolding b' by (rule left_slots)
  have "distinct (need_keys (op_needs b (l_op l)))"
    using assms(2) by (intro inst_needs [OF assms(1)]) (simp add: lease_valid_def)
  then show "unat (r_reserved (t_resources b' ! j)) =
        unat (r_reserved (t_resources b ! j)) - unat (amount_of (op_needs b (l_op l)) j)"
    if "j < length (t_resources b)" "r_kind (t_resources b ! j) = 0" for j
    unfolding b' using that inst_table [OF assms(1)] by (intro left_reserved) simp_all
qed

text \<open>
  C35. A lease kept after leaving is not recognised as stale once its slot is used again,
  because the magic depends on the slot only. Let a client enter and leave and another
  enter: the second gets the same slot, with the same magic. When the first leaves again
  with its old lease, whatever the two operations, the answer is OK. This frees the second
  client's slot, gives back the needs of the first operation (saturating at 0) in place of
  those of the second, and makes the second client's own leave fail.
\<close>

theorem stale_lease_accepted:
  assumes "inst_ok B b"
    and "loxbudget_enter B P b op True e = (LOXBUDGET_OK, Some l, b1, e1)"
    and "loxbudget_leave P b1 l x1 = (LOXBUDGET_OK, b2, e2)"
    and "loxbudget_enter B P b2 op' True x2 = (LOXBUDGET_OK, Some l', b3, e3)"
  shows "l_id l' = l_id l \<and> l_magic l' = l_magic l \<and>
    (\<exists>b4 e4. loxbudget_leave P b3 l x3 = (LOXBUDGET_OK, b4, e4) \<and>
       ls_active (t_lease_slots b4 ! unat (l_id l')) = 0 \<and>
       (\<forall>i < length (t_resources b). r_kind (t_resources b ! i) = 0 \<longrightarrow>
          unat (r_reserved (t_resources b4 ! i)) =
            unat (r_reserved (t_resources b ! i)) + unat (amount_of (op_needs b op') i)
              - unat (amount_of (op_needs b op) i)) \<and>
       (\<forall>x. \<exists>st y. st \<noteq> LOXBUDGET_OK \<and> loxbudget_leave P b4 l' x = (st, b4, y)))"
proof -
  note r1 = enter_result [OF assms(1,2)]
  note r2 = leave_result [OF r1(1) enter_lease_valid [OF assms(1,2)] assms(3)]
  note r3 = enter_result [OF r2(2) assms(4)]
  note conf = same_config_trans [OF r1(2) r2(3)] same_config_trans [OF same_config_trans [OF r1(2) r2(3)] r3(2)]
  note acc = same_config_accessors [OF r1(2)] same_config_accessors [OF conf(1)] same_config_accessors [OF conf(2)]
  have len: "length (t_resources b1) = length (t_resources b)" "length (t_resources b2) = length (t_resources b)"
    "length (t_resources b3) = length (t_resources b)"
    using r1(2) conf by (auto simp: same_config_def dest: map_eq_imp_length_eq)
  note slot = free_slot_Some [OF r1(8)]
  have "map ls_active (t_lease_slots b2) = map ls_active (t_lease_slots b)"
    using slot(2,3) by (simp add: r2(6) r1(10) list_update_same_conv)
  then have "free_slot b2 = free_slot b"
    using r1(4) r2(4) by (intro free_slot_active) simp_all
  then have id: "l_id l' = l_id l" using r1(8) r3(8) by (simp add: word_unat_eq_iff)
  have magic: "l_magic l' = l_magic l"
    by (simp add: r1(9) r3(9) id loxbudget_lease_magic_for_id'_def r1(5) r2(5))
  have valid: "lease_valid b3 l"
    using enter_lease_valid [OF r2(2) assms(4)] id magic r1(6,7) by (simp add: lease_valid_def acc)
  obtain e4 where leave: "loxbudget_leave P b3 l x3 = (LOXBUDGET_OK, left b3 l, e4)"
    using leave_valid [OF shape_magic [OF inst_okD(1) [OF r3(1)]] valid, of P x3] by blast
  note r4 = leave_result [OF r3(1) valid leave]
  have "length (t_lease_slots b3) = length (t_lease_slots b)"
    using arg_cong [OF r3(10), of length] arg_cong [OF r2(6), of length] arg_cong [OF r1(10), of length] by simp
  then have free: "ls_active (t_lease_slots (left b3 l) ! unat (l_id l')) = 0"
    using slot(2) id by (simp add: left_def)
  have "unat (r_reserved (t_resources (left b3 l) ! i)) =
            unat (r_reserved (t_resources b ! i)) + unat (amount_of (op_needs b op') i)
              - unat (amount_of (op_needs b op) i)"
    if i: "i < length (t_resources b)" "r_kind (t_resources b ! i) = 0" for i
  proof -
    note kind = same_config_kind(1) [OF r1(2) i(1)] same_config_kind(1) [OF conf(1) i(1)]
      same_config_kind(1) [OF conf(2) i(1)]
    have "unat (r_reserved (t_resources b2 ! i)) = unat (r_reserved (t_resources b ! i))"
      using r1(11) [OF i] r2(7) [of i] i kind(1) r1(6) by (simp add: acc len)
    moreover have "unat (r_reserved (t_resources b3 ! i)) =
        unat (r_reserved (t_resources b2 ! i)) + unat (amount_of (op_needs b op') i)"
      using r3(11) [of i] i kind(2) by (simp add: acc len)
    ultimately show ?thesis
      using r4(7) [of i] i kind(3) r1(6) by (simp add: acc len)
  qed
  then have res: "\<forall>i < length (t_resources b). r_kind (t_resources b ! i) = 0 \<longrightarrow>
      unat (r_reserved (t_resources (left b3 l) ! i)) =
            unat (r_reserved (t_resources b ! i)) + unat (amount_of (op_needs b op') i)
              - unat (amount_of (op_needs b op) i)" by blast
  have "\<forall>x. \<exists>st y. st \<noteq> LOXBUDGET_OK \<and> loxbudget_leave P (left b3 l) l' x = (st, left b3 l, y)"
    by (intro allI leave_refused free)
  with leave free res show ?thesis
    by (intro conjI id magic exI [of _ "left b3 l"] exI [of _ e4])
qed

text \<open>Three calls on \<open>demo\<close>; the leases and the states they leave.\<close>

lemma demo_stale:
  "case loxbudget_enter fixed_build quiet_platform demo 0 True 7 of (st1, out1, b1, e1) \<Rightarrow>
     st1 = LOXBUDGET_OK \<and> (case out1 of None \<Rightarrow> False | Some l \<Rightarrow>
   (case loxbudget_leave quiet_platform b1 l 7 of (st2, b2, e2) \<Rightarrow>
     st2 = LOXBUDGET_OK \<and>
   (case loxbudget_enter fixed_build quiet_platform b2 1 True 7 of (st3, out3, b3, e3) \<Rightarrow>
     st3 = LOXBUDGET_OK \<and> out3 \<noteq> None)))"
  by code_simp

lemma demo_amounts:
  "amount_of (op_needs demo 0) 0 = 40" "amount_of (op_needs demo 1) 0 = 60"
  "r_kind (t_resources demo ! 0) = 0" "r_reserved (t_resources demo ! 0) = 0"
  by code_simp+

theorem stale_lease_accepted_witness:
  "\<exists>l b1 e1 b2 e2 l' b3 e3 b4 e4.
     loxbudget_enter fixed_build quiet_platform demo 0 True 7 = (LOXBUDGET_OK, Some l, b1, e1) \<and>
     loxbudget_leave quiet_platform b1 l 7 = (LOXBUDGET_OK, b2, e2) \<and>
     loxbudget_enter fixed_build quiet_platform b2 1 True 7 = (LOXBUDGET_OK, Some l', b3, e3) \<and>
     loxbudget_leave quiet_platform b3 l 7 = (LOXBUDGET_OK, b4, e4) \<and>
     unat (r_reserved (t_resources b4 ! 0)) = 20"
proof -
  obtain st1 out1 b1 e1 where 1: "loxbudget_enter fixed_build quiet_platform demo 0 True 7 = (st1, out1, b1, e1)"
    by (metis prod.exhaust)
  with demo_stale obtain l where l: "st1 = LOXBUDGET_OK" "out1 = Some l" by (auto split: option.splits)
  obtain st2 b2 e2 where 2: "loxbudget_leave quiet_platform b1 l 7 = (st2, b2, e2)" by (metis prod.exhaust)
  obtain st3 out3 b3 e3 where 3: "loxbudget_enter fixed_build quiet_platform b2 1 True 7 = (st3, out3, b3, e3)"
    by (metis prod.exhaust)
  from demo_stale 1 l 2 3 obtain l' where l': "st2 = LOXBUDGET_OK" "st3 = LOXBUDGET_OK" "out3 = Some l'" by auto
  show ?thesis
    using stale_lease_accepted [OF demo_ok 1 [unfolded l] 2 [unfolded l'] 3 [unfolded l'], of 7]
      1 2 3 l l' demo_facts(6) demo_amounts by fastforce
qed

text \<open>
  C37. Leaving gives back what the operation needs at that time, not what was taken. When the
  need of a held operation on a reusable resource is changed between entering and leaving,
  leaving with the lease returns OK and frees the slot, and the reservation of the resource
  is off by the difference: after lowering the need, the units between the two amounts
  stay reserved although nobody holds them, and a second leave is refused; after raising
  it, units that other leases hold are given back (down to 0). The other resources are
  as before the enter.
\<close>

theorem reconfigured_lease_leaks:
  assumes "inst_ok B b"
    and "loxbudget_enter B P b op True e = (LOXBUDGET_OK, Some l, b1, e1)"
    and "loxbudget_op_set_need b1 op r a = (LOXBUDGET_OK, b2)"
  shows "\<exists>b3 e3. loxbudget_leave P b2 l x = (LOXBUDGET_OK, b3, e3) \<and>
       ls_active (t_lease_slots b3 ! unat (l_id l)) = 0 \<and>
       (\<forall>i < length (t_resources b). r_kind (t_resources b ! i) = 0 \<longrightarrow>
          unat (r_reserved (t_resources b3 ! i)) =
            (if i = unat r
             then unat (r_reserved (t_resources b ! i)) + unat (amount_of (op_needs b op) i) - unat a
             else unat (r_reserved (t_resources b ! i)))) \<and>
       (\<forall>y. \<exists>st z. st \<noteq> LOXBUDGET_OK \<and> loxbudget_leave P b3 l y = (st, b3, z))"
proof -
  note r1 = enter_result [OF assms(1,2)]
  note ok = inst_okD [OF r1(1)]
  note eff = op_set_need_effect [OF ok(5,2) assms(3)]
  note acc = same_config_accessors [OF r1(2)]
  have len: "length (t_resources b1) = length (t_resources b)"
    using r1(2) by (auto simp: same_config_def dest: map_eq_imp_length_eq)
  obtain ns where b2: "b2 = b1\<lparr>t_needs := ns\<rparr>" using eff(5) by blast
  have "b_magic b2 = LOXBUDGET_MAGIC_INIT" using shape_magic [OF ok(1)] by (simp add: b2)
  moreover have "lease_valid b2 l"
    using enter_lease_valid [OF assms(1,2)]
    by (simp add: b2 lease_valid_def loxbudget_profile_c_def loxbudget_lease_magic_for_id'_def cong: if_cong)
  ultimately obtain e3 where leave: "loxbudget_leave P b2 l x = (LOXBUDGET_OK, left b2 l, e3)"
    using leave_valid [of b2 l P x] by blast
  have "length (t_lease_slots b1) = length (t_lease_slots b)"
    using arg_cong [OF r1(10), of length] by simp
  then have free: "ls_active (t_lease_slots (left b2 l) ! unat (l_id l)) = 0"
    using free_slot_Some(2) [OF r1(8)] by (simp add: left_def b2)
  have "unat (r_reserved (t_resources (left b2 l) ! i)) =
      (if i = unat r
       then unat (r_reserved (t_resources b ! i)) + unat (amount_of (op_needs b op) i) - unat a
       else unat (r_reserved (t_resources b ! i)))"
    if i: "i < length (t_resources b)" "r_kind (t_resources b ! i) = 0" for i
  proof -
    have i8: "i < 256" using i(1) inst_table [OF assms(1)] by simp
    have "amount_of (op_needs b2 op) i = (if i = unat r then a else amount_of (op_needs b op) i)"
      using i8 by (auto simp: amount_of_def eff(1) acc word_unat_eq_iff unat_of_nat)
    moreover have "unat (r_reserved (t_resources (left b2 l) ! i)) =
        unat (r_reserved (t_resources b2 ! i)) - unat (amount_of (op_needs b2 (l_op l)) i)"
      using eff(3) r1(6) i i8 same_config_kind(1) [OF r1(2) i(1)] by (intro left_reserved) (simp_all add: b2 len)
    moreover have "t_resources b2 = t_resources b1" by (simp add: b2)
    ultimately show ?thesis using r1(6) r1(11) [OF i] by simp
  qed
  then have res: "\<forall>i < length (t_resources b). r_kind (t_resources b ! i) = 0 \<longrightarrow>
      unat (r_reserved (t_resources (left b2 l) ! i)) =
        (if i = unat r
         then unat (r_reserved (t_resources b ! i)) + unat (amount_of (op_needs b op) i) - unat a
         else unat (r_reserved (t_resources b ! i)))" by blast
  have "\<forall>y. \<exists>st z. st \<noteq> LOXBUDGET_OK \<and> loxbudget_leave P (left b2 l) l y = (st, left b2 l, z)"
    by (intro allI leave_refused free)
  with leave free res show ?thesis
    by (intro conjI exI [of _ "left b2 l"] exI [of _ e3])
qed

lemma demo_lower:
  "case loxbudget_enter fixed_build quiet_platform demo 0 True 7 of (st1, out1, b1, e1) \<Rightarrow>
     st1 = LOXBUDGET_OK \<and> out1 \<noteq> None \<and> fst (loxbudget_op_set_need b1 0 0 10) = LOXBUDGET_OK"
  by code_simp

theorem reconfigured_lease_leaks_witness:
  "\<exists>l b1 e1 b2 b3 e3.
     loxbudget_enter fixed_build quiet_platform demo 0 True 7 = (LOXBUDGET_OK, Some l, b1, e1) \<and>
     loxbudget_op_set_need b1 0 0 10 = (LOXBUDGET_OK, b2) \<and>
     loxbudget_leave quiet_platform b2 l 7 = (LOXBUDGET_OK, b3, e3) \<and>
     unat (r_reserved (t_resources b3 ! 0)) = 30"
proof -
  obtain st1 out1 b1 e1 where 1: "loxbudget_enter fixed_build quiet_platform demo 0 True 7 = (st1, out1, b1, e1)"
    by (metis prod.exhaust)
  obtain st2 b2 where 2: "loxbudget_op_set_need b1 0 0 10 = (st2, b2)" by fastforce
  from demo_lower 1 2 obtain l where l: "st1 = LOXBUDGET_OK" "out1 = Some l" "st2 = LOXBUDGET_OK" by auto
  show ?thesis
    using reconfigured_lease_leaks [OF demo_ok 1 [unfolded l] 2 [unfolded l], of 7]
      1 2 l demo_facts(6) demo_amounts by fastforce
qed

end
