(* ===== verification/LB_Concurrency.thy ===== *)
theory LB_Concurrency
  imports LB_Lease_Props
begin

text \<open>
  Several tasks on one instance. \<open>loxbudget_enter\<close> validates the needs before its critical
  section and reserves them inside it, so another task may run in between. The step
  relation interleaves the two parts of an enter with those of other tasks and with
  leaves; each part is atomic, which is more than the code guarantees for the first one.
  The critical section protects the lease slots under every interleaving, but not the
  limits of the resources.
\<close>

section \<open>Interleaving\<close>

datatype task = Idle | Ready u8 loxbudget_op_profile

text \<open>An instance, its tasks, the leases that are held, and the environment.\<close>

type_synonym 'e system = "loxbudget \<times> task list \<times> loxbudget_lease list \<times> 'e"

inductive conc_step :: "build \<Rightarrow> 'e platform \<Rightarrow> 'e system \<Rightarrow> 'e system \<Rightarrow> bool" for B P where
  refused: "t < length ts \<Longrightarrow> ts ! t = Idle \<Longrightarrow> enter_prepare B P b op True e = (Inl (st, out), b', e') \<Longrightarrow>
    conc_step B P (b, ts, L, e) (b', ts, L, e')"
| prepared: "t < length ts \<Longrightarrow> ts ! t = Idle \<Longrightarrow> enter_prepare B P b op True e = (Inr p, b', e') \<Longrightarrow>
    conc_step B P (b, ts, L, e) (b', ts[t := Ready op p], L, e')"
| full: "t < length ts \<Longrightarrow> ts ! t = Ready op p \<Longrightarrow> enter_commit B P b op p e = (st, None, b', e') \<Longrightarrow>
    conc_step B P (b, ts, L, e) (b', ts[t := Idle], L, e')"
| committed: "t < length ts \<Longrightarrow> ts ! t = Ready op p \<Longrightarrow> enter_commit B P b op p e = (st, Some l, b', e') \<Longrightarrow>
    conc_step B P (b, ts, L, e) (b', ts[t := Idle], l # L, e')"
| released: "l \<in> set L \<Longrightarrow> loxbudget_leave P b l e = (LOXBUDGET_OK, b', e') \<Longrightarrow>
    conc_step B P (b, ts, L, e) (b', ts, remove1 l L, e')"

inductive_cases conc_stepE: "conc_step B P (b, ts, L, e) s'"

section \<open>The slots survive\<close>

text \<open>What every interleaving keeps: the shape, the configuration, and a slot of its own per lease.\<close>

definition conc_ok :: "build \<Rightarrow> 'e system \<Rightarrow> bool" where
  "conc_ok B s = (case s of (b, ts, L, e) \<Rightarrow>
     lb_shape B b \<and> config_ok b \<and> edges_ok (b_max_ops b) (live_edges b) \<and> slots_ok b L \<and>
     (\<forall>op p. Ready op p \<in> set ts \<longrightarrow> loxbudget_profile_c b op \<noteq> None))"

lemma prepare_keeps:
  assumes "enter_prepare B P b op True e = (r, b', e')" "conc_ok B (b, ts, L, e0)"
  shows "conc_ok B (b', ts, L, e')"
proof -
  have b': "b' = fst (snd (snd (loxbudget_check B P b op True e)))"
    using assms(1) by (auto simp: enter_prepare_def split: prod.splits)
  have f: "check_frame b b'" unfolding b' by (rule check_frame_holds)
  have "lb_shape B b" "edges_ok (b_max_ops b) (live_edges b)" "config_ok b" "slots_ok b L"
    using assms(2) by (simp_all add: conc_ok_def)
  then have "lb_shape B b'" unfolding b' by (intro check_shape)
  moreover have "config_ok b'"
    by (rule same_config_ok [OF check_frame_config [OF f] lb_shape_size]) fact+
  ultimately show ?thesis
    using assms(2) by (simp add: conc_ok_def slots_check_frame [OF f] check_frame_accessors [OF f] live_edges_def
        check_frame_fields [OF f])
qed

lemma prepare_ready:
  "enter_prepare B P b op True e = (Inr p, b', e') \<Longrightarrow> loxbudget_profile_c b' op \<noteq> None"
  by (auto simp: enter_prepare_def split: prod.splits option.splits if_splits)

lemma commit_keeps:
  assumes "enter_commit B P b op p e = (st, out, b', e')" "conc_ok B (b, ts, L, e0)" "Ready op p \<in> set ts"
  shows "conc_ok B (b', ts[t := Idle], (case out of None \<Rightarrow> L | Some l \<Rightarrow> l # L), e')"
proof -
  have b: "lb_shape B b" "config_ok b" "edges_ok (b_max_ops b) (live_edges b)" "slots_ok b L"
    "loxbudget_profile_c b op \<noteq> None" "\<forall>op p. Ready op p \<in> set ts \<longrightarrow> loxbudget_profile_c b op \<noteq> None"
    using assms(2,3) by (auto simp: conc_ok_def)
  have idle: "Ready o' p' \<in> set (ts[t := Idle]) \<Longrightarrow> Ready o' p' \<in> set ts" for o' p'
    using set_update_subset_insert [of ts t Idle] by auto
  then have ready: "\<forall>o' p'. Ready o' p' \<in> set (ts[t := Idle]) \<longrightarrow> loxbudget_profile_c b o' \<noteq> None"
    using b(6) by blast
  show ?thesis
  proof (cases "free_slot b")
    case None
    with assms(1) b(1-4) ready show ?thesis by (auto simp: enter_commit_full conc_ok_def)
  next
    case (Some i)
    have "distinct (need_keys (op_needs b op))"
      using config_profile(1) [OF b(2)] b(5) by (auto simp: op_config_ok_def)
    from enter_commit_Some [OF Some this, of B P p e] obtain rt now where
      r: "out = Some (new_lease b i op now)" "b' = entered b op i rt"
      and c: "charged B p (t_resources b) (amount_of (op_needs b op)) (t_rate b) rt"
      using assms(1) by auto
    have "lb_shape B b'" unfolding r(2) by (rule entered_shape [OF b(1) charged_sized [OF c]])
    moreover have "config_ok b'"
      unfolding r(2) by (rule same_config_ok [OF entered_config lb_shape_size [OF b(1)] b(2)])
    moreover have "slots_ok b' (new_lease b i op now # L)"
      unfolding r(2) by (rule enter_slots [OF b(4) Some b(5)])
    ultimately show ?thesis
      using b(3) ready books_only_fields(3,11) [OF entered_books [of b op i rt]]
        books_only_accessors(1) [OF entered_books [of b op i rt]]
      by (simp add: conc_ok_def r)
  qed
qed

lemma release_keeps:
  assumes "loxbudget_leave P b l e = (LOXBUDGET_OK, b', e')" "conc_ok B (b, ts, L, e0)" "l \<in> set L"
  shows "conc_ok B (b', ts, remove1 l L, e')"
proof -
  have b: "lb_shape B b" "config_ok b" "edges_ok (b_max_ops b) (live_edges b)" "slots_ok b L"
    using assms(2) by (auto simp: conc_ok_def)
  have b': "b' = left b l"
    using assms(1) by (cases rule: leave_cases [of b l P e]) auto
  have "lb_shape B b'" unfolding b' by (rule left_shape [OF b(1)])
  moreover have "config_ok b'"
    unfolding b' by (rule same_config_ok [OF left_config lb_shape_size [OF b(1)] b(2)])
  moreover have "slots_ok b' (remove1 l L)"
    unfolding b' by (rule leave_slots [OF b(4) size_shape_lengths(6) [OF lb_shape_size [OF b(1)]] assms(3)])
  ultimately show ?thesis
    using assms(2) books_only_fields(3,11) [OF left_books [of b l]] books_only_accessors(1) [OF left_books [of b l]]
    by (simp add: conc_ok_def b')
qed

lemma conc_step_ok: "conc_step B P s s' \<Longrightarrow> conc_ok B s \<Longrightarrow> conc_ok B s'"
proof (induction rule: conc_step.induct)
  case (refused t ts b op e st out b' e' L)
  show ?case by (rule prepare_keeps [OF refused(3,4)])
next
  case (prepared t ts b op e p b' e' L)
  have "conc_ok B (b', ts, L, e')" by (rule prepare_keeps [OF prepared(3,4)])
  moreover have "set (ts[t := Ready op p]) \<subseteq> insert (Ready op p) (set ts)" by (rule set_update_subset_insert)
  ultimately show ?case
    using prepare_ready [OF prepared(3)] by (auto simp: conc_ok_def)
next
  case (full t ts op p b e st b' e' L)
  then have "Ready op p \<in> set ts" by (metis nth_mem)
  from commit_keeps [OF full(3,4) this, of t] show ?case by simp
next
  case (committed t ts op p b e st l b' e' L)
  then have "Ready op p \<in> set ts" by (metis nth_mem)
  from commit_keeps [OF committed(3,4) this, of t] show ?case by simp
next
  case (released l L b e b' e' ts)
  show ?case by (rule release_keeps [OF released(2,3,1)])
qed

section \<open>Executing a schedule\<close>

datatype sched = S_Prepare nat u8 | S_Commit nat

fun conc_do :: "build \<Rightarrow> 'e platform \<Rightarrow> sched \<Rightarrow> 'e system \<Rightarrow> 'e system option" where
  "conc_do B P (S_Prepare t op) (b, ts, L, e) =
     (if t < length ts \<and> ts ! t = Idle
      then (case enter_prepare B P b op True e of
              (Inl r, b', e') \<Rightarrow> Some (b', ts, L, e')
            | (Inr p, b', e') \<Rightarrow> Some (b', ts[t := Ready op p], L, e'))
      else None)"
| "conc_do B P (S_Commit t) (b, ts, L, e) =
     (if t < length ts
      then (case ts ! t of Idle \<Rightarrow> None
            | Ready op p \<Rightarrow> (case enter_commit B P b op p e of
                (st, None, b', e') \<Rightarrow> Some (b', ts[t := Idle], L, e')
              | (st, Some l, b', e') \<Rightarrow> Some (b', ts[t := Idle], l # L, e')))
      else None)"

fun conc_run :: "build \<Rightarrow> 'e platform \<Rightarrow> sched list \<Rightarrow> 'e system \<Rightarrow> 'e system option" where
  "conc_run B P [] s = Some s"
| "conc_run B P (x # xs) s = (case conc_do B P x s of None \<Rightarrow> None | Some s' \<Rightarrow> conc_run B P xs s')"

lemma conc_do_step: "conc_do B P x s = Some s' \<Longrightarrow> conc_step B P s s'"
  by (induction B P x s rule: conc_do.induct)
     (auto split: if_splits prod.splits sum.splits option.splits task.splits intro: conc_step.intros)

lemma conc_run_steps: "conc_run B P xs s = Some s' \<Longrightarrow> (conc_step B P)\<^sup>*\<^sup>* s s'"
proof (induction xs arbitrary: s)
  case (Cons x xs)
  then show ?case
    by (auto split: option.splits dest!: conc_do_step intro: converse_rtranclp_into_rtranclp)
qed simp

section \<open>Properties\<close>

text \<open>
  C14. Lease slots are safe under every interleaving: from a well-formed instance, whatever the
  tasks do and however their enters and leaves interleave, every lease that is held stays
  valid and has a slot of its own, every active slot belongs to a lease, and there are never more
  leases than slots.
\<close>

theorem interleaving_keeps_slots:
  assumes "(conc_step B P)\<^sup>*\<^sup>* (b, ts, L, e) (b', ts', L', e')" and "conc_ok B (b, ts, L, e)"
  shows "slots_ok b' L' \<and> (\<forall>l\<in>set L'. lease_valid b' l) \<and> length L' \<le> unat (b_max_leases b')"
proof -
  have "conc_ok B (b', ts', L', e')"
    using assms by (induction rule: rtranclp_induct) (auto intro: conc_step_ok)
  then have "slots_ok b' L'" by (simp add: conc_ok_def)
  then show ?thesis using slots_length by (auto simp: slots_ok_def)
qed

definition race :: "sched list" where
  "race = [S_Prepare 0 1, S_Prepare 1 1, S_Commit 0, S_Commit 1]"

lemma race_runs:
  "map_option (\<lambda>(b, ts, L, e). (ts, length L, r_reserved (t_resources b ! 0), r_limit (t_resources b ! 0)))
     (conc_run fixed_build quiet_platform race (demo, [Idle, Idle], [], 7)) = Some ([Idle, Idle], 2, 120, 100)"
  by code_simp

lemma race_state:
  obtains b L e where "conc_run fixed_build quiet_platform race (demo, [Idle, Idle], [], 7) = Some (b, [Idle, Idle], L, e)"
    "length L = 2" "r_reserved (t_resources b ! 0) = 120" "r_limit (t_resources b ! 0) = 100"
  using race_runs by (auto simp: map_option_case split: option.splits)

theorem interleaving_keeps_slots_witness:
  "\<exists>b L e. conc_run fixed_build quiet_platform race (demo, [Idle, Idle], [], 7) = Some (b, [Idle, Idle], L, e) \<and>
     length L = 2 \<and> distinct (map l_id L)"
proof -
  obtain b L e where r: "conc_run fixed_build quiet_platform race (demo, [Idle, Idle], [], 7) = Some (b, [Idle, Idle], L, e)"
    "length L = 2" by (rule race_state)
  have "conc_ok fixed_build (demo, [Idle, Idle], [], 7 :: nat)"
    using inst_okD [OF demo_ok] ledger_slots [OF demo_ledger] by (simp add: conc_ok_def)
  with interleaving_keeps_slots [OF conc_run_steps [OF r(1)]] r show ?thesis by (auto simp: slots_ok_def)
qed


end
