(* ===== verification/LB_P2.thy ===== *)
theory LB_P2
  imports LB_Instance "HOL-Library.Signed_Division" "HOL-Library.Multiset"
begin

text \<open>
  The streaming quantile estimator of \<open>src/loxbudget_calibration.c\<close> (the P-square algorithm
  in Q16.16): five markers with positions \<open>marker_n\<close>, desired positions \<open>marker_n_prime\<close> and
  heights \<open>marker_q\<close>. The struct members that are \<open>int32_t\<close> are kept as 32-bit words and read
  with \<open>sint\<close>; the \<open>int64_t\<close> intermediates are mathematical integers, because signed
  overflow is undefined in C and does not occur on the values the invariant allows;
  \<open>sdiv\<close> is C's division.
\<close>

section \<open>Definitions\<close>

definition swap5 :: "nat \<Rightarrow> nat \<Rightarrow> u32 list \<Rightarrow> u32 list" where
  "swap5 i j a = (if a ! i > a ! j then a[i := a ! j, j := a ! i] else a)"

definition lb__sort5_u32 :: "u32 list \<Rightarrow> u32 list" where
  "lb__sort5_u32 a =
     swap5 1 2 (swap5 1 3 (swap5 0 2 (swap5 0 3 (swap5 1 4
       (swap5 2 3 (swap5 2 4 (swap5 3 4 (swap5 0 1 a))))))))"

definition lb__p2_init :: "u32 \<Rightarrow> p2_estimator" where
  "lb__p2_init p = zero_p2\<lparr>q_dn_q16 := [0, p div 2, p, (0x10000 + p) div 2, 0x10000]\<rparr>"

definition lb__p2_seed5 :: "u32 \<Rightarrow> p2_estimator \<Rightarrow> p2_estimator" where
  "lb__p2_seed5 p e =
     e\<lparr>q_marker_n := [1, 2, 3, 4, 5],
       q_marker_q_q16 := map (push_bit 16) (lb__sort5_u32 (q_initial_buffer e)),
       q_marker_n_prime_q16 :=
         [push_bit 16 1, push_bit 16 1 + 2 * p, push_bit 16 1 + 4 * p, push_bit 16 3 + 2 * p, push_bit 16 5],
       q_initialized := 1, q_count := 5\<rparr>"

definition lb__p2_linear :: "u32 \<Rightarrow> int \<Rightarrow> u32 \<Rightarrow> u32 \<Rightarrow> u32 \<Rightarrow> u32" where
  "lb__p2_linear qi d qid ni_d ni =
     word_of_int (uint qi + (d * (uint qid - uint qi)) sdiv (sint ni_d - sint ni))"

definition lb__p2_parabolic :: "p2_estimator \<Rightarrow> nat \<Rightarrow> int \<Rightarrow> u32" where
  "lb__p2_parabolic e i d =
     (let n_im1 = sint (q_marker_n e ! (i - 1)); n_i = sint (q_marker_n e ! i);
          n_ip1 = sint (q_marker_n e ! (i + 1));
          qi = uint (q_marker_q_q16 e ! i); qim1 = uint (q_marker_q_q16 e ! (i - 1));
          qip1 = uint (q_marker_q_q16 e ! (i + 1));
          term1 = ((n_i - n_im1 + d) * (qip1 - qi)) sdiv (n_ip1 - n_i);
          term2 = ((n_ip1 - n_i - d) * (qi - qim1)) sdiv (n_i - n_im1)
      in word_of_int (qi + (d * (term1 + term2)) sdiv (n_ip1 - n_im1)))"

text \<open>The cell of a new sample, with the heights after moving an end marker.\<close>

definition p2_cell :: "u32 list \<Rightarrow> u32 \<Rightarrow> u32 list \<times> nat" where
  "p2_cell q x =
     (if x < q ! 0 then (q[0 := x], 0)
      else if x \<ge> q ! 4 then (q[4 := x], 3)
      else (q, case first_index (\<lambda>i. q ! i \<le> x \<and> x < q ! (i + 1)) [0..<4] of Some k \<Rightarrow> k | None \<Rightarrow> 0))"

definition p2_shift :: "p2_estimator \<Rightarrow> u32 \<Rightarrow> p2_estimator" where
  "p2_shift e x =
     (case p2_cell (q_marker_q_q16 e) x of (q, k) \<Rightarrow>
       e\<lparr>q_marker_q_q16 := q,
         q_marker_n := map (\<lambda>i. if k < i then q_marker_n e ! i + 1 else q_marker_n e ! i) [0..<5],
         q_marker_n_prime_q16 := map (\<lambda>i. q_marker_n_prime_q16 e ! i + q_dn_q16 e ! i) [0..<5],
         q_count := q_count e + 1\<rparr>)"

text \<open>The direction in which an inner marker moves.\<close>

definition p2_direction :: "p2_estimator \<Rightarrow> nat \<Rightarrow> int" where
  "p2_direction e i =
     (let delta = q_marker_n_prime_q16 e ! i - push_bit 16 (q_marker_n e ! i); n = q_marker_n e in
      if sint delta \<ge> 65536 \<and> n ! (i + 1) - n ! i > 1 then 1
      else if sint delta \<le> - 65536 \<and> n ! i - n ! (i - 1) > 1 then - 1
      else 0)"

definition p2_adjust :: "nat \<Rightarrow> p2_estimator \<Rightarrow> p2_estimator" where
  "p2_adjust i e =
     (let d = p2_direction e i; n = q_marker_n e; q = q_marker_q_q16 e in
      if d = 0 then e
      else let q_new = lb__p2_parabolic e i d;
               j = nat (int i + d);
               h = (if q_new > q ! (i - 1) \<and> q_new < q ! (i + 1) then q_new
                    else lb__p2_linear (q ! i) d (q ! j) (n ! j) (n ! i))
           in e\<lparr>q_marker_q_q16 := q[i := h], q_marker_n := n[i := word_of_int (sint (n ! i) + d)]\<rparr>)"

definition lb__p2_add_sample :: "u32 \<Rightarrow> p2_estimator \<Rightarrow> u32 \<Rightarrow> p2_estimator" where
  "lb__p2_add_sample p e x =
     (if q_initialized e = 0
      then let e1 = e\<lparr>q_initial_buffer := (q_initial_buffer e)[unat (q_count e) := x], q_count := q_count e + 1\<rparr>
           in if q_count e1 = 5 then lb__p2_seed5 p e1 else e1
      else p2_adjust 3 (p2_adjust 2 (p2_adjust 1 (p2_shift e (push_bit 16 x)))))"

definition lb__p2_get_q_q16 :: "p2_estimator \<Rightarrow> u32" where
  "lb__p2_get_q_q16 e =
     (if q_initialized e = 0
      then if q_count e = 0 then 0
           else let s = take (unat (q_count e)) (q_initial_buffer e) @ replicate (5 - unat (q_count e)) 0
                in push_bit 16 (lb__sort5_u32 s ! unat (q_count e div 2))
      else q_marker_q_q16 e ! 2)"

section \<open>The sorting network\<close>

lemma length_swap5 [simp]: "length (swap5 i j a) = length a"
  by (simp add: swap5_def)

lemma swap5_mset: "i < length a \<Longrightarrow> j < length a \<Longrightarrow> mset (swap5 i j a) = mset a"
  by (simp add: swap5_def mset_swap)

lemma sort5_mset: "length a = 5 \<Longrightarrow> mset (lb__sort5_u32 a) = mset a"
  by (simp add: lb__sort5_u32_def swap5_mset)

lemma length_sort5 [simp]: "length (lb__sort5_u32 a) = length a"
  by (simp add: lb__sort5_u32_def)

lemma list5: "length a = 5 \<Longrightarrow> \<exists>a0 a1 a2 a3 a4. a = [a0, a1, a2, a3, a4]"
  by (auto simp: length_Suc_conv numeral_eq_Suc)

lemma swap5_simps:
  "swap5 0 1 [a, b, c, d, e] = [min a b, max a b, c, d, e]"
  "swap5 3 4 [a, b, c, d, e] = [a, b, c, min d e, max d e]"
  "swap5 2 4 [a, b, c, d, e] = [a, b, min c e, d, max c e]"
  "swap5 2 3 [a, b, c, d, e] = [a, b, min c d, max c d, e]"
  "swap5 1 4 [a, b, c, d, e] = [a, min b e, c, d, max b e]"
  "swap5 0 3 [a, b, c, d, e] = [min a d, b, c, max a d, e]"
  "swap5 0 2 [a, b, c, d, e] = [min a c, b, max a c, d, e]"
  "swap5 1 3 [a, b, c, d, e] = [a, min b d, c, max b d, e]"
  "swap5 1 2 [a, b, c, d, e] = [a, min b c, max b c, d, e]"
  by (auto simp: swap5_def min_def max_def numeral_eq_Suc)

text \<open>The network on an arbitrary linear order, with a name for the output of each comparator.\<close>

lemma network_sorts:
  fixes a b c d e :: "'a :: linorder"
  assumes p: "p = min a b" "q = max a b"
    and de: "d1 = min d e" "e1 = max d e"
    and ce: "c2 = min c e1" "e2 = max c e1"
    and cd: "c3 = min c2 d1" "d3 = max c2 d1"
    and qe: "q1 = min q e2" "e4 = max q e2"
    and pd: "p1 = min p d3" "d5 = max p d3"
    and pc: "p2 = min p1 c3" "c4 = max p1 c3"
    and qd: "q2 = min q1 d5" "d6 = max q1 d5"
    and qc: "q3 = min q2 c4" "c5 = max q2 c4"
  shows "p2 \<le> q3" "q3 \<le> c5" "c5 \<le> d6" "d6 \<le> e4"
proof -
  have low: "c3 \<le> d3" "d3 \<le> e2" "p \<le> q"
    by (auto simp: p de ce cd min_le_iff_disj le_max_iff_disj)
  then have "p2 \<le> q1" and "p2 \<le> d5" and "p2 \<le> c4"
    by (auto simp: qe pd pc min_le_iff_disj le_max_iff_disj)
  then show "p2 \<le> q3" by (simp add: qc qd)
  show "q3 \<le> c5" by (simp add: qc min_le_iff_disj le_max_iff_disj)
  have "c4 \<le> d5" using low by (auto simp: pc pd min_le_iff_disj le_max_iff_disj)
  then show "c5 \<le> d6" by (auto simp: qc qd min_le_iff_disj le_max_iff_disj)
  have "d5 \<le> e4" using low by (auto simp: pd qe le_max_iff_disj)
  then show "d6 \<le> e4" by (auto simp: qd qe min_le_iff_disj le_max_iff_disj)
qed

lemma sort5_two_zeros:
  assumes "i < 2"
  shows "lb__sort5_u32 [a, b, c, 0, 0] ! i = 0"
proof -
  have "i = 0 \<or> i = 1" using assms by linarith
  then show ?thesis unfolding lb__sort5_u32_def swap5_simps by (elim disjE) simp_all
qed

lemma sort5_sorted:
  assumes "length a = 5"
  shows "sorted (lb__sort5_u32 a)"
proof -
  obtain a0 a1 a2 a3 a4 where a: "a = [a0, a1, a2, a3, a4]" using list5 [OF assms] by blast
  show ?thesis
    unfolding a lb__sort5_u32_def swap5_simps sorted2 sorted1
    by (intro conjI; (rule network_sorts [OF refl refl refl refl refl refl refl refl refl refl refl refl
          refl refl refl refl refl refl] | simp))
qed

section \<open>The invariant of the markers\<close>

text \<open>
  After \<open>c\<close> samples, of which five seeded the estimator, the marker positions grow strictly from
  1 to \<open>c\<close> and the heights do not decrease. The positions stay below \<open>2 ^ 31\<close>, where the
  \<open>int32_t\<close> reading of the code is exact.
\<close>

definition markers_ok :: "nat \<Rightarrow> p2_estimator \<Rightarrow> bool" where
  "markers_ok c e =
     (length (q_marker_n e) = 5 \<and> length (q_marker_q_q16 e) = 5 \<and> c < 2 ^ 31 \<and>
      unat (q_marker_n e ! 0) = 1 \<and> unat (q_marker_n e ! 4) = c \<and>
      (\<forall>i<4. q_marker_n e ! i < q_marker_n e ! Suc i) \<and>
      (\<forall>i<4. q_marker_q_q16 e ! i \<le> q_marker_q_q16 e ! Suc i))"

lemma below4: "(\<forall>i<4. P i) \<longleftrightarrow> P 0 \<and> P 1 \<and> P 2 \<and> P (3::nat)"
  by (auto simp: numeral_eq_Suc less_Suc_eq)

lemma inner_marker: "i \<in> {1, 2, 3} \<longleftrightarrow> 0 < i \<and> i < (4::nat)"
  by auto

lemma markers_le_count:
  assumes ok: "markers_ok c e" and "i < 5"
  shows "unat (q_marker_n e ! i) \<le> c"
proof -
  let ?n = "\<lambda>i. unat (q_marker_n e ! i)"
  have step: "?n i < ?n (Suc i)" if "i < 4" for i
    using ok that by (simp add: markers_ok_def word_less_nat_alt)
  have "?n 4 = c" using ok by (simp add: markers_ok_def)
  moreover have "?n 0 < ?n 1" "?n 1 < ?n 2" "?n 2 < ?n 3" "?n 3 < ?n 4"
    using step [of 0] step [of 1] step [of 2] step [of 3] by (simp_all add: eval_nat_numeral)
  moreover have "i = 0 \<or> i = 1 \<or> i = 2 \<or> i = 3 \<or> i = 4" using \<open>i < 5\<close> by linarith
  ultimately show ?thesis by (elim disjE) simp_all
qed

lemma sint_small:
  assumes "unat (w :: u32) < 2 ^ 31"
  shows "sint w = int (unat w)"
proof -
  have "int (unat w) < int (2 ^ 31)" using assms by (simp only: of_nat_less_iff)
  then have "int (unat w) < 2 ^ 31" by simp
  moreover have "- (2 ^ 31) \<le> int (unat w)" by (rule order_trans [OF _ of_nat_0_le_iff]) simp
  moreover have "sint w = signed_take_bit 31 (int (unat w))" by (simp add: sint_uint)
  ultimately show ?thesis by (simp only: signed_take_bit_int_eq_self)
qed

lemma sdiv_within:
  assumes "0 \<le> a" and "0 < (b :: int)"
  shows "0 \<le> a sdiv b" and "a sdiv b \<le> a" and "a sdiv (- b) = - (a sdiv b)"
proof -
  have eq: "a sdiv b = a div b" using assms by (auto simp: signed_divide_int_def sgn_if)
  show "0 \<le> a sdiv b" using assms by (simp add: eq pos_imp_zdiv_nonneg_iff)
  show "a sdiv b \<le> a" using assms zdiv_mono2 [of a 1 b] by (simp add: eq)
  show "a sdiv (- b) = - (a sdiv b)" by simp
qed

text \<open>The linear fallback stays between the heights it interpolates.\<close>

lemma within_word:
  assumes "uint (a :: u32) \<le> z" and "z \<le> uint (b :: u32)"
  shows "a \<le> word_of_int z" and "word_of_int z \<le> b"
proof -
  have "uint (word_of_int z :: u32) = z"
    using assms order_trans [OF uint_ge_0 assms(1)] uint_lt2p [of b] by (intro word_of_int_inverse) simp_all
  then show "a \<le> word_of_int z" and "word_of_int z \<le> b" using assms by (simp_all add: word_le_def)
qed

lemma linear_up:
  assumes "qi \<le> qj" and "sint ni < sint nj"
  shows "qi \<le> lb__p2_linear qi 1 qj nj ni" and "lb__p2_linear qi 1 qj nj ni \<le> qj"
proof -
  let ?a = "uint qj - uint qi" and ?b = "sint nj - sint ni"
  have "0 \<le> ?a" "0 < ?b" using assms by (simp_all add: word_le_def)
  from sdiv_within [OF this] have "0 \<le> ?a sdiv ?b" "?a sdiv ?b \<le> ?a" by simp_all
  then have "uint qi \<le> uint qi + ?a sdiv ?b" and "uint qi + ?a sdiv ?b \<le> uint qj" by simp_all
  from within_word [OF this]
  show "qi \<le> lb__p2_linear qi 1 qj nj ni" and "lb__p2_linear qi 1 qj nj ni \<le> qj"
    by (simp_all only: lb__p2_linear_def mult_1)
qed

lemma linear_down:
  assumes "qj \<le> qi" and "sint nj < sint ni"
  shows "qj \<le> lb__p2_linear qi (- 1) qj nj ni" and "lb__p2_linear qi (- 1) qj nj ni \<le> qi"
proof -
  let ?a = "uint qi - uint qj" and ?b = "sint ni - sint nj"
  have "0 \<le> ?a" "0 < ?b" using assms by (simp_all add: word_le_def)
  note within = sdiv_within [OF this]
  have eq: "lb__p2_linear qi (- 1) qj nj ni = word_of_int (uint qi - ?a sdiv ?b)"
    using within(3) unfolding lb__p2_linear_def by simp
  have "uint qj \<le> uint qi - ?a sdiv ?b" and "uint qi - ?a sdiv ?b \<le> uint qi"
    using within(1,2) by simp_all
  from within_word [OF this]
  show "qj \<le> lb__p2_linear qi (- 1) qj nj ni" and "lb__p2_linear qi (- 1) qj nj ni \<le> qi"
    by (simp_all only: eq)
qed

lemma update_between:
  assumes "\<forall>j<4. R (l ! j) (l ! Suc j)" and "length l = 5" and "0 < i" "i < 4"
    and "R (l ! (i - 1)) m" and "R m (l ! (i + 1))"
  shows "\<forall>j<4. R (l[i := m] ! j) (l[i := m] ! Suc j)"
proof (intro allI impI)
  fix j :: nat assume j: "j < 4"
  show "R (l[i := m] ! j) (l[i := m] ! Suc j)"
    using assms j by (cases "j = i"; cases "Suc j = i") auto
qed

lemma markers_update:
  assumes ok: "markers_ok c e" and i: "0 < i" "i < 4"
    and "q_marker_n e ! (i - 1) < m" "m < q_marker_n e ! (i + 1)"
    and "q_marker_q_q16 e ! (i - 1) \<le> h" "h \<le> q_marker_q_q16 e ! (i + 1)"
  shows "markers_ok c (e\<lparr>q_marker_q_q16 := (q_marker_q_q16 e)[i := h],
                        q_marker_n := (q_marker_n e)[i := m]\<rparr>)"
proof -
  have "\<forall>j<4. (q_marker_n e)[i := m] ! j < (q_marker_n e)[i := m] ! Suc j"
    by (rule update_between) (use assms in \<open>simp_all add: markers_ok_def\<close>)
  moreover have "\<forall>j<4. (q_marker_q_q16 e)[i := h] ! j \<le> (q_marker_q_q16 e)[i := h] ! Suc j"
    by (rule update_between) (use assms in \<open>simp_all add: markers_ok_def\<close>)
  ultimately show ?thesis using ok i by (simp add: markers_ok_def)
qed

lemma markers_step:
  assumes "markers_ok c e" and "i < 4"
  shows "q_marker_n e ! i < q_marker_n e ! (i + 1)"
    and "q_marker_q_q16 e ! i \<le> q_marker_q_q16 e ! (i + 1)"
    and "sint (q_marker_n e ! i) < sint (q_marker_n e ! (i + 1))"
proof -
  show less: "q_marker_n e ! i < q_marker_n e ! (i + 1)"
    and "q_marker_q_q16 e ! i \<le> q_marker_q_q16 e ! (i + 1)"
    using assms by (simp_all add: markers_ok_def)
  have "unat (q_marker_n e ! i) < 2 ^ 31" "unat (q_marker_n e ! (i + 1)) < 2 ^ 31"
    using markers_le_count [OF assms(1), of i] markers_le_count [OF assms(1), of "i + 1"] assms
    by (simp_all add: markers_ok_def)
  then show "sint (q_marker_n e ! i) < sint (q_marker_n e ! (i + 1))"
    by (simp only: sint_small of_nat_less_iff unat_mono [OF less])
qed

lemma marker_up:
  assumes "(a :: u32) < b" and "1 < b - a" and "unat a < 2 ^ 31"
  shows "a < word_of_int (sint a + 1)" and "word_of_int (sint a + 1) < b"
proof -
  have "1 < unat b - unat a"
    using assms(1,2) by (simp add: word_less_nat_alt unat_sub word_le_nat_alt)
  moreover have "word_of_int (sint a + 1) = a + 1" by simp
  moreover have "unat (a + 1) = unat a + 1" using assms(3) by (simp add: unat_add_small)
  ultimately show "a < word_of_int (sint a + 1)" and "word_of_int (sint a + 1) < b"
    by (simp_all add: word_less_nat_alt)
qed

lemma marker_down:
  assumes "(b :: u32) < a" and "1 < a - b"
  shows "b < word_of_int (sint a + - 1)" and "word_of_int (sint a + - 1) < a"
proof -
  have "1 < unat a - unat b"
    using assms(1,2) by (simp add: word_less_nat_alt unat_sub word_le_nat_alt)
  moreover have "word_of_int (sint a + - 1) = a - 1" by simp
  moreover have "unat (a - 1) = unat a - 1" using assms(1) by (simp add: unat_sub word_le_nat_alt word_less_nat_alt)
  ultimately show "b < word_of_int (sint a + - 1)" and "word_of_int (sint a + - 1) < a"
    by (simp_all add: word_less_nat_alt)
qed

text \<open>Moving a marker keeps the invariant; the end markers and the counters stay as they are.\<close>

lemma adjust_frame:
  "q_count (p2_adjust i e) = q_count e" "q_initialized (p2_adjust i e) = q_initialized e"
  by (simp_all add: p2_adjust_def Let_def)

lemma adjust_ends:
  assumes "0 < i" and "i < 4"
  shows "q_marker_q_q16 (p2_adjust i e) ! 0 = q_marker_q_q16 e ! 0"
    and "q_marker_q_q16 (p2_adjust i e) ! 4 = q_marker_q_q16 e ! 4"
  using assms by (simp_all add: p2_adjust_def Let_def)

lemma direction_cases:
  "p2_direction e i = 0 \<or>
   p2_direction e i = 1 \<and> 1 < q_marker_n e ! (i + 1) - q_marker_n e ! i \<or>
   p2_direction e i = - 1 \<and> 1 < q_marker_n e ! i - q_marker_n e ! (i - 1)"
  by (simp add: p2_direction_def Let_def)

lemma adjust_markers:
  assumes ok: "markers_ok c e" and i: "0 < i" "i < 4"
  shows "markers_ok c (p2_adjust i e)"
proof -
  have pre: "i - 1 < 4" "i - 1 + 1 = i" using i by simp_all
  note below = markers_step [OF ok pre(1), unfolded pre(2)] and above = markers_step [OF ok i(2)]
  consider (stay) "p2_direction e i = 0"
    | (up) "p2_direction e i = 1" "1 < q_marker_n e ! (i + 1) - q_marker_n e ! i"
    | (down) "p2_direction e i = - 1" "1 < q_marker_n e ! i - q_marker_n e ! (i - 1)"
    using direction_cases [of e i] by blast
  then show ?thesis
  proof cases
    case stay
    then show ?thesis using ok by (simp add: p2_adjust_def)
  next
    case up
    have j: "nat (int i + 1) = i + 1" by simp
    have "unat (q_marker_n e ! i) < 2 ^ 31"
      using markers_le_count [OF ok, of i] ok i by (simp add: markers_ok_def)
    note m = marker_up [OF above(1) up(2) this]
    note move = markers_update [OF ok i less_trans [OF below(1) m(1)] m(2)]
    show ?thesis
      unfolding p2_adjust_def Let_def up(1) j
      using move below(2) linear_up [OF above(2,3)]
      by (auto simp: order_trans [OF below(2)] less_imp_le)
  next
    case down
    have j: "nat (int i + - 1) = i - 1" using i by simp
    note m = marker_down [OF below(1) down(2)]
    note move = markers_update [OF ok i m(1) less_trans [OF m(2) above(1)]]
    show ?thesis
      unfolding p2_adjust_def Let_def down(1) j
      using move above(2) linear_down [OF below(2,3)]
      by (auto simp: order_trans [OF _ above(2)] less_imp_le)
  qed
qed

text \<open>A new sample opens a cell: the end markers keep the extremes.\<close>

lemma cell_range: "p2_cell q x = (q', k) \<Longrightarrow> k < 4"
  by (auto simp: p2_cell_def split: if_splits option.splits dest!: first_index_Some)

lemma heights_chain:
  assumes "\<forall>i<4. q ! i \<le> (q ! Suc i :: u32)"
  shows "q ! 0 \<le> q ! 1" "q ! 1 \<le> q ! 2" "q ! 2 \<le> q ! 3" "q ! 3 \<le> q ! 4" "q ! 0 \<le> q ! 4"
proof -
  show *: "q ! 0 \<le> q ! 1" "q ! 1 \<le> q ! 2" "q ! 2 \<le> q ! 3" "q ! 3 \<le> q ! 4"
    using assms by (simp_all add: below4 eval_nat_numeral)
  then show "q ! 0 \<le> q ! 4" by (meson order_trans)
qed

lemma cell_heights:
  assumes len: "length q = 5" and mono: "\<forall>i<4. q ! i \<le> q ! Suc i" and cell: "p2_cell q x = (q', k)"
  shows "length q' = 5 \<and> (\<forall>i<4. q' ! i \<le> q' ! Suc i) \<and>
    q' ! 0 = min (q ! 0) x \<and> q' ! 4 = max (q ! 4) x"
proof -
  note chain = heights_chain [OF mono]
  consider (low) "x < q ! 0" "q' = q[0 := x]" | (high) "\<not> x < q ! 0" "q ! 4 \<le> x" "q' = q[4 := x]"
    | (inner) "\<not> x < q ! 0" "\<not> q ! 4 \<le> x" "q' = q"
    using cell by (auto simp: p2_cell_def split: if_splits)
  then show ?thesis
  proof cases
    case low
    then have le: "x \<le> q ! 0" "x \<le> q ! 4" "x \<le> q ! Suc 0" using chain(1,5) by simp_all
    have "q' ! i \<le> q' ! Suc i" if "i < 4" for i
      using that mono le len by (cases "i = 0") (simp_all add: low(2))
    then show ?thesis using len le by (simp add: low(2) min.absorb2 max.absorb1)
  next
    case high
    then have le: "q ! 0 \<le> x" "q ! 3 \<le> x" using chain(4) by simp_all
    have "q' ! i \<le> q' ! Suc i" if "i < 4" for i
      using that mono le len by (cases "i = 3") (simp_all add: high(3))
    then show ?thesis using len le high(2) by (simp add: high(3) min.absorb1 max.absorb2)
  next
    case inner
    then have "q ! 0 \<le> x" "x \<le> q ! 4" by simp_all
    then show ?thesis using len mono by (simp add: inner(3) min.absorb1 max.absorb1)
  qed
qed

lemma shift_markers:
  assumes ok: "markers_ok c e" and c: "Suc c < 2 ^ 31"
  shows "markers_ok (Suc c) (p2_shift e x)"
    and "q_marker_q_q16 (p2_shift e x) ! 0 = min (q_marker_q_q16 e ! 0) x"
    and "q_marker_q_q16 (p2_shift e x) ! 4 = max (q_marker_q_q16 e ! 4) x"
    and "q_count (p2_shift e x) = q_count e + 1"
    and "q_initialized (p2_shift e x) = q_initialized e"
proof -
  obtain q k where cell: "p2_cell (q_marker_q_q16 e) x = (q, k)" by fastforce
  have len: "length (q_marker_q_q16 e) = 5"
    and mono: "\<forall>i<4. q_marker_q_q16 e ! i \<le> q_marker_q_q16 e ! Suc i"
    using ok by (simp_all add: markers_ok_def)
  note heights = cell_heights [OF len mono cell]
  show "q_marker_q_q16 (p2_shift e x) ! 0 = min (q_marker_q_q16 e ! 0) x"
    and "q_marker_q_q16 (p2_shift e x) ! 4 = max (q_marker_q_q16 e ! 4) x"
    and "q_count (p2_shift e x) = q_count e + 1"
    and "q_initialized (p2_shift e x) = q_initialized e"
    using heights by (simp_all add: p2_shift_def cell)
  have up: "unat (q_marker_n e ! i + 1) = Suc (unat (q_marker_n e ! i))" if "i < 5" for i
    using markers_le_count [OF ok that] c by (simp add: unat_add_small)
  have less: "unat (q_marker_n e ! i) < unat (q_marker_n e ! Suc i)" if "i < 4" for i
    using ok that by (simp add: markers_ok_def word_less_nat_alt)
  have at: "q_marker_n (p2_shift e x) ! i = (if k < i then q_marker_n e ! i + 1 else q_marker_n e ! i)"
    if "i < 5" for i
    using that by (simp add: p2_shift_def cell)
  have "q_marker_n (p2_shift e x) ! i < q_marker_n (p2_shift e x) ! Suc i" if "i < 4" for i
    using that less [OF that] by (simp add: at word_less_nat_alt up less_SucI)
  moreover have "unat (q_marker_n (p2_shift e x) ! 0) = 1" "unat (q_marker_n (p2_shift e x) ! 4) = Suc c"
    using ok cell_range [OF cell] up [of 4] by (simp_all add: at markers_ok_def)
  moreover have "length (q_marker_n (p2_shift e x)) = 5" "q_marker_q_q16 (p2_shift e x) = q"
    by (simp_all add: p2_shift_def cell)
  ultimately show "markers_ok (Suc c) (p2_shift e x)"
    using c heights by (simp add: markers_ok_def)
qed

section \<open>Feeding samples\<close>

definition p2_feed :: "u32 \<Rightarrow> u32 list \<Rightarrow> p2_estimator" where
  "p2_feed p xs = foldl (lb__p2_add_sample p) (lb__p2_init p) xs"

lemma feed_snoc: "p2_feed p (xs @ [x]) = lb__p2_add_sample p (p2_feed p xs) x"
  by (simp add: p2_feed_def)

lemma feed_buffer:
  "length xs < 5 \<Longrightarrow> q_initialized (p2_feed p xs) = 0 \<and> q_count (p2_feed p xs) = of_nat (length xs) \<and>
     q_initial_buffer (p2_feed p xs) = xs @ replicate (5 - length xs) 0"
proof (induction xs rule: rev_induct)
  case Nil
  then show ?case by (simp add: p2_feed_def lb__p2_init_def zero_p2_def eval_nat_numeral)
next
  case (snoc x xs)
  let ?n = "length xs"
  have "?n < 4" using snoc.prems by simp
  then have n: "?n = 0 \<or> ?n = 1 \<or> ?n = 2 \<or> ?n = 3" by linarith
  have IH: "q_initialized (p2_feed p xs) = 0" "q_count (p2_feed p xs) = of_nat ?n"
    "q_initial_buffer (p2_feed p xs) = xs @ replicate (5 - ?n) 0"
    using snoc by simp_all
  have count: "unat (of_nat ?n :: u32) = ?n" and not5: "(of_nat ?n :: u32) + 1 \<noteq> 5"
    using n by auto
  have "5 - ?n = Suc (4 - ?n)" using n by auto
  then have "(xs @ replicate (5 - ?n) 0)[?n := x] = xs @ [x] @ replicate (4 - ?n) 0"
    by (simp add: list_update_append)
  then show ?case
    unfolding feed_snoc lb__p2_add_sample_def using not5 by (simp add: IH count Let_def)
qed

lemma unat_push16_small:
  assumes "(a :: u32) < 0x10000"
  shows "unat (push_bit 16 a) = unat a * 65536"
proof -
  have "unat a < 65536" using assms by (simp add: word_less_nat_alt)
  moreover have "push_bit 16 a = a * 65536" by (simp add: push_bit_eq_mult)
  ultimately show ?thesis by (simp add: unat_word_ariths)
qed

lemma push16_mono:
  assumes "a \<le> (b :: u32)" and "b < 0x10000"
  shows "push_bit 16 a \<le> push_bit 16 b"
proof -
  have "a < 0x10000" using assms by (rule le_less_trans)
  then show ?thesis using assms by (simp add: word_le_nat_alt unat_push16_small)
qed

lemma drop_push16: "(a :: u32) < 0x10000 \<Longrightarrow> drop_bit 16 (push_bit 16 a) = a"
  by (rule word_unat_eq_iff [THEN iffD2]) (simp add: unat_drop_bit_eq drop_bit_eq_div unat_div unat_push16_small)

lemma push16_min_max:
  assumes "a < 0x10000" "(b :: u32) < 0x10000"
  shows "min (push_bit 16 a) (push_bit 16 b) = push_bit 16 (min a b)"
    and "max (push_bit 16 a) (push_bit 16 b) = push_bit 16 (max a b)"
proof -
  show "min (push_bit 16 a) (push_bit 16 b) = push_bit 16 (min a b)"
    and "max (push_bit 16 a) (push_bit 16 b) = push_bit 16 (max a b)"
    using push16_mono [of a b] push16_mono [of b a] assms
    by (cases "a \<le> b"; simp add: min.absorb1 min.absorb2 max.absorb1 max.absorb2)+
qed

lemma sorted5_ends:
  assumes sorted: "sorted s" and len: "length s = 5"
  shows "s ! 0 = Min (set s)" and "s ! 4 = Max (set s)"
proof -
  have "s \<noteq> []" using len by auto
  moreover have "s ! 0 \<le> x \<and> x \<le> s ! 4" if "x \<in> set s" for x
    using that sorted len by (auto simp: in_set_conv_nth sorted_iff_nth_mono)
  ultimately show "s ! 0 = Min (set s)" and "s ! 4 = Max (set s)"
    using len by (auto intro!: Min_eqI [symmetric] Max_eqI [symmetric])
qed

lemma markers_count:
  assumes ok: "markers_ok c e"
  shows "5 \<le> c"
proof -
  let ?n = "\<lambda>i. unat (q_marker_n e ! i)"
  have step: "?n i < ?n (Suc i)" if "i < 4" for i
    using ok that by (simp add: markers_ok_def word_less_nat_alt)
  have "?n 0 = 1" and "?n 4 = c" using ok by (simp_all add: markers_ok_def)
  moreover have "?n 0 < ?n 1" "?n 1 < ?n 2" "?n 2 < ?n 3" "?n 3 < ?n 4"
    using step [of 0] step [of 1] step [of 2] step [of 3] by (simp_all add: eval_nat_numeral)
  ultimately show ?thesis by linarith
qed

text \<open>The state after at least five samples.\<close>

definition p2_tracks :: "u32 list \<Rightarrow> p2_estimator \<Rightarrow> bool" where
  "p2_tracks xs e =
     (markers_ok (length xs) e \<and> q_initialized e \<noteq> 0 \<and> q_count e = of_nat (length xs) \<and>
      q_marker_q_q16 e ! 0 = push_bit 16 (Min (set xs)) \<and>
      q_marker_q_q16 e ! 4 = push_bit 16 (Max (set xs)))"

lemma seed_tracks:
  assumes len: "length xs = 5" and small: "\<forall>x\<in>set xs. x < 0x10000" and buf: "q_initial_buffer e = xs"
  shows "p2_tracks xs (lb__p2_seed5 p e)"
proof -
  let ?s = "lb__sort5_u32 xs"
  have sorted: "sorted ?s" using sort5_sorted [OF len] .
  have set: "set ?s = set xs" using sort5_mset [OF len] by (metis set_mset_mset)
  have "push_bit 16 (?s ! i) \<le> push_bit 16 (?s ! Suc i)" if "i < 4" for i
  proof (rule push16_mono)
    show "?s ! i \<le> ?s ! Suc i" using sorted len that by (simp add: sorted_iff_nth_mono)
    have "?s ! Suc i \<in> set ?s" using len that by simp
    then show "?s ! Suc i < 0x10000" using set small by simp
  qed
  moreover have "\<forall>i<4. [1, 2, 3, 4, 5 :: u32] ! i < [1, 2, 3, 4, 5] ! Suc i"
    by (simp add: below4)
  ultimately show ?thesis
    using sorted5_ends [OF sorted] len
    by (simp add: p2_tracks_def markers_ok_def lb__p2_seed5_def buf set)
qed

lemma adjust_all:
  assumes "markers_ok c e"
  shows "markers_ok c (p2_adjust 3 (p2_adjust 2 (p2_adjust 1 e)))"
  by (intro adjust_markers assms) simp_all

lemma tracks_step:
  assumes track: "p2_tracks xs e" and small: "\<forall>x\<in>set xs. x < 0x10000" "x < 0x10000"
    and len: "length (xs @ [x]) < 2 ^ 31"
  shows "p2_tracks (xs @ [x]) (lb__p2_add_sample p e x)"
proof -
  have ok: "markers_ok (length xs) e" and init: "q_initialized e \<noteq> 0"
    using track by (simp_all add: p2_tracks_def)
  have "xs \<noteq> []" using markers_count [OF ok] by auto
  then have ne: "set xs \<noteq> {}" by simp
  have mem: "Min (set xs) < 0x10000" "Max (set xs) < 0x10000"
    using small(1) ne by (simp_all add: Min_less_iff)
  have "Suc (length xs) < 2 ^ 31" using len by simp
  note shift = shift_markers [OF ok this, of "push_bit 16 x"]
  have add: "lb__p2_add_sample p e x = p2_adjust 3 (p2_adjust 2 (p2_adjust 1 (p2_shift e (push_bit 16 x))))"
    using init by (simp add: lb__p2_add_sample_def)
  have ends: "q_marker_q_q16 e ! 0 = push_bit 16 (Min (set xs))"
    "q_marker_q_q16 e ! 4 = push_bit 16 (Max (set xs))" "q_count e = of_nat (length xs)"
    using track by (simp_all add: p2_tracks_def)
  have extremes: "Min (set (xs @ [x])) = min (Min (set xs)) x" "Max (set (xs @ [x])) = max (Max (set xs)) x"
    using ne by (simp_all add: min.commute max.commute)
  show ?thesis
    unfolding p2_tracks_def add extremes
    using adjust_all [OF shift(1)] init
    by (simp add: adjust_frame adjust_ends shift ends push16_min_max mem small(2))
qed

lemma feed_five:
  assumes "length ys = 5"
  shows "\<exists>e. p2_feed p ys = lb__p2_seed5 p e \<and> q_initial_buffer e = ys"
proof -
  obtain xs x where ys: "ys = xs @ [x]" and len: "length xs = 4"
    using assms by (cases ys rule: rev_cases) auto
  have buf: "q_initialized (p2_feed p xs) = 0" "q_count (p2_feed p xs) = 4"
    "q_initial_buffer (p2_feed p xs) = xs @ [0]"
    using feed_buffer [of xs p] len by (simp_all add: eval_nat_numeral)
  have "p2_feed p ys = lb__p2_seed5 p ((p2_feed p xs)\<lparr>q_initial_buffer := ys, q_count := 5\<rparr>)"
    unfolding ys feed_snoc lb__p2_add_sample_def using len
    by (simp add: buf Let_def list_update_append)
  then show ?thesis by fastforce
qed

lemma feed_tracks:
  "5 \<le> length xs \<Longrightarrow> length xs < 2 ^ 31 \<Longrightarrow> \<forall>x\<in>set xs. x < 0x10000 \<Longrightarrow> p2_tracks xs (p2_feed p xs)"
proof (induction xs rule: rev_induct)
  case Nil
  then show ?case by simp
next
  case (snoc x xs)
  show ?case
  proof (cases "length xs = 4")
    case True
    then obtain e where "p2_feed p (xs @ [x]) = lb__p2_seed5 p e" "q_initial_buffer e = xs @ [x]"
      using feed_five [of "xs @ [x]" p] by auto
    then show ?thesis using seed_tracks [of "xs @ [x]" e p] True snoc.prems by simp
  next
    case False
    then have "p2_tracks xs (p2_feed p xs)" using snoc by simp
    then show ?thesis unfolding feed_snoc by (rule tracks_step) (use snoc.prems in simp_all)
  qed
qed

lemma tracks_estimate:
  assumes track: "p2_tracks xs e" and small: "\<forall>x\<in>set xs. x < 0x10000"
  shows "Min (set xs) \<le> drop_bit 16 (lb__p2_get_q_q16 e)" and "drop_bit 16 (lb__p2_get_q_q16 e) \<le> Max (set xs)"
proof -
  let ?q = "q_marker_q_q16 e"
  have ok: "markers_ok (length xs) e" using track by (simp add: p2_tracks_def)
  then have mono: "\<forall>i<4. ?q ! i \<le> ?q ! Suc i" by (simp add: markers_ok_def)
  note chain = heights_chain [OF mono]
  have "xs \<noteq> []" using markers_count [OF ok] by auto
  then have mem: "Min (set xs) < 0x10000" "Max (set xs) < 0x10000"
    using small by (simp_all add: Min_less_iff)
  have get: "lb__p2_get_q_q16 e = ?q ! 2"
    using track by (simp add: p2_tracks_def lb__p2_get_q_q16_def)
  have "unat (push_bit 16 (Min (set xs))) \<le> unat (?q ! 2)"
    using order_trans [OF chain(1,2)] track by (simp add: p2_tracks_def word_le_nat_alt)
  moreover have "unat (?q ! 2) \<le> unat (push_bit 16 (Max (set xs)))"
    using order_trans [OF chain(3,4)] track by (simp add: p2_tracks_def word_le_nat_alt)
  moreover have "unat (drop_bit 16 (?q ! 2)) = unat (?q ! 2) div 65536"
    by (simp add: drop_bit_eq_div unat_div)
  ultimately show "Min (set xs) \<le> drop_bit 16 (lb__p2_get_q_q16 e)"
    and "drop_bit 16 (lb__p2_get_q_q16 e) \<le> Max (set xs)"
    unfolding word_le_nat_alt get using mem by (simp_all add: unat_push16_small)
qed

section \<open>Weaknesses of the estimate\<close>

text \<open>
  The fallback for fewer than five samples sorts the buffer with its zero padding, so it is not
  the median of the samples: with one to three of them the estimate is 0 whatever they are.
\<close>

lemma feed_fallback:
  assumes "length xs < 4"
  shows "lb__p2_get_q_q16 (p2_feed p xs) = 0"
proof -
  let ?e = "p2_feed p xs"
  have n: "length xs = 0 \<or> length xs = 1 \<or> length xs = 2 \<or> length xs = 3" using assms by linarith
  have e: "q_initialized ?e = 0" "q_count ?e = of_nat (length xs)"
    "q_initial_buffer ?e = xs @ replicate (5 - length xs) 0"
    using feed_buffer [of xs p] assms by simp_all
  have "\<exists>a b c. xs @ replicate (5 - length xs) 0 = [a, b, c, 0, 0]"
    using n by (elim disjE) (auto simp: length_Suc_conv eval_nat_numeral)
  then have "lb__sort5_u32 (xs @ replicate (5 - length xs) 0) ! i = 0" if "i < 2" for i
    using sort5_two_zeros [OF that] by auto
  moreover have "length xs div 2 < 2" using n by auto
  moreover have "unat (of_nat (length xs) :: u32) = length xs"
    and "unat (of_nat (length xs) div 2 :: u32) = length xs div 2"
    using n by auto
  ultimately show ?thesis using e by (simp add: lb__p2_get_q_q16_def push_bit_eq_mult)
qed

text \<open>
  A sample of 65536 or more loses its upper bits to \<open>x << 16\<close>: five samples of 70000
  microseconds give an estimate of 4464.
\<close>

lemma p2_truncates_long_durations:
  "drop_bit 16 (lb__p2_get_q_q16 (p2_feed p (replicate 5 70000))) = 4464"
proof -
  have "lb__sort5_u32 (replicate 5 70000) ! 2 = 70000" by code_simp
  moreover obtain e where "p2_feed p (replicate 5 70000) = lb__p2_seed5 p e" "q_initial_buffer e = replicate 5 70000"
    using feed_five [of "replicate 5 70000" p] by auto
  ultimately show ?thesis
    by (simp add: lb__p2_get_q_q16_def lb__p2_seed5_def)
qed


section \<open>Properties\<close>

text \<open>
  C28. The network \<open>lb__sort5_u32_\<close> is a sort: on five elements its nine comparators give what
  the library's sorting function gives.
\<close>

theorem sort5_correct:
  assumes "length a = 5"
  shows "lb__sort5_u32 a = sort a"
  by (rule properties_for_sort [symmetric]) (simp_all add: assms sort5_sorted sort5_mset)

theorem sort5_correct_witness:
  "lb__sort5_u32 [5, 1, 4, 1, 3] = [1, 1, 3, 4, 5] \<and> lb__sort5_u32 [5, 1, 4, 1, 3] = sort [5, 1, 4, 1, 3]"
proof
  show "lb__sort5_u32 [5, 1, 4, 1, 3] = [1, 1, 3, 4, 5]" by code_simp
  show "lb__sort5_u32 [5, 1, 4, 1, 3] = sort [5, 1, 4, 1, 3]"
    by (rule sort5_correct) simp
qed

text \<open>
  C26. After at least five samples below 65536 the quantile estimate lies between the smallest and the
  largest sample, the end markers hold these two values exactly, and the marker positions grow
  strictly from 1 to the number of samples, so that no step of \<open>lb__p2_parabolic_\<close> or
  \<open>lb__p2_linear_\<close> divides by zero.
\<close>

theorem p2_estimate_within_samples:
  assumes "e = foldl (lb__p2_add_sample p) (lb__p2_init p) xs"
    and "5 \<le> length xs" and "length xs < 2 ^ 31" and "\<forall>x\<in>set xs. x < 0x10000"
  shows "Min (set xs) \<le> drop_bit 16 (lb__p2_get_q_q16 e) \<and> drop_bit 16 (lb__p2_get_q_q16 e) \<le> Max (set xs) \<and>
    drop_bit 16 (q_marker_q_q16 e ! 0) = Min (set xs) \<and> drop_bit 16 (q_marker_q_q16 e ! 4) = Max (set xs) \<and>
    q_count e = of_nat (length xs) \<and> unat (q_marker_n e ! 0) = 1 \<and> unat (q_marker_n e ! 4) = length xs \<and>
    (\<forall>i<4. sint (q_marker_n e ! i) < sint (q_marker_n e ! (i + 1)))"
proof -
  have track: "p2_tracks xs e" using feed_tracks [OF assms(2,3,4)] assms(1) by (simp add: p2_feed_def)
  then have ok: "markers_ok (length xs) e" by (simp add: p2_tracks_def)
  have "xs \<noteq> []" using assms(2) by auto
  then have "Min (set xs) < 0x10000" "Max (set xs) < 0x10000"
    using assms(4) by (simp_all add: Min_less_iff)
  then have "drop_bit 16 (q_marker_q_q16 e ! 0) = Min (set xs)"
    "drop_bit 16 (q_marker_q_q16 e ! 4) = Max (set xs)"
    using track by (simp_all add: p2_tracks_def drop_push16)
  then show ?thesis
    using tracks_estimate [OF track assms(4)] track ok markers_step(3) [OF ok]
    by (simp add: p2_tracks_def markers_ok_def)
qed

theorem p2_estimate_within_samples_witness:
  "drop_bit 16 (lb__p2_get_q_q16 (foldl (lb__p2_add_sample 0x8000) (lb__p2_init 0x8000)
     [20, 10, 50, 30, 40, 60, 15, 35])) \<in> {30, 31, 32} \<and>
   10 \<le> drop_bit 16 (lb__p2_get_q_q16 (foldl (lb__p2_add_sample 0x8000) (lb__p2_init 0x8000)
     [20, 10, 50, 30, 40, 60, 15, 35]))"
proof
  let ?xs = "[20, 10, 50, 30, 40, 60, 15, 35 :: u32]"
  show "drop_bit 16 (lb__p2_get_q_q16 (foldl (lb__p2_add_sample 0x8000) (lb__p2_init 0x8000) ?xs)) \<in> {30, 31, 32}"
    by code_simp
  have "Min (set ?xs) = 10" by simp
  then show "10 \<le> drop_bit 16 (lb__p2_get_q_q16 (foldl (lb__p2_add_sample 0x8000) (lb__p2_init 0x8000) ?xs))"
    using p2_estimate_within_samples [where xs = "[20, 10, 50, 30, 40, 60, 15, 35]" and p = "0x8000", OF refl] by simp
qed

end
