(* ===== verification/LB_Calibration.thy ===== *)
theory LB_Calibration
  imports LB_P2 LB_Config
begin

text \<open>
  Calibration sessions (\<open>src/loxbudget_calibration.c\<close>): per operation a state with five quantile
  estimators, the maxima and an outlier counter. \<open>budget\<close>, \<open>sample\<close> and \<open>out\<close> may be NULL
  (\<open>None\<close>). The first part translates the functions; the second describes a whole session
  \<open>begin; sample*; end\<close>.
\<close>

section \<open>Definitions\<close>

definition lb__validate_budget :: "loxbudget option \<Rightarrow> loxbudget_status" where
  "lb__validate_budget bp =
     (case bp of None \<Rightarrow> LOXBUDGET_ERR_INVALID_ARG
      | Some b \<Rightarrow> if b_magic b = 0 then LOXBUDGET_ERR_NOT_INITIALIZED else LOXBUDGET_OK)"

definition lb__op_registered :: "loxbudget \<Rightarrow> u8 \<Rightarrow> bool" where
  "lb__op_registered b op = (if op \<ge> b_max_ops b then False else t_op_cfg b ! unat op \<noteq> 0)"

definition lb__calib_compute_suggested :: "calib_state \<Rightarrow> loxbudget_suggested_profile" where
  "lb__calib_compute_suggested s =
     (let q = (\<lambda>e. drop_bit 16 (lb__p2_get_q_q16 e));
          p99 = ucast (q (c_ram_p99 s)) :: u16;
          p99_plus = ucast (ucast p99 + 32 :: u32) :: u16;
          max_plus5pct = ucast ((ucast (c_ram_max s) * 105 :: u32) div 100) :: u16;
          d99 = q (c_dur_p99 s);
          d99_plus = d99 + 500;
          max_plus10pct = (c_dur_max_us s * 110) div 100
      in \<lparr>g_ram_p50 = ucast (q (c_ram_p50 s)), g_ram_p95 = ucast (q (c_ram_p95 s)), g_ram_p99 = p99,
          g_ram_max = c_ram_max s, g_duration_p95_us = q (c_dur_p95 s), g_duration_p99_us = d99,
          g_duration_max_us = c_dur_max_us s,
          g_suggested_ram_limit = (if p99_plus > max_plus5pct then p99_plus else max_plus5pct),
          g_suggested_time_limit_us = (if d99_plus > max_plus10pct then d99_plus else max_plus10pct),
          g_outlier_count = c_outlier_count s, g_sample_count = c_sample_count s\<rparr>)"

text \<open>The state \<open>loxbudget_calibrate_begin\<close> writes into the slot of the operation.\<close>

definition calib_start :: "u8 \<Rightarrow> u32 \<Rightarrow> calib_state" where
  "calib_start op target_samples =
     zero_calib\<lparr>c_active := 1, c_op_id := op, c_target_samples := target_samples,
       c_ram_p50 := lb__p2_init 0x8000, c_ram_p95 := lb__p2_init 0xF333, c_ram_p99 := lb__p2_init 0xFD70,
       c_dur_p95 := lb__p2_init 0xF333, c_dur_p99 := lb__p2_init 0xFD70\<rparr>"

definition loxbudget_calibrate_begin ::
    "build \<Rightarrow> loxbudget option \<Rightarrow> u8 \<Rightarrow> u32 \<Rightarrow> loxbudget_status \<times> loxbudget option" where
  "loxbudget_calibrate_begin B bp op target_samples =
     (if \<not> calib_on B then (LOXBUDGET_ERR_FEATURE_DISABLED, bp)
      else let st = lb__validate_budget bp in
        if st \<noteq> LOXBUDGET_OK then (st, bp)
        else let b = the bp in
          if target_samples = 0 then (LOXBUDGET_ERR_INVALID_ARG, bp)
          else if b_calib_off b = 0 then (LOXBUDGET_ERR_NO_SPACE, bp)
          else if op \<ge> b_max_ops b then (LOXBUDGET_ERR_INVALID_ARG, bp)
          else if \<not> lb__op_registered b op then (LOXBUDGET_ERR_NOT_FOUND, bp)
          else if c_active (t_calib b ! unat op) \<noteq> 0 then (LOXBUDGET_ERR_BAD_STATE, bp)
          else (LOXBUDGET_OK, Some (b\<lparr>t_calib := (t_calib b)[unat op := calib_start op target_samples]\<rparr>)))"

text \<open>The outlier test, on the state with the counters and the RAM estimators updated.\<close>

definition calib_outlier :: "calib_state \<Rightarrow> u16 \<Rightarrow> bool" where
  "calib_outlier s ram =
     (let p99 = lb__p2_get_q_q16 (c_ram_p99 s); x_q16 = push_bit 16 (ucast ram) :: u64 in
      if x_q16 > ucast p99 + ucast (drop_bit 1 p99) then True
      else if c_sample_count s > 500 \<and> c_ram_max_at_500 s \<noteq> 0
      then ucast ram > (ucast (c_ram_max_at_500 s) * 12 :: u32) div 10
      else False)"

definition calib_add :: "calib_state \<Rightarrow> loxbudget_sample \<Rightarrow> calib_state" where
  "calib_add s x =
     (let ram = s_ram_used x; dur = s_duration_us x;
          s1 = s\<lparr>c_sample_count := c_sample_count s + 1,
            c_ram_max := (if ram > c_ram_max s then ram else c_ram_max s),
            c_dur_max_us := (if dur > c_dur_max_us s then dur else c_dur_max_us s)\<rparr>;
          s2 = (if c_sample_count s1 = 500 then s1\<lparr>c_ram_max_at_500 := c_ram_max s1\<rparr> else s1);
          s3 = s2\<lparr>c_ram_p50 := lb__p2_add_sample 0x8000 (c_ram_p50 s2) (ucast ram),
            c_ram_p95 := lb__p2_add_sample 0xF333 (c_ram_p95 s2) (ucast ram),
            c_ram_p99 := lb__p2_add_sample 0xFD70 (c_ram_p99 s2) (ucast ram)\<rparr>;
          s4 = (if calib_outlier s3 ram then s3\<lparr>c_outlier_count := c_outlier_count s3 + 1\<rparr> else s3)
      in s4\<lparr>c_dur_p95 := lb__p2_add_sample 0xF333 (c_dur_p95 s4) dur,
            c_dur_p99 := lb__p2_add_sample 0xFD70 (c_dur_p99 s4) dur\<rparr>)"

text \<open>The checks \<open>loxbudget_calibrate_sample\<close> and \<open>loxbudget_calibrate_end\<close> share.\<close>

definition calib_guard :: "loxbudget \<Rightarrow> u8 \<Rightarrow> loxbudget_status" where
  "calib_guard b op =
     (if b_calib_off b = 0 then LOXBUDGET_ERR_NO_SPACE
      else if op \<ge> b_max_ops b then LOXBUDGET_ERR_INVALID_ARG
      else if \<not> lb__op_registered b op then LOXBUDGET_ERR_NOT_FOUND
      else let s = t_calib b ! unat op in
        if c_active s = 0 \<or> c_op_id s \<noteq> op then LOXBUDGET_ERR_BAD_STATE else LOXBUDGET_OK)"

definition loxbudget_calibrate_sample ::
    "build \<Rightarrow> loxbudget option \<Rightarrow> u8 \<Rightarrow> loxbudget_sample option \<Rightarrow> loxbudget_status \<times> loxbudget option" where
  "loxbudget_calibrate_sample B bp op sample =
     (if \<not> calib_on B then (LOXBUDGET_ERR_FEATURE_DISABLED, bp)
      else let st = lb__validate_budget bp in
        if st \<noteq> LOXBUDGET_OK \<or> sample = None
        then (if sample = None then LOXBUDGET_ERR_INVALID_ARG else st, bp)
        else let b = the bp; st = calib_guard b op in
          if st \<noteq> LOXBUDGET_OK then (st, bp)
          else (LOXBUDGET_OK,
                Some (b\<lparr>t_calib := (t_calib b)[unat op := calib_add (t_calib b ! unat op) (the sample)]\<rparr>)))"

definition loxbudget_calibrate_end ::
    "build \<Rightarrow> loxbudget option \<Rightarrow> u8 \<Rightarrow> loxbudget_suggested_profile option \<Rightarrow>
     loxbudget_status \<times> loxbudget option \<times> loxbudget_suggested_profile option" where
  "loxbudget_calibrate_end B bp op out =
     (if \<not> calib_on B then (LOXBUDGET_ERR_FEATURE_DISABLED, bp, out)
      else let st = lb__validate_budget bp in
        if st \<noteq> LOXBUDGET_OK \<or> out = None
        then (if out = None then LOXBUDGET_ERR_INVALID_ARG else st, bp, out)
        else let b = the bp; st = calib_guard b op in
          if st \<noteq> LOXBUDGET_OK then (st, bp, out)
          else let s = t_calib b ! unat op in
            (LOXBUDGET_OK, Some (b\<lparr>t_calib := (t_calib b)[unat op := s\<lparr>c_active := 0\<rparr>]\<rparr>),
             Some (lb__calib_compute_suggested s)))"

section \<open>A session on one slot\<close>

text \<open>The estimators of a slot after a series of samples, and the running maxima.\<close>

lemma calib_add_simps [simp]:
  "c_active (calib_add s x) = c_active s" "c_op_id (calib_add s x) = c_op_id s"
  "c_target_samples (calib_add s x) = c_target_samples s"
  "c_sample_count (calib_add s x) = c_sample_count s + 1"
  "c_ram_max (calib_add s x) = max (c_ram_max s) (s_ram_used x)"
  "c_dur_max_us (calib_add s x) = max (c_dur_max_us s) (s_duration_us x)"
  "c_ram_p50 (calib_add s x) = lb__p2_add_sample 0x8000 (c_ram_p50 s) (ucast (s_ram_used x))"
  "c_ram_p95 (calib_add s x) = lb__p2_add_sample 0xF333 (c_ram_p95 s) (ucast (s_ram_used x))"
  "c_ram_p99 (calib_add s x) = lb__p2_add_sample 0xFD70 (c_ram_p99 s) (ucast (s_ram_used x))"
  "c_dur_p95 (calib_add s x) = lb__p2_add_sample 0xF333 (c_dur_p95 s) (s_duration_us x)"
  "c_dur_p99 (calib_add s x) = lb__p2_add_sample 0xFD70 (c_dur_p99 s) (s_duration_us x)"
  by (auto simp: calib_add_def Let_def max_def)

definition calib_state_of :: "u8 \<Rightarrow> u32 \<Rightarrow> loxbudget_sample list \<Rightarrow> calib_state" where
  "calib_state_of op n xs = foldl calib_add (calib_start op n) xs"

lemma state_of_snoc: "calib_state_of op n (xs @ [x]) = calib_add (calib_state_of op n xs) x"
  by (simp add: calib_state_of_def)

abbreviation ram_of :: "loxbudget_sample list \<Rightarrow> u32 list" where
  "ram_of xs \<equiv> map (\<lambda>x. ucast (s_ram_used x)) xs"

abbreviation dur_of :: "loxbudget_sample list \<Rightarrow> u32 list" where
  "dur_of xs \<equiv> map s_duration_us xs"

lemma max_of_snoc:
  fixes f :: "'b \<Rightarrow> 'a :: len word"
  shows "Max (insert (f x) (f ` set xs)) = max (Max (insert 0 (f ` set xs))) (f x)"
  by (cases "xs = []") (simp_all add: max.commute max.absorb2)

lemma state_of_fields:
  "c_active (calib_state_of op n xs) = 1 \<and> c_op_id (calib_state_of op n xs) = op \<and>
   c_target_samples (calib_state_of op n xs) = n \<and>
   c_sample_count (calib_state_of op n xs) = of_nat (length xs) \<and>
   c_ram_max (calib_state_of op n xs) = Max (insert 0 (s_ram_used ` set xs)) \<and>
   c_dur_max_us (calib_state_of op n xs) = Max (insert 0 (s_duration_us ` set xs))"
proof (induction xs rule: rev_induct)
  case Nil
  then show ?case by (simp add: calib_state_of_def calib_start_def zero_calib_def)
next
  case (snoc x xs)
  then show ?case unfolding state_of_snoc by (simp add: max_of_snoc)
qed

lemma state_of_estimators:
  "c_ram_p50 (calib_state_of op n xs) = p2_feed 0x8000 (ram_of xs) \<and>
   c_ram_p95 (calib_state_of op n xs) = p2_feed 0xF333 (ram_of xs) \<and>
   c_ram_p99 (calib_state_of op n xs) = p2_feed 0xFD70 (ram_of xs) \<and>
   c_dur_p95 (calib_state_of op n xs) = p2_feed 0xF333 (dur_of xs) \<and>
   c_dur_p99 (calib_state_of op n xs) = p2_feed 0xFD70 (dur_of xs)"
proof (induction xs rule: rev_induct)
  case Nil
  then show ?case by (simp add: calib_state_of_def calib_start_def p2_feed_def)
next
  case (snoc x xs)
  then show ?case unfolding state_of_snoc by (simp add: p2_feed_def)
qed

text \<open>
  Which samples count as outliers: the \<open>i\<close>-th does when it exceeds one and a half times the
  estimate of the 99th percentile that includes it, or, from the 501st sample on, when it exceeds
  the maximum of the first 500 by more than a fifth.
\<close>

definition outlier_at :: "loxbudget_sample list \<Rightarrow> nat \<Rightarrow> bool" where
  "outlier_at xs i \<longleftrightarrow>
     (let r = unat (s_ram_used (xs ! i));
          q = unat (lb__p2_get_q_q16 (p2_feed 0xFD70 (ram_of (take (i + 1) xs))));
          m = unat (Max (insert 0 (s_ram_used ` set (take 500 xs))))
      in q + q div 2 < r * 65536 \<or> 500 \<le> i \<and> m \<noteq> 0 \<and> m * 12 div 10 < r)"

lemma outlier_at_snoc:
  assumes "i < length xs"
  shows "outlier_at (xs @ [x]) i = outlier_at xs i"
proof -
  have "take (i + 1) (xs @ [x]) = take (i + 1) xs" using assms by simp
  moreover have "500 \<le> i \<Longrightarrow> take 500 (xs @ [x]) = take 500 xs" using assms by simp
  ultimately show ?thesis
    using assms by (cases "500 \<le> i") (simp_all add: outlier_at_def nth_append Let_def)
qed

lemma calib_outlier_unat:
  "calib_outlier s r \<longleftrightarrow>
     (let q = unat (lb__p2_get_q_q16 (c_ram_p99 s)); m = unat (c_ram_max_at_500 s) in
      q + q div 2 < unat r * 65536 \<or> 500 < unat (c_sample_count s) \<and> m \<noteq> 0 \<and> m * 12 div 10 < unat r)"
proof -
  let ?q = "lb__p2_get_q_q16 (c_ram_p99 s)" and ?m = "c_ram_max_at_500 s"
  have x: "unat (push_bit 16 (ucast r) :: u64) = unat r * 65536"
    using unat_u16_bound [of r] by (simp add: push_bit_eq_mult unat_word_ariths)
  have q: "unat (ucast ?q + ucast (drop_bit 1 ?q) :: u64) = unat ?q + unat ?q div 2"
    using unat_u32_bound [of ?q] by (simp add: unat_word_ariths drop_bit_eq_div unat_div)
  have m: "unat ((ucast ?m * 12 :: u32) div 10) = unat ?m * 12 div 10"
    using unat_u16_bound [of ?m] by (simp add: unat_div unat_word_ariths)
  have n: "?m \<noteq> 0 \<longleftrightarrow> unat ?m \<noteq> 0" by (simp add: unat_eq_zero)
  show ?thesis
    by (simp only: calib_outlier_def Let_def word_less_nat_alt x q m n) auto
qed

lemma calib_add_outliers:
  "c_ram_max_at_500 (calib_add s x) =
     (if c_sample_count s + 1 = 500 then c_ram_max (calib_add s x) else c_ram_max_at_500 s)"
  "c_outlier_count (calib_add s x) = c_outlier_count s + (if calib_outlier (calib_add s x) (s_ram_used x) then 1 else 0)"
  by (auto simp: calib_add_def calib_outlier_def Let_def max_def)

lemma state_of_outliers:
  assumes "length xs < 2 ^ 31"
  shows "c_outlier_count (calib_state_of op n xs) = of_nat (length (filter (outlier_at xs) [0..<length xs])) \<and>
   c_ram_max_at_500 (calib_state_of op n xs) =
     (if length xs < 500 then 0 else Max (insert 0 (s_ram_used ` set (take 500 xs))))"
  using assms
proof (induction xs rule: rev_induct)
  case Nil
  then show ?case by (simp add: calib_state_of_def calib_start_def zero_calib_def)
next
  case (snoc x xs)
  let ?s = "calib_state_of op n xs" and ?ys = "xs @ [x]" and ?k = "length xs"
  note IH = snoc.IH
  have k: "?k + 1 < 2 ^ 31" using snoc.prems by simp
  have small: "unat (of_nat j :: u32) = j" if "j < 2 ^ 31" for j
    using that by (simp add: unat_of_nat take_bit_nat_eq_self_iff)
  have cnt: "unat (c_sample_count (calib_state_of op n ?ys)) = ?k + 1"
    using small [OF snoc.prems] state_of_fields [of op n ?ys] by simp
  have at: "c_sample_count ?s + 1 = 500 \<longleftrightarrow> ?k + 1 = 500"
    using cnt unfolding state_of_snoc by (simp add: word_unat_eq_iff)
  have m500: "c_ram_max_at_500 (calib_state_of op n ?ys) =
      (if length ?ys < 500 then 0 else Max (insert 0 (s_ram_used ` set (take 500 ?ys))))"
  proof (cases "?k + 1 = 500")
    case True
    then have "take 500 ?ys = ?ys" by simp
    moreover have "c_ram_max_at_500 (calib_state_of op n ?ys) = c_ram_max (calib_state_of op n ?ys)"
      using True at by (simp add: state_of_snoc calib_add_outliers)
    ultimately show ?thesis using True state_of_fields [of op n ?ys] by (simp del: insert_iff)
  next
    case False
    then have "c_ram_max_at_500 (calib_state_of op n ?ys) = c_ram_max_at_500 ?s"
      using at by (simp add: state_of_snoc calib_add_outliers)
    moreover have "take 500 ?ys = take 500 xs" if "\<not> ?k < 499" using that False by simp
    ultimately show ?thesis using IH k False by (cases "?k < 499") (simp_all only: length_append, simp_all)
  qed
  have out: "calib_outlier (calib_state_of op n ?ys) (s_ram_used x) \<longleftrightarrow> outlier_at ?ys ?k"
    by (auto simp: calib_outlier_unat outlier_at_def cnt m500 state_of_estimators Let_def)
  have same: "filter (outlier_at ?ys) [0..<?k] = filter (outlier_at xs) [0..<?k]"
    by (rule filter_cong) (simp_all add: outlier_at_snoc)
  have "c_outlier_count (calib_state_of op n ?ys) = of_nat (length (filter (outlier_at ?ys) [0..<length ?ys]))"
    using IH k out same by (simp add: state_of_snoc calib_add_outliers)
  with m500 show ?case by blast
qed

lemma max_ge_samples:
  fixes f :: "'b \<Rightarrow> 'a :: len word"
  assumes "xs \<noteq> []"
  shows "Max (insert 0 (f ` set xs)) = Max (f ` set xs)"
  using assms by (simp add: max.absorb2)

section \<open>A session through the API\<close>

fun calibrate_run ::
    "build \<Rightarrow> u8 \<Rightarrow> loxbudget_sample list \<Rightarrow> loxbudget option \<Rightarrow> loxbudget_status list \<times> loxbudget option" where
  "calibrate_run B op [] bp = ([], bp)"
| "calibrate_run B op (x # xs) bp =
     (let (st, bp1) = loxbudget_calibrate_sample B bp op (Some x);
          (sts, bp2) = calibrate_run B op xs bp1 in (st # sts, bp2))"

definition calib_ready :: "build \<Rightarrow> loxbudget \<Rightarrow> u8 \<Rightarrow> bool" where
  "calib_ready B b op \<longleftrightarrow> calib_on B \<and> lb_shape B b \<and> b_calib_off b \<noteq> 0 \<and> op < b_max_ops b \<and>
     t_op_cfg b ! unat op \<noteq> 0"

abbreviation put_calib :: "u8 \<Rightarrow> calib_state \<Rightarrow> loxbudget \<Rightarrow> loxbudget" where
  "put_calib op s b \<equiv> b\<lparr>t_calib := (t_calib b)[unat op := s]\<rparr>"

lemma ready_facts:
  assumes "calib_ready B b op"
  shows "calib_on B" "lb__validate_budget (Some (put_calib op s b)) = LOXBUDGET_OK" "b_calib_off b \<noteq> 0"
    "lb__op_registered (put_calib op s b) op" "op < b_max_ops b" "unat op < length (t_calib b)"
    "lb__op_registered b op" "lb__validate_budget (Some b) = LOXBUDGET_OK"
  using assms
  by (simp_all add: calib_ready_def lb_shape_def size_shape_def feature_shape_def lb__validate_budget_def
      lb__op_registered_def word_less_nat_alt not_le LOXBUDGET_MAGIC_INIT_def)

lemma begin_ready:
  assumes "calib_ready B b op" and "n \<noteq> 0" and "c_active (t_calib b ! unat op) = 0"
  shows "loxbudget_calibrate_begin B (Some b) op n = (LOXBUDGET_OK, Some (put_calib op (calib_state_of op n []) b))"
  using ready_facts [OF assms(1)] assms(2,3)
  by (simp add: loxbudget_calibrate_begin_def calib_state_of_def Let_def not_le)

lemma guard_ready:
  assumes "calib_ready B b op"
  shows "calib_guard (put_calib op (calib_state_of op n xs) b) op = LOXBUDGET_OK"
  using ready_facts [OF assms] by (simp add: calib_guard_def state_of_fields Let_def not_le)

lemma run_ready:
  assumes "calib_ready B b op"
  shows "calibrate_run B op ys (Some (put_calib op (calib_state_of op n xs) b)) =
    (replicate (length ys) LOXBUDGET_OK, Some (put_calib op (calib_state_of op n (xs @ ys)) b))"
proof (induction ys arbitrary: xs)
  case Nil
  then show ?case by simp
next
  case (Cons y ys)
  have "loxbudget_calibrate_sample B (Some (put_calib op (calib_state_of op n xs) b)) op (Some y) =
     (LOXBUDGET_OK, Some (put_calib op (calib_state_of op n (xs @ [y])) b))"
    using ready_facts [OF assms] guard_ready [OF assms]
    by (simp add: loxbudget_calibrate_sample_def state_of_snoc Let_def)
  then show ?case using Cons [of "xs @ [y]"] by simp
qed

lemma end_ready:
  assumes "calib_ready B b op"
  shows "loxbudget_calibrate_end B (Some (put_calib op (calib_state_of op n xs) b)) op (Some g) =
    (LOXBUDGET_OK, Some (put_calib op ((calib_state_of op n xs)\<lparr>c_active := 0\<rparr>) b),
     Some (lb__calib_compute_suggested (calib_state_of op n xs)))"
  using ready_facts [OF assms] guard_ready [OF assms]
  by (simp add: loxbudget_calibrate_end_def Let_def)

text \<open>The calls of a session, with the statuses and the report they return.\<close>

definition calibrate_session ::
    "build \<Rightarrow> loxbudget \<Rightarrow> u8 \<Rightarrow> u32 \<Rightarrow> loxbudget_sample list \<Rightarrow> loxbudget_suggested_profile \<Rightarrow>
     loxbudget_status list \<times> loxbudget option \<times> loxbudget_suggested_profile option" where
  "calibrate_session B b op n xs out =
     (let (st1, bp1) = loxbudget_calibrate_begin B (Some b) op n;
          (sts, bp2) = calibrate_run B op xs bp1;
          (st3, bp3, g) = loxbudget_calibrate_end B bp2 op (Some out)
      in (st1 # sts @ [st3], bp3, g))"

lemma session_ready:
  assumes "calib_ready B b op" and "n \<noteq> 0" and "c_active (t_calib b ! unat op) = 0"
  shows "calibrate_session B b op n xs out =
    (replicate (length xs + 2) LOXBUDGET_OK, Some (put_calib op ((calib_state_of op n xs)\<lparr>c_active := 0\<rparr>) b),
     Some (lb__calib_compute_suggested (calib_state_of op n xs)))"
  using begin_ready [OF assms] run_ready [OF assms(1), of xs n "[]"] end_ready [OF assms(1), of n xs out]
  by (simp add: calibrate_session_def replicate_append_same)

text \<open>What the estimators of a session hold.\<close>

lemma ucast_u16_less: "(ucast (x :: u16) :: u32) < 0x10000"
  by (simp add: word_less_nat_alt unat_u16_bound)

lemma feed_estimate:
  assumes "5 \<le> length xs" and "length xs < 2 ^ 31" and "\<forall>x\<in>set xs. x < 0x10000"
  shows "unat (drop_bit 16 (lb__p2_get_q_q16 (p2_feed p xs))) \<in> {unat (Min (set xs))..unat (Max (set xs))}"
  using tracks_estimate [OF feed_tracks [OF assms] assms(3)] by (simp add: word_le_nat_alt)

lemma unat_Min_Max:
  fixes A :: "'a :: len word set"
  assumes "finite A" and "A \<noteq> {}"
  shows "unat (Min A) = Min (unat ` A)" and "unat (Max A) = Max (unat ` A)"
  using assms by (simp_all add: mono_Min_commute mono_Max_commute mono_def word_le_nat_alt)

lemma ram_estimate:
  assumes "5 \<le> length xs" and "length xs < 2 ^ 31"
  shows "unat (drop_bit 16 (lb__p2_get_q_q16 (p2_feed p (ram_of xs))))
    \<in> {Min ((\<lambda>x. unat (s_ram_used x)) ` set xs)..Max ((\<lambda>x. unat (s_ram_used x)) ` set xs)}"
proof -
  have "xs \<noteq> []" using assms(1) by auto
  then show ?thesis
    using feed_estimate [of "ram_of xs" p] assms ucast_u16_less
    by (simp add: unat_Min_Max image_image unat_ucast_16_32)
qed

lemma dur_estimate:
  assumes "5 \<le> length xs" and "length xs < 2 ^ 31" and "\<forall>x\<in>set xs. s_duration_us x < 0x10000"
  shows "unat (drop_bit 16 (lb__p2_get_q_q16 (p2_feed p (dur_of xs))))
    \<in> {Min ((\<lambda>x. unat (s_duration_us x)) ` set xs)..Max ((\<lambda>x. unat (s_duration_us x)) ` set xs)}"
proof -
  have "xs \<noteq> []" using assms(1) by auto
  then show ?thesis
    using feed_estimate [of "dur_of xs" p] assms by (simp add: unat_Min_Max image_image)
qed

text \<open>The reported profile of a state, with the bounds that keep its products in range.\<close>

lemma suggested_reports:
  "g_sample_count (lb__calib_compute_suggested s) = c_sample_count s"
  "g_ram_max (lb__calib_compute_suggested s) = c_ram_max s"
  "g_duration_max_us (lb__calib_compute_suggested s) = c_dur_max_us s"
  "g_outlier_count (lb__calib_compute_suggested s) = c_outlier_count s"
  "g_ram_p50 (lb__calib_compute_suggested s) = ucast (drop_bit 16 (lb__p2_get_q_q16 (c_ram_p50 s)))"
  "g_ram_p95 (lb__calib_compute_suggested s) = ucast (drop_bit 16 (lb__p2_get_q_q16 (c_ram_p95 s)))"
  "g_ram_p99 (lb__calib_compute_suggested s) = ucast (drop_bit 16 (lb__p2_get_q_q16 (c_ram_p99 s)))"
  "g_duration_p95_us (lb__calib_compute_suggested s) = drop_bit 16 (lb__p2_get_q_q16 (c_dur_p95 s))"
  "g_duration_p99_us (lb__calib_compute_suggested s) = drop_bit 16 (lb__p2_get_q_q16 (c_dur_p99 s))"
  by (simp_all add: lb__calib_compute_suggested_def Let_def)

lemma unat_quantile: "unat (drop_bit 16 (q :: u32)) < 65536"
  using unat_u32_bound [of q] by (simp add: drop_bit_eq_div unat_div)

lemma unat_ucast_quantile: "unat (ucast (drop_bit 16 (q :: u32)) :: u16) = unat (drop_bit 16 q)"
  using unat_quantile [of q] by (simp add: unat_ucast_mod)

lemma suggested_ram_limit:
  assumes "unat (g_ram_p99 (lb__calib_compute_suggested s)) \<le> 65503" and "unat (c_ram_max s) \<le> 62415"
  shows "unat (g_suggested_ram_limit (lb__calib_compute_suggested s)) =
    max (unat (g_ram_p99 (lb__calib_compute_suggested s)) + 32) (unat (c_ram_max s) * 105 div 100)"
proof -
  let ?p99 = "g_ram_p99 (lb__calib_compute_suggested s)"
  let ?a = "ucast (ucast ?p99 + 32 :: u32) :: u16"
    and ?b = "ucast ((ucast (c_ram_max s) * 105 :: u32) div 100) :: u16"
  have "unat (ucast ?p99 + 32 :: u32) = unat ?p99 + 32" using assms(1) by (simp add: unat_add_small)
  then have a: "unat ?a = unat ?p99 + 32"
    using assms(1) by (simp add: unat_ucast_mod)
  have "unat ((ucast (c_ram_max s) * 105 :: u32) div 100) = unat (c_ram_max s) * 105 div 100"
    using assms(2) by (simp add: unat_div unat_word_ariths)
  then have b: "unat ?b = unat (c_ram_max s) * 105 div 100"
    using assms(2) by (simp add: unat_ucast_mod)
  have "g_suggested_ram_limit (lb__calib_compute_suggested s) = (if ?a > ?b then ?a else ?b)"
    by (simp add: lb__calib_compute_suggested_def Let_def)
  then show ?thesis by (simp add: a b word_less_nat_alt max_def not_less)
qed

lemma suggested_time_limit:
  assumes "unat (c_dur_max_us s) \<le> 39045157"
  shows "unat (g_suggested_time_limit_us (lb__calib_compute_suggested s)) =
    max (unat (g_duration_p99_us (lb__calib_compute_suggested s)) + 500) (unat (c_dur_max_us s) * 110 div 100)"
proof -
  let ?d99 = "g_duration_p99_us (lb__calib_compute_suggested s)"
  have "unat ?d99 < 65536" by (simp add: suggested_reports unat_quantile)
  then have a: "unat (?d99 + 500) = unat ?d99 + 500" by (simp add: unat_add_small)
  have b: "unat ((c_dur_max_us s * 110) div 100) = unat (c_dur_max_us s) * 110 div 100"
    using assms by (simp add: unat_div unat_word_ariths)
  have "g_suggested_time_limit_us (lb__calib_compute_suggested s) =
    (if ?d99 + 500 > (c_dur_max_us s * 110) div 100 then ?d99 + 500 else (c_dur_max_us s * 110) div 100)"
    by (simp add: lb__calib_compute_suggested_def Let_def)
  then show ?thesis by (simp only: if_distrib [of unat] a b word_less_nat_alt max_def) auto
qed

text \<open>The report of a session: the integer part of the estimate of a quantile, and exact counts.\<close>

definition quantile_of :: "u32 \<Rightarrow> u32 list \<Rightarrow> nat" where
  "quantile_of p xs = unat (lb__p2_get_q_q16 (p2_feed p xs)) div 65536"

lemma report_estimates:
  fixes op :: u8 and n :: u32 and xs :: "loxbudget_sample list"
  defines "g \<equiv> lb__calib_compute_suggested (calib_state_of op n xs)"
  shows "unat (g_ram_p50 g) = quantile_of 0x8000 (ram_of xs)"
    and "unat (g_ram_p95 g) = quantile_of 0xF333 (ram_of xs)"
    and "unat (g_ram_p99 g) = quantile_of 0xFD70 (ram_of xs)"
    and "unat (g_duration_p95_us g) = quantile_of 0xF333 (dur_of xs)"
    and "unat (g_duration_p99_us g) = quantile_of 0xFD70 (dur_of xs)"
  unfolding g_def suggested_reports unat_ucast_quantile
  by (simp_all add: quantile_of_def state_of_estimators drop_bit_eq_div unat_div)

lemma report_outliers:
  fixes op :: u8 and n :: u32
  assumes "length xs < 2 ^ 31"
  defines "g \<equiv> lb__calib_compute_suggested (calib_state_of op n xs)"
  shows "unat (g_outlier_count g) = length (filter (outlier_at xs) [0..<length xs]) mod 65536"
  using state_of_outliers [OF assms(1), of op n]
  by (simp add: g_def suggested_reports unat_of_nat take_bit_eq_mod)

lemma report_exact:
  fixes op :: u8 and n :: u32
  assumes "5 \<le> length xs" and "length xs < 2 ^ 31"
  defines "g \<equiv> lb__calib_compute_suggested (calib_state_of op n xs)"
  shows "unat (g_sample_count g) = length xs"
    and "unat (g_ram_max g) = Max ((\<lambda>x. unat (s_ram_used x)) ` set xs)"
    and "unat (g_duration_max_us g) = Max ((\<lambda>x. unat (s_duration_us x)) ` set xs)"
proof -
  have ne: "xs \<noteq> []" using assms(1) by auto
  note maxima = max_ge_samples [OF ne, of s_ram_used] max_ge_samples [OF ne, of s_duration_us]
  have "unat (of_nat (length xs) :: u32) = length xs"
    using assms(2) by (simp add: unat_of_nat take_bit_nat_eq_self_iff)
  then show "unat (g_sample_count g) = length xs"
    and "unat (g_ram_max g) = Max ((\<lambda>x. unat (s_ram_used x)) ` set xs)"
    and "unat (g_duration_max_us g) = Max ((\<lambda>x. unat (s_duration_us x)) ` set xs)"
    using ne by (simp_all add: g_def suggested_reports state_of_fields maxima unat_Min_Max image_image)
qed

lemma report_ram:
  fixes op :: u8 and n :: u32
  assumes "5 \<le> length xs" and "length xs < 2 ^ 31"
  defines "g \<equiv> lb__calib_compute_suggested (calib_state_of op n xs)"
    and "R \<equiv> {Min ((\<lambda>x. unat (s_ram_used x)) ` set xs)..Max ((\<lambda>x. unat (s_ram_used x)) ` set xs)}"
  shows "unat (g_ram_p50 g) \<in> R" and "unat (g_ram_p95 g) \<in> R" and "unat (g_ram_p99 g) \<in> R"
  unfolding g_def R_def suggested_reports unat_ucast_quantile
  by (simp_all only: ram_estimate [OF assms(1,2)] state_of_estimators)

lemma report_dur:
  fixes op :: u8 and n :: u32
  assumes "5 \<le> length xs" and "length xs < 2 ^ 31" and "\<forall>x\<in>set xs. s_duration_us x < 0x10000"
  defines "g \<equiv> lb__calib_compute_suggested (calib_state_of op n xs)"
    and "R \<equiv> {Min ((\<lambda>x. unat (s_duration_us x)) ` set xs)..Max ((\<lambda>x. unat (s_duration_us x)) ` set xs)}"
  shows "unat (g_duration_p95_us g) \<in> R" and "unat (g_duration_p99_us g) \<in> R"
  unfolding g_def R_def suggested_reports
  by (simp_all only: dur_estimate [OF assms(1,2,3)] state_of_estimators)

section \<open>Properties\<close>

text \<open>
  C25. A calibration session of at least five samples on a registered, idle operation succeeds at
  every call. Its report holds the number of samples, the exact maxima, the number of outliers
  (modulo \<open>2 ^ 16\<close>, the counter's width), and in each of the five quantile fields the integer part
  of the estimate that an estimator for that very quantile (0.5, 0.95, 0.99 of the RAM, 0.95 and
  0.99 of the duration, in Q16) gives for the samples in their order. The RAM quantiles lie
  between the smallest and the largest sample; the duration quantiles do when all durations
  are below 65536. The session changes nothing but the slot of the operation, which is idle again.
\<close>

theorem calibration_session:
  assumes ready: "calib_ready B b op" "n \<noteq> 0" "c_active (t_calib b ! unat op) = 0"
    and len: "5 \<le> length xs" "length xs < 2 ^ 31"
    and session: "calibrate_session B b op n xs out = (sts, bp, report)"
  shows "set sts = {LOXBUDGET_OK} \<and>
    (\<exists>s. bp = Some (b\<lparr>t_calib := (t_calib b)[unat op := s]\<rparr>) \<and> c_active s = 0) \<and>
    (\<exists>g. report = Some g \<and>
      unat (g_sample_count g) = length xs \<and>
      unat (g_ram_max g) = Max ((\<lambda>x. unat (s_ram_used x)) ` set xs) \<and>
      unat (g_duration_max_us g) = Max ((\<lambda>x. unat (s_duration_us x)) ` set xs) \<and>
      unat (g_outlier_count g) = length (filter (outlier_at xs) [0..<length xs]) mod 65536 \<and>
      unat (g_ram_p50 g) = quantile_of 0x8000 (ram_of xs) \<and>
      unat (g_ram_p95 g) = quantile_of 0xF333 (ram_of xs) \<and>
      unat (g_ram_p99 g) = quantile_of 0xFD70 (ram_of xs) \<and>
      unat (g_duration_p95_us g) = quantile_of 0xF333 (dur_of xs) \<and>
      unat (g_duration_p99_us g) = quantile_of 0xFD70 (dur_of xs) \<and>
      {unat (g_ram_p50 g), unat (g_ram_p95 g), unat (g_ram_p99 g)} \<subseteq>
        {Min ((\<lambda>x. unat (s_ram_used x)) ` set xs)..Max ((\<lambda>x. unat (s_ram_used x)) ` set xs)} \<and>
      ((\<forall>x\<in>set xs. s_duration_us x < 0x10000) \<longrightarrow>
        {unat (g_duration_p95_us g), unat (g_duration_p99_us g)} \<subseteq>
        {Min ((\<lambda>x. unat (s_duration_us x)) ` set xs)..Max ((\<lambda>x. unat (s_duration_us x)) ` set xs)}))"
proof -
  let ?s = "calib_state_of op n xs" and ?g = "lb__calib_compute_suggested (calib_state_of op n xs)"
  have result: "sts = replicate (length xs + 2) LOXBUDGET_OK" "bp = Some (put_calib op (?s\<lparr>c_active := 0\<rparr>) b)"
    "report = Some ?g"
    using session_ready [OF ready, of xs out] session by simp_all
  show ?thesis
  proof (intro conjI exI)
    show "set sts = {LOXBUDGET_OK}" by (auto simp: result)
    show "bp = Some (put_calib op (?s\<lparr>c_active := 0\<rparr>) b)" and "c_active (?s\<lparr>c_active := 0\<rparr>) = 0"
      by (simp_all add: result)
    show "report = Some ?g" by (rule result)
    show "unat (g_sample_count ?g) = length xs"
      "unat (g_ram_max ?g) = Max ((\<lambda>x. unat (s_ram_used x)) ` set xs)"
      "unat (g_duration_max_us ?g) = Max ((\<lambda>x. unat (s_duration_us x)) ` set xs)"
      by (rule report_exact [OF len])+
    show "unat (g_outlier_count ?g) = length (filter (outlier_at xs) [0..<length xs]) mod 65536"
      by (rule report_outliers [OF len(2)])
    show "unat (g_ram_p50 ?g) = quantile_of 0x8000 (ram_of xs)"
      "unat (g_ram_p95 ?g) = quantile_of 0xF333 (ram_of xs)"
      "unat (g_ram_p99 ?g) = quantile_of 0xFD70 (ram_of xs)"
      "unat (g_duration_p95_us ?g) = quantile_of 0xF333 (dur_of xs)"
      "unat (g_duration_p99_us ?g) = quantile_of 0xFD70 (dur_of xs)"
      by (rule report_estimates)+
    show "{unat (g_ram_p50 ?g), unat (g_ram_p95 ?g), unat (g_ram_p99 ?g)} \<subseteq>
        {Min ((\<lambda>x. unat (s_ram_used x)) ` set xs)..Max ((\<lambda>x. unat (s_ram_used x)) ` set xs)}"
      by (simp only: report_ram [OF len] insert_subset empty_subsetI simp_thms)
    show "(\<forall>x\<in>set xs. s_duration_us x < 0x10000) \<longrightarrow>
        {unat (g_duration_p95_us ?g), unat (g_duration_p99_us ?g)} \<subseteq>
        {Min ((\<lambda>x. unat (s_duration_us x)) ` set xs)..Max ((\<lambda>x. unat (s_duration_us x)) ` set xs)}"
      by (intro impI) (simp only: report_dur [OF len] insert_subset empty_subsetI simp_thms)
  qed
qed

definition five_samples :: "loxbudget_sample list" where
  "five_samples = map (\<lambda>n. \<lparr>s_ram_used = of_nat n, s_stack_estimate = 0, s_flash_writes = 0,
     s_queue_peak = 0, s_duration_us = of_nat (10 * n)\<rparr>) [120, 100, 180, 160, 140]"

definition blank_report :: loxbudget_suggested_profile where
  "blank_report = lb__calib_compute_suggested zero_calib"

lemma sample_ready: "calib_ready fixed_build sample_ops 0 \<and> c_active (t_calib sample_ops ! 0) = 0"
  using sample_ops_ok by (simp add: calib_ready_def) code_simp

theorem calibration_session_witness:
  "\<exists>g. snd (snd (calibrate_session fixed_build sample_ops 0 5 five_samples blank_report)) = Some g \<and>
     unat (g_ram_max g) = 180 \<and> 100 \<le> unat (g_ram_p50 g) \<and>
     unat (g_ram_p50 g) = quantile_of 0x8000 (map (\<lambda>x. ucast (s_ram_used x)) five_samples) \<and>
     unat (g_ram_p99 g) = quantile_of 0xFD70 (map (\<lambda>x. ucast (s_ram_used x)) five_samples) \<and>
     unat (g_outlier_count g) = length (filter (outlier_at five_samples) [0..<5])"
proof -
  obtain sts bp report where
    session: "calibrate_session fixed_build sample_ops 0 5 five_samples blank_report = (sts, bp, report)"
    by (cases "calibrate_session fixed_build sample_ops 0 5 five_samples blank_report")
  have "(\<lambda>x. unat (s_ram_used x)) ` set five_samples = {120, 100, 180, 160, 140}"
    by (simp add: five_samples_def)
  moreover have len: "length five_samples = 5" "5 \<le> length five_samples" "length five_samples < 2 ^ 31"
    by (simp_all add: five_samples_def)
  moreover have "length (filter (outlier_at five_samples) [0..<5]) \<le> 5"
    by (rule order_trans [OF length_filter_le]) simp
  ultimately show ?thesis
    using calibration_session [OF _ _ _ len(2,3) session] sample_ready session by auto
qed

text \<open>
  C27. When the samples stay below 62416 units of RAM and 65536 microseconds, the suggested
  limits admit every sample of the session, with at least 32 units and 500 microseconds
  above the 99th percentile and 5 and 10 percent above the largest sample.
\<close>

theorem suggested_limits_admit_samples:
  assumes ready: "calib_ready B b op" "n \<noteq> 0" "c_active (t_calib b ! unat op) = 0"
    and len: "5 \<le> length xs" "length xs < 2 ^ 31"
    and small: "\<forall>x\<in>set xs. unat (s_ram_used x) \<le> 62415 \<and> unat (s_duration_us x) < 65536"
    and session: "calibrate_session B b op n xs out = (sts, bp, Some g)" and x: "x \<in> set xs"
  shows "s_ram_used x \<le> g_suggested_ram_limit g \<and> s_duration_us x \<le> g_suggested_time_limit_us g \<and>
    unat (g_suggested_ram_limit g) = max (unat (g_ram_p99 g) + 32) (unat (g_ram_max g) * 105 div 100) \<and>
    unat (g_suggested_time_limit_us g) =
      max (unat (g_duration_p99_us g) + 500) (unat (g_duration_max_us g) * 110 div 100)"
proof -
  let ?s = "calib_state_of op n xs"
  have g: "g = lb__calib_compute_suggested ?s" using session_ready [OF ready, of xs out] session by simp
  have ne: "(\<lambda>x. unat (s_ram_used x)) ` set xs \<noteq> {}" "(\<lambda>x. unat (s_duration_us x)) ` set xs \<noteq> {}"
    using x by auto
  have max: "unat (c_ram_max ?s) = Max ((\<lambda>x. unat (s_ram_used x)) ` set xs)"
    "unat (c_dur_max_us ?s) = Max ((\<lambda>x. unat (s_duration_us x)) ` set xs)"
    using report_exact(2,3) [OF len, of op n] by (simp_all add: suggested_reports)
  have le: "unat (c_ram_max ?s) \<le> 62415" "unat (c_dur_max_us ?s) < 65536"
    "unat (s_ram_used x) \<le> unat (c_ram_max ?s)" "unat (s_duration_us x) \<le> unat (c_dur_max_us ?s)"
    using small x ne by (simp_all add: max)
  have "unat (g_ram_p99 g) \<le> unat (c_ram_max ?s)"
    using report_ram(3) [OF len, of op n] by (simp add: g max)
  then have limit: "unat (g_suggested_ram_limit g) = max (unat (g_ram_p99 g) + 32) (unat (c_ram_max ?s) * 105 div 100)"
    "unat (g_suggested_time_limit_us g) =
      max (unat (g_duration_p99_us g) + 500) (unat (c_dur_max_us ?s) * 110 div 100)"
    using le suggested_ram_limit [of ?s] suggested_time_limit [of ?s] by (simp_all add: g)
  have "unat (s_ram_used x) \<le> unat (g_suggested_ram_limit g)"
    "unat (s_duration_us x) \<le> unat (g_suggested_time_limit_us g)"
    using limit le by (simp_all add: max_def) (linarith | simp)+
  then show ?thesis using limit by (simp add: g suggested_reports word_le_nat_alt)
qed

theorem suggested_limits_admit_samples_witness:
  "\<exists>g. snd (snd (calibrate_session fixed_build sample_ops 0 5 five_samples blank_report)) = Some g \<and>
     180 \<le> g_suggested_ram_limit g"
proof -
  obtain sts bp g where session: "calibrate_session fixed_build sample_ops 0 5 five_samples blank_report = (sts, bp, Some g)"
    using session_ready [of fixed_build sample_ops 0 5 five_samples blank_report] sample_ready by simp
  have mem: "five_samples ! 2 \<in> set five_samples" by (simp add: five_samples_def)
  show ?thesis
    using suggested_limits_admit_samples [OF _ _ _ _ _ _ session mem] sample_ready session
    by (auto simp: five_samples_def)
qed

text \<open>
  Beyond these bounds the arithmetic wraps: a session of five samples of 65535 units suggests
  a limit of 3275.
\<close>

lemma suggested_limit_overflows:
  "g_suggested_ram_limit (lb__calib_compute_suggested (calib_state_of 0 5
     (replicate 5 \<lparr>s_ram_used = 65535, s_stack_estimate = 0, s_flash_writes = 0, s_queue_peak = 0,
        s_duration_us = 0\<rparr>))) = 3275"
  by code_simp

text \<open>
  As the estimate of the first three samples is 0, each of them counts as an outlier unless
  it is 0 itself.
\<close>

lemma early_samples_are_outliers:
  "length xs < 4 \<Longrightarrow> c_outlier_count (calib_state_of op n xs) =
     of_nat (length (filter (\<lambda>x. s_ram_used x \<noteq> 0) xs))"
proof (induction xs rule: rev_induct)
  case Nil
  then show ?case by (simp add: calib_state_of_def calib_start_def zero_calib_def)
next
  case (snoc x xs)
  let ?s = "calib_state_of op n xs"
  have "length xs < 3" using snoc.prems by simp
  then have few: "length xs = 0 \<or> length xs = 1 \<or> length xs = 2" by linarith
  have p99: "lb__p2_get_q_q16 (lb__p2_add_sample 0xFD70 (c_ram_p99 ?s) (ucast (s_ram_used x))) = 0"
    using feed_fallback [of "ram_of (xs @ [x])" "0xFD70"] snoc.prems
    by (simp add: state_of_estimators feed_snoc)
  have count: "c_sample_count ?s + 1 \<noteq> 500" "\<not> 500 < c_sample_count ?s + 1"
    using few by (auto simp: state_of_fields)
  have nonzero: "(0 :: u64) < push_bit 16 (ucast (s_ram_used x)) \<longleftrightarrow> s_ram_used x \<noteq> 0"
  proof -
    have "unat (push_bit 16 (ucast (s_ram_used x)) :: u64) = unat (s_ram_used x) * 65536"
      using unat_u16_bound [of "s_ram_used x"] by (simp add: push_bit_eq_mult unat_word_ariths)
    then show ?thesis by (simp add: word_less_nat_alt unat_gt_0)
  qed
  show ?case
    using snoc count unfolding state_of_snoc calib_add_def Let_def
    by (simp add: calib_outlier_def p99 nonzero)
qed

end
