(* ===== verification/LB_Export.thy ===== *)
theory LB_Export
  imports LB_Calibration
begin

text \<open>
  The binary export of calibration data (\<open>src/loxbudget_calibration.c\<close>): its size, the bytes it
  writes into the caller's buffer, and a decoder of the format documented in
  \<open>loxbudget.h\<close>, written from that comment and not from the code.
\<close>

section \<open>Definitions\<close>

text \<open>Writes of consecutive bytes into the buffer, at a byte offset.\<close>

definition lb__write_u16_le :: "u8 list \<Rightarrow> nat \<Rightarrow> u16 \<Rightarrow> u8 list" where
  "lb__write_u16_le p off v =
     p[off := ucast (v AND 0xFF), off + 1 := ucast (drop_bit 8 v AND 0xFF)]"

definition lb__write_u32_le :: "u8 list \<Rightarrow> nat \<Rightarrow> u32 \<Rightarrow> u8 list" where
  "lb__write_u32_le p off v =
     p[off := ucast (v AND 0xFF), off + 1 := ucast (drop_bit 8 v AND 0xFF),
       off + 2 := ucast (drop_bit 16 v AND 0xFF), off + 3 := ucast (drop_bit 24 v AND 0xFF)]"

definition calib_listed :: "calib_state \<Rightarrow> bool" where
  "calib_listed s \<longleftrightarrow> c_sample_count s \<noteq> 0 \<or> c_active s \<noteq> 0"

text \<open>The loop that counts the records.\<close>

definition rec_count :: "loxbudget \<Rightarrow> u32" where
  "rec_count b =
     foldl (\<lambda>n op. if calib_listed (t_calib b ! op) then n + 1 else n) 0 [0..<unat (b_max_ops b)]"

definition loxbudget_calibration_export_size ::
    "build \<Rightarrow> loxbudget option \<Rightarrow> u64 option \<Rightarrow> loxbudget_status \<times> u64 option" where
  "loxbudget_calibration_export_size B bp out_size =
     (if \<not> calib_on B then (LOXBUDGET_ERR_FEATURE_DISABLED, out_size)
      else let st = lb__validate_budget bp in
        if st \<noteq> LOXBUDGET_OK \<or> out_size = None
        then (if out_size = None then LOXBUDGET_ERR_INVALID_ARG else st, out_size)
        else if b_calib_off (the bp) = 0 then (LOXBUDGET_ERR_NO_SPACE, out_size)
        else (LOXBUDGET_OK, Some (4 + ucast (rec_count (the bp)) * 40)))"

text \<open>One record at \<open>off\<close>, as the body of the export loop writes it.\<close>

definition export_record :: "u8 list \<Rightarrow> nat \<Rightarrow> nat \<Rightarrow> calib_state \<Rightarrow> u8 list" where
  "export_record p off op s =
     (let g = lb__calib_compute_suggested s;
          flags = (if c_active s \<noteq> 0 then 1 else 0);
          p = p[off := of_nat op];
          p = p[off + 1 := flags];
          p = lb__write_u16_le p (off + 2) 0;
          p = lb__write_u16_le p (off + 4) (g_ram_p50 g);
          p = lb__write_u16_le p (off + 6) (g_ram_p95 g);
          p = lb__write_u16_le p (off + 8) (g_ram_p99 g);
          p = lb__write_u16_le p (off + 10) (g_ram_max g);
          p = lb__write_u32_le p (off + 12) (g_duration_p95_us g);
          p = lb__write_u32_le p (off + 16) (g_duration_p99_us g);
          p = lb__write_u32_le p (off + 20) (g_duration_max_us g);
          p = lb__write_u16_le p (off + 24) (g_suggested_ram_limit g);
          p = lb__write_u16_le p (off + 26) (g_outlier_count g);
          p = lb__write_u32_le p (off + 28) (g_sample_count g);
          p = lb__write_u32_le p (off + 32) (g_suggested_time_limit_us g)
      in lb__write_u32_le p (off + 36) (c_target_samples s))"

definition export_step :: "loxbudget \<Rightarrow> u8 list \<times> nat \<Rightarrow> nat \<Rightarrow> u8 list \<times> nat" where
  "export_step b = (\<lambda>(p, off) op.
     let s = t_calib b ! op in
     if \<not> calib_listed s then (p, off) else (export_record p off op s, off + 40))"

text \<open>
  The buffer holds \<open>out_size\<close> bytes (its length); the second result is \<open>*out_written\<close>.
\<close>

definition loxbudget_calibration_export ::
    "build \<Rightarrow> loxbudget option \<Rightarrow> u8 list option \<Rightarrow> u64 \<Rightarrow> u64 option \<Rightarrow>
     loxbudget_status \<times> u8 list option \<times> u64 option" where
  "loxbudget_calibration_export B bp out out_size out_written =
     (if \<not> calib_on B then (LOXBUDGET_ERR_FEATURE_DISABLED, out, out_written)
      else let st = lb__validate_budget bp in
        if st \<noteq> LOXBUDGET_OK \<or> out = None \<or> out_written = None
        then (if out = None \<or> out_written = None then LOXBUDGET_ERR_INVALID_ARG else st, out, out_written)
        else let b = the bp in
          if b_calib_off b = 0 then (LOXBUDGET_ERR_NO_SPACE, out, out_written)
          else let (st, need) = loxbudget_calibration_export_size B bp (Some 0) in
            if st \<noteq> LOXBUDGET_OK then (st, out, out_written)
            else if out_size < the need then (LOXBUDGET_ERR_NO_SPACE, out, out_written)
            else let p = (the out)[0 := 2, 1 := ucast (rec_count b), 2 := 0, 3 := 0];
                     (p, off) = foldl (export_step b) (p, 4) [0..<unat (b_max_ops b)]
                 in (LOXBUDGET_OK, Some p, Some (of_nat off)))"

section \<open>The documented format\<close>

text \<open>Reading little-endian numbers and records, from the comment in \<open>loxbudget.h\<close>.\<close>

definition le16 :: "u8 list \<Rightarrow> nat \<Rightarrow> nat" where
  "le16 p i = unat (p ! i) + 256 * unat (p ! (i + 1))"

definition le32 :: "u8 list \<Rightarrow> nat \<Rightarrow> nat" where
  "le32 p i = le16 p i + 65536 * le16 p (i + 2)"

record calib_record =
  x_op :: nat
  x_active :: bool
  x_ram :: "nat list"         \<comment> \<open>p50, p95, p99, max\<close>
  x_duration :: "nat list"    \<comment> \<open>p95, p99, max\<close>
  x_ram_limit :: nat
  x_outliers :: nat
  x_samples :: nat
  x_time_limit :: nat
  x_target :: nat

definition read_record :: "u8 list \<Rightarrow> nat \<Rightarrow> calib_record" where
  "read_record p i =
     \<lparr>x_op = unat (p ! i), x_active = odd (unat (p ! (i + 1))),
      x_ram = map (\<lambda>k. le16 p (i + k)) [4, 6, 8, 10],
      x_duration = map (\<lambda>k. le32 p (i + k)) [12, 16, 20],
      x_ram_limit = le16 p (i + 24), x_outliers = le16 p (i + 26), x_samples = le32 p (i + 28),
      x_time_limit = le32 p (i + 32), x_target = le32 p (i + 36)\<rparr>"

definition read_export :: "u8 list \<Rightarrow> calib_record list option" where
  "read_export p =
     (if length p < 4 \<or> p ! 0 \<noteq> 2 \<or> length p < 4 + 40 * unat (p ! 1) then None
      else Some (map (\<lambda>k. read_record p (4 + 40 * k)) [0..<unat (p ! 1)]))"

text \<open>The record an operation's state stands for.\<close>

definition calib_report :: "nat \<Rightarrow> calib_state \<Rightarrow> calib_record" where
  "calib_report op s =
     (let g = lb__calib_compute_suggested s in
      \<lparr>x_op = op, x_active = (c_active s \<noteq> 0),
       x_ram = map unat [g_ram_p50 g, g_ram_p95 g, g_ram_p99 g, g_ram_max g],
       x_duration = map unat [g_duration_p95_us g, g_duration_p99_us g, g_duration_max_us g],
       x_ram_limit = unat (g_suggested_ram_limit g), x_outliers = unat (g_outlier_count g),
       x_samples = unat (g_sample_count g), x_time_limit = unat (g_suggested_time_limit_us g),
       x_target = unat (c_target_samples s)\<rparr>)"

definition calib_reports :: "loxbudget \<Rightarrow> calib_record list" where
  "calib_reports b =
     map (\<lambda>op. calib_report op (t_calib b ! op))
       (filter (\<lambda>op. calib_listed (t_calib b ! op)) [0..<unat (b_max_ops b)])"

section \<open>Writing bytes\<close>

text \<open>A block of bytes put at an offset; the writes of a record are one block.\<close>

definition put_bytes :: "nat \<Rightarrow> u8 list \<Rightarrow> u8 list \<Rightarrow> u8 list" where
  "put_bytes off bs p = take off p @ bs @ drop (off + length bs) p"

lemma put_put:
  assumes "off + length xs + length ys \<le> length p"
  shows "put_bytes (off + length xs) ys (put_bytes off xs p) = put_bytes off (xs @ ys) p"
  using assms by (simp add: put_bytes_def ac_simps)

lemma length_put [simp]: "off + length bs \<le> length p \<Longrightarrow> length (put_bytes off bs p) = length p"
  by (simp add: put_bytes_def)

lemma list4:
  obtains "length (p :: 'a list) < 4" | a b c d r where "p = a # b # c # d # r"
  by (cases p; cases "tl p"; cases "tl (tl p)"; cases "tl (tl (tl p))") auto

lemma put_1: "off < length p \<Longrightarrow> p[off := x] = put_bytes off [x] p"
  by (simp add: put_bytes_def upd_conv_take_nth_drop)

definition bytes16 :: "u16 \<Rightarrow> u8 list" where
  "bytes16 v = [ucast (v AND 0xFF), ucast (drop_bit 8 v AND 0xFF)]"

definition bytes32 :: "u32 \<Rightarrow> u8 list" where
  "bytes32 v = [ucast (v AND 0xFF), ucast (drop_bit 8 v AND 0xFF), ucast (drop_bit 16 v AND 0xFF),
     ucast (drop_bit 24 v AND 0xFF)]"

lemma length_bytes [simp]: "length (bytes16 v) = 2" "length (bytes32 w) = 4"
  by (simp_all add: bytes16_def bytes32_def)

lemma write16: "off + 2 \<le> length p \<Longrightarrow> lb__write_u16_le p off v = put_bytes off (bytes16 v) p"
  using put_put [of off "[ucast (v AND 0xFF)]" "[ucast (drop_bit 8 v AND 0xFF)]" p]
  by (simp add: lb__write_u16_le_def bytes16_def put_1)

lemma write32: "off + 4 \<le> length p \<Longrightarrow> lb__write_u32_le p off v = put_bytes off (bytes32 v) p"
  using put_put [of off "[ucast (v AND 0xFF)]" "[ucast (drop_bit 8 v AND 0xFF)]" p]
    put_put [of off "[ucast (v AND 0xFF), ucast (drop_bit 8 v AND 0xFF)]" "[ucast (drop_bit 16 v AND 0xFF)]" p]
    put_put [of off "[ucast (v AND 0xFF), ucast (drop_bit 8 v AND 0xFF), ucast (drop_bit 16 v AND 0xFF)]"
      "[ucast (drop_bit 24 v AND 0xFF)]" p]
  by (simp add: lb__write_u32_le_def bytes32_def put_1 eval_nat_numeral)

definition record_bytes :: "nat \<Rightarrow> calib_state \<Rightarrow> u8 list" where
  "record_bytes op s =
     (let g = lb__calib_compute_suggested s in
      [of_nat op, if c_active s \<noteq> 0 then 1 else 0] @ bytes16 0 @
      bytes16 (g_ram_p50 g) @ bytes16 (g_ram_p95 g) @ bytes16 (g_ram_p99 g) @ bytes16 (g_ram_max g) @
      bytes32 (g_duration_p95_us g) @ bytes32 (g_duration_p99_us g) @ bytes32 (g_duration_max_us g) @
      bytes16 (g_suggested_ram_limit g) @ bytes16 (g_outlier_count g) @ bytes32 (g_sample_count g) @
      bytes32 (g_suggested_time_limit_us g) @ bytes32 (c_target_samples s))"

lemma length_record [simp]: "length (record_bytes op s) = 40"
  by (simp add: record_bytes_def Let_def)

lemma put_next:
  assumes "k = length xs" and "off + k + length ys \<le> length p"
  shows "put_bytes (off + k) ys (put_bytes off xs p) = put_bytes off (xs @ ys) p"
  using assms put_put [of off xs ys p] by simp

lemma export_record_bytes:
  assumes "off + 40 \<le> length p"
  shows "export_record p off op s = put_bytes off (record_bytes op s) p"
proof -
  have flags: "(put_bytes off [x] p)[off + 1 := y] = put_bytes off [x, y] p" for x y
    using assms put_next [of 1 "[x]" off "[y]" p] by (simp add: put_1)
  show ?thesis
    using assms
    by (simp only: export_record_def Let_def put_1 flags write16 write32 put_next length_put length_bytes
        length_append list.size append_Cons append_Nil) (simp add: record_bytes_def Let_def)
qed

section \<open>Reading what was written\<close>

lemma byte_of: "unat (ucast (drop_bit n (v :: 'a :: len word) AND 0xFF) :: u8) = unat (drop_bit n v) mod 256"
proof -
  have "(drop_bit n v AND 0xFF) = take_bit 8 (drop_bit n v)" by (simp add: take_bit_eq_mask mask_eq_exp_minus_1)
  then have "unat (ucast (drop_bit n v AND 0xFF) :: u8) = unat (ucast (take_bit 8 (drop_bit n v)) :: u8)" by simp
  also have "\<dots> = unat (drop_bit n v) mod 256"
    by (simp add: unat_ucast_mod unsigned_take_bit_eq take_bit_nat_def)
  finally show ?thesis .
qed

lemma low_byte: "unat (ucast ((v :: 'a :: len word) AND 0xFF) :: u8) = unat v mod 256"
  using byte_of [of 0 v] by simp

lemma le16_bytes: "le16 (bytes16 v) 0 = unat v"
  using unat_u16_bound [of v]
  by (simp add: le16_def bytes16_def byte_of low_byte unat_drop_bit_eq drop_bit_nat_def)

lemma two_bytes: "(n :: nat) mod 256 + 256 * (n div 256 mod 256) = n mod 65536"
  using mod_mult2_eq [of n 256 256] by simp

lemma le32_bytes: "le32 (bytes32 v) 0 = unat v"
proof -
  let ?n = "unat v"
  have "?n div 65536 < 65536" using unat_u32_bound [of v] by (simp add: less_mult_imp_div_less)
  then have high: "?n div 65536 mod 65536 = ?n div 65536" by simp
  have "?n div 65536 div 256 = ?n div 16777216" by (simp add: div_mult2_eq [symmetric])
  then have "le32 (bytes32 v) 0 = (?n mod 256 + 256 * (?n div 256 mod 256)) +
      65536 * (?n div 65536 mod 256 + 256 * (?n div 65536 div 256 mod 256))"
    by (simp add: le32_def le16_def bytes32_def byte_of low_byte unat_drop_bit_eq drop_bit_nat_def)
  also have "\<dots> = ?n mod 65536 + 65536 * (?n div 65536)" by (simp only: two_bytes high)
  finally show ?thesis by simp
qed

text \<open>The bytes as opaque values, so that reading a record is reading forty list elements.\<close>

definition byte_at :: "'a :: len word \<Rightarrow> nat \<Rightarrow> u8" where
  "byte_at v k = ucast (drop_bit (8 * k) v AND 0xFF)"

lemma bytes_at:
  "bytes16 v = [byte_at v 0, byte_at v 1]"
  "bytes32 w = [byte_at w 0, byte_at w 1, byte_at w 2, byte_at w 3]"
  by (simp_all add: bytes16_def bytes32_def byte_at_def)

lemma sum_bytes:
  "unat (byte_at (v :: u16) 0) + 256 * unat (byte_at v 1) = unat v"
  "unat (byte_at (w :: u32) 0) + 256 * unat (byte_at w 1) +
     (65536 * unat (byte_at w 2) + 16777216 * unat (byte_at w 3)) = unat w"
  using le16_bytes [of v] le32_bytes [of w] by (simp_all add: bytes_at le16_def le32_def)

lemma read_record_bytes:
  assumes "op < 256"
  shows "read_record (record_bytes op s) 0 = calib_report op s"
proof -
  have "unat (of_nat op :: u8) = op" using assms by (simp add: unat_of_nat take_bit_nat_eq_self_iff)
  then show ?thesis
    by (simp add: read_record_def calib_report_def record_bytes_def Let_def bytes_at le16_def le32_def
        sum_bytes [unfolded One_nat_def] del: mult_Suc_right)
qed

text \<open>A record is read from its forty bytes, wherever they stand.\<close>

lemma le16_window: "k + 2 \<le> n \<Longrightarrow> i + n \<le> length p \<Longrightarrow> le16 (take n (drop i p)) k = le16 p (i + k)"
  by (simp add: le16_def add.assoc)

lemma le32_window: "k + 4 \<le> n \<Longrightarrow> i + n \<le> length p \<Longrightarrow> le32 (take n (drop i p)) k = le32 p (i + k)"
  by (simp add: le32_def le16_window add.assoc)

lemma read_record_window:
  assumes "i + 40 \<le> length p"
  shows "read_record p i = read_record (take 40 (drop i p)) 0"
  using assms by (simp add: read_record_def le16_window le32_window)

lemma block_of_concat:
  assumes "\<forall>x\<in>set xs. length (f x) = n" and "k < length xs"
  shows "take n (drop (n * k) (concat (map f xs))) = f (xs ! k)"
  using assms
proof (induction xs arbitrary: k)
  case Nil
  then show ?case by simp
next
  case (Cons x xs)
  then show ?case by (cases k) (simp_all add: add.commute)
qed

section \<open>The whole export\<close>

lemma rec_count_filter:
  "rec_count b = of_nat (length (filter (\<lambda>op. calib_listed (t_calib b ! op)) [0..<unat (b_max_ops b)]))"
proof -
  have "foldl (\<lambda>n op. if Q op then n + 1 else n) c xs = c + of_nat (length (filter Q xs))"
    for Q :: "nat \<Rightarrow> bool" and c :: u32 and xs
    by (induction xs arbitrary: c) auto
  then show ?thesis by (simp add: rec_count_def)
qed

lemma export_loop:
  assumes "off + 40 * length (filter (\<lambda>op. calib_listed (t_calib b ! op)) ops) \<le> length p"
  defines "listed \<equiv> filter (\<lambda>op. calib_listed (t_calib b ! op)) ops"
  shows "foldl (export_step b) (p, off) ops =
    (put_bytes off (concat (map (\<lambda>op. record_bytes op (t_calib b ! op)) listed)) p, off + 40 * length listed)"
  using assms(1) unfolding listed_def
proof (induction ops rule: rev_induct)
  case Nil
  then show ?case by (simp add: put_bytes_def)
next
  case (snoc op ops)
  let ?c = "concat (map (\<lambda>op. record_bytes op (t_calib b ! op)) (filter (\<lambda>op. calib_listed (t_calib b ! op)) ops))"
  have len: "length ?c = 40 * length (filter (\<lambda>op. calib_listed (t_calib b ! op)) ops)"
    by (induction ops) simp_all
  show ?case
    using snoc len by (auto simp: export_step_def export_record_bytes put_next)
qed

definition export_bytes :: "loxbudget \<Rightarrow> u8 list" where
  "export_bytes b =
     (let listed = filter (\<lambda>op. calib_listed (t_calib b ! op)) [0..<unat (b_max_ops b)] in
      [2, of_nat (length listed), 0, 0] @ concat (map (\<lambda>op. record_bytes op (t_calib b ! op)) listed))"

lemma small_u64: "m \<le> 1000 \<Longrightarrow> unat (of_nat m :: u64) = m"
  by (simp add: unat_of_nat take_bit_nat_eq_self_iff)

lemma listed_bound:
  assumes "lb_shape B b"
  shows "length (filter Q [0..<unat (b_max_ops b)]) \<le> 16"
proof -
  have "unat (b_max_ops b) \<le> 16" using assms by (simp add: lb_shape_def size_shape_def)
  then show ?thesis using length_filter_le [of Q "[0..<unat (b_max_ops b)]"] by simp
qed

lemma length_export_bytes: "length (export_bytes b) = 4 + 40 * length (calib_reports b)"
proof -
  have "length (concat (map (\<lambda>op. record_bytes op (f op)) xs)) = 40 * length xs" for f xs
    by (induction xs) simp_all
  then show ?thesis by (simp add: export_bytes_def calib_reports_def Let_def)
qed

lemma export_size_value:
  assumes "calib_on B" and "lb_shape B b" and "b_calib_off b \<noteq> 0"
  shows "loxbudget_calibration_export_size B (Some b) (Some n) =
    (LOXBUDGET_OK, Some (of_nat (length (export_bytes b))))"
proof -
  let ?n = "length (filter (\<lambda>op. calib_listed (t_calib b ! op)) [0..<unat (b_max_ops b)])"
  have "?n \<le> 16" by (rule listed_bound [OF assms(2)])
  then have "(ucast (of_nat ?n :: u32) :: u64) = of_nat ?n"
    by (intro word_unat_eq_iff [THEN iffD2]) (simp add: unat_of_nat take_bit_nat_eq_self_iff)
  moreover have "b_magic b \<noteq> 0" using assms(2) shape_magic by (simp add: LOXBUDGET_MAGIC_INIT_def)
  ultimately show ?thesis
    using assms(1,3)
    by (simp add: loxbudget_calibration_export_size_def lb__validate_budget_def rec_count_filter
        length_export_bytes calib_reports_def)
qed

lemma export_writes:
  assumes "calib_on B" and "lb_shape B b" and "b_calib_off b \<noteq> 0"
    and "length (export_bytes b) \<le> length p" and "length p = unat n"
  shows "loxbudget_calibration_export B (Some b) (Some p) n (Some w) =
    (LOXBUDGET_OK, Some (put_bytes 0 (export_bytes b) p), Some (of_nat (length (export_bytes b))))"
proof -
  let ?listed = "filter (\<lambda>op. calib_listed (t_calib b ! op)) [0..<unat (b_max_ops b)]"
  have few: "length ?listed \<le> 16" by (rule listed_bound [OF assms(2)])
  have size: "length (export_bytes b) = 4 + 40 * length ?listed"
    by (simp add: length_export_bytes calib_reports_def)
  then have room: "4 + 40 * length ?listed \<le> length p" using assms(4) by simp
  have count: "(ucast (rec_count b) :: u8) = of_nat (length ?listed)"
    using few unfolding rec_count_filter
    by (intro word_unat_eq_iff [THEN iffD2]) (simp add: unat_ucast_mod unat_of_nat take_bit_nat_eq_self_iff)
  have head: "p[0 := 2, 1 := ucast (rec_count b), 2 := 0, 3 := 0] =
      put_bytes 0 [2, of_nat (length ?listed), 0, 0] p"
    using room unfolding count by (cases p rule: list4) (simp_all add: put_bytes_def)
  have "length (export_bytes b) \<le> 1000" using few by (simp add: size)
  then have "\<not> n < of_nat (length (export_bytes b))"
    using assms(4,5) by (simp only: word_less_nat_alt small_u64 not_less)
  moreover have "b_magic b \<noteq> 0" using assms(2) shape_magic by (simp add: LOXBUDGET_MAGIC_INIT_def)
  moreover have "foldl (export_step b) (p[0 := 2, 1 := ucast (rec_count b), 2 := 0, 3 := 0], 4) [0..<unat (b_max_ops b)] =
      (put_bytes 0 (export_bytes b) p, length (export_bytes b))"
  proof -
    let ?h = "[2, of_nat (length ?listed), 0, 0]"
      and ?c = "concat (map (\<lambda>op. record_bytes op (t_calib b ! op)) ?listed)"
    have bytes: "export_bytes b = ?h @ ?c" by (simp add: export_bytes_def Let_def)
    have "put_bytes 4 ?c (put_bytes 0 ?h p) = put_bytes 0 (?h @ ?c) p"
      using put_next [of 4 ?h 0 ?c p] assms(4) bytes by simp
    then show ?thesis
      unfolding head using export_loop [of 4 b "[0..<unat (b_max_ops b)]" "put_bytes 0 ?h p"] room
      by (simp add: size) (simp add: bytes)
  qed
  ultimately show ?thesis
    using assms(1,3)
    by (simp add: loxbudget_calibration_export_def lb__validate_budget_def Let_def
        export_size_value [OF assms(1-3)])
qed

lemma read_export_bytes:
  assumes "lb_shape B b"
  shows "read_export (export_bytes b @ ys) = Some (calib_reports b)"
proof -
  let ?listed = "filter (\<lambda>op. calib_listed (t_calib b ! op)) [0..<unat (b_max_ops b)]"
  let ?f = "\<lambda>op. record_bytes op (t_calib b ! op)"
  have few: "length ?listed \<le> 16" and ops: "unat (b_max_ops b) \<le> 16"
    using listed_bound [OF assms] assms by (simp_all add: lb_shape_def size_shape_def)
  have head: "(export_bytes b @ ys) ! 0 = 2" "unat ((export_bytes b @ ys) ! 1) = length ?listed"
    using few by (simp_all add: export_bytes_def Let_def unat_of_nat take_bit_nat_eq_self_iff)
  have at: "read_record (export_bytes b @ ys) (4 + 40 * k) = calib_report (?listed ! k) (t_calib b ! (?listed ! k))"
    if k: "k < length ?listed" for k
  proof -
    have len: "4 + 40 * k + 40 \<le> length (export_bytes b)"
      using k by (simp add: length_export_bytes calib_reports_def)
    have window: "take 40 (drop (4 + 40 * k) (export_bytes b @ ys)) = ?f (?listed ! k)"
    proof -
      obtain h where h: "length h = 4" "export_bytes b = h @ concat (map ?f ?listed)"
        using that [of "[2, of_nat (length ?listed), 0, 0]"] by (simp add: export_bytes_def Let_def)
      have "40 * k + 40 \<le> length (concat (map ?f ?listed))"
        using len h by simp
      then show ?thesis
        using block_of_concat [of ?listed ?f 40 k] k by (simp add: h)
    qed
    have "?listed ! k < 256" using nth_mem [OF k] ops by auto
    moreover have "4 + 40 * k + 40 \<le> length (export_bytes b @ ys)" using len by simp
    ultimately show ?thesis by (simp only: read_record_window window read_record_bytes)
  qed
  have "map (\<lambda>k. read_record (export_bytes b @ ys) (4 + 40 * k)) [0..<length ?listed] = calib_reports b"
    by (rule nth_equalityI) (simp_all add: calib_reports_def at)
  then show ?thesis
    by (simp add: read_export_def head [unfolded One_nat_def] length_export_bytes) (simp add: calib_reports_def)
qed

section \<open>Properties\<close>

text \<open>
  C24. An export into a buffer of at least the size that \<open>loxbudget_calibration_export_size\<close>
  returns succeeds and reports exactly that size. Read by the documented format, the buffer
  then lists one record for every operation with samples or an active session, in the order of
  their ids, with the values of the report; the rest of the buffer is untouched. A smaller
  buffer is refused with NO_SPACE and left as it was.
\<close>

theorem export_roundtrip:
  assumes ok: "calib_on B" "lb_shape B b" "b_calib_off b \<noteq> 0" and buffer: "length p = unat n"
    and size: "loxbudget_calibration_export_size B (Some b) (Some s0) = (st, Some need)"
    and call: "loxbudget_calibration_export B (Some b) (Some p) n (Some w) = (st', out, written)"
  shows "st = LOXBUDGET_OK \<and> unat need = 4 + 40 * length (calib_reports b) \<and>
    (if n < need then st' = LOXBUDGET_ERR_NO_SPACE \<and> out = Some p \<and> written = Some w
     else st' = LOXBUDGET_OK \<and> written = Some need \<and>
       (\<exists>p'. out = Some p' \<and> length p' = length p \<and> read_export p' = Some (calib_reports b) \<and>
         drop (unat need) p' = drop (unat need) p))"
proof -
  let ?m = "length (export_bytes b)"
  have st: "st = LOXBUDGET_OK" "need = of_nat ?m" using size export_size_value [OF ok] by simp_all
  have "length (calib_reports b) \<le> 16" using listed_bound [OF ok(2)] by (simp add: calib_reports_def)
  then have "?m \<le> 1000" by (simp add: length_export_bytes)
  then have m: "unat need = ?m" "?m = 4 + 40 * length (calib_reports b)"
    unfolding st(2) by (rule small_u64) (rule length_export_bytes)
  show ?thesis
  proof (cases "n < need")
    case True
    have "b_magic b \<noteq> 0" using ok(2) shape_magic by (simp add: LOXBUDGET_MAGIC_INIT_def)
    then have "loxbudget_calibration_export B (Some b) (Some p) n (Some w) = (LOXBUDGET_ERR_NO_SPACE, Some p, Some w)"
      using True ok export_size_value [OF ok]
      by (simp add: loxbudget_calibration_export_def lb__validate_budget_def Let_def st(2))
    then show ?thesis using True st m call by simp
  next
    case False
    then have room: "?m \<le> length p" using buffer m by (simp add: word_less_nat_alt)
    let ?p = "put_bytes 0 (export_bytes b) p"
    have result: "st' = LOXBUDGET_OK" "out = Some ?p" "written = Some need"
      using export_writes [OF ok room buffer, of w] call st by simp_all
    have "read_export ?p = Some (calib_reports b)" "length ?p = length p" "drop (unat need) ?p = drop (unat need) p"
      using read_export_bytes [OF ok(2)] room m by (simp_all add: put_bytes_def)
    then show ?thesis using False result st m by simp
  qed
qed

definition calibrated :: loxbudget where
  "calibrated = put_calib 0 (calib_state_of 0 5 five_samples) sample_ops"

theorem export_roundtrip_witness:
  "\<exists>p'. loxbudget_calibration_export fixed_build (Some calibrated) (Some (replicate 50 7)) 50 (Some 0) =
     (LOXBUDGET_OK, Some p', Some 44) \<and> read_export p' = Some (calib_reports calibrated) \<and> drop 44 p' = replicate 6 7"
proof -
  have shape: "lb_shape fixed_build calibrated"
    using sample_ops_ok
    by (simp add: calibrated_def lb_shape_def size_shape_def feature_shape_def audit_shape_def)
  have off: "b_calib_off calibrated \<noteq> 0" using sample_ready by (simp add: calibrated_def calib_ready_def)
  have one: "length (calib_reports calibrated) = 1" by code_simp
  obtain st s where size: "loxbudget_calibration_export_size fixed_build (Some calibrated) (Some 0) = (st, Some s)"
    using export_size_value [OF _ shape off] by (simp add: fixed_build_def)
  obtain st' out written where call: "loxbudget_calibration_export fixed_build (Some calibrated)
      (Some (replicate 50 7)) 50 (Some 0) = (st', out, written)"
    by (cases "loxbudget_calibration_export fixed_build (Some calibrated) (Some (replicate 50 7)) 50 (Some 0)")
  have facts: "calib_on fixed_build" "length (replicate 50 (7 :: u8)) = unat (50 :: u64)"
    by (simp_all add: fixed_build_def)
  note result = export_roundtrip [OF facts(1) shape off facts(2) size call]
  then have "unat s = 44" using one by simp
  moreover from this have "s = 44" by (intro word_unat_eq_iff [THEN iffD2]) simp
  ultimately show ?thesis using result call by auto
qed

end
