(* ===== verification/LB_Strings.thy ===== *)
theory LB_Strings
  imports LB_Types
begin

text \<open>
  The diagnostic names (\<open>src/loxbudget_strings.c\<close>), with the stubs of the header that return
  NULL when the feature is off. An enum argument arrives as the \<open>int\<close> it is cast to; a name
  is \<open>None\<close> for NULL.
\<close>

section \<open>Definitions\<close>

definition k_action_names :: "string list" where
  "k_action_names = [''ALLOW_FULL'', ''ALLOW_DEGRADED'', ''WAIT'', ''REJECT'', ''LOCKDOWN'']"

definition k_pressure_names :: "string list" where
  "k_pressure_names = [''NORMAL'', ''ELEVATED'', ''CRITICAL'', ''SURVIVAL'', ''LOCKDOWN'']"

definition k_reason_names :: "string list" where
  "k_reason_names =
     [''OK'', ''INSUFFICIENT_RES'', ''RATE_LIMIT'', ''LIFETIME_EXHAUSTED'', ''PRESSURE_BLOCK'',
      ''LOCKDOWN_ACTIVE'', ''PRECONDITION_FAIL'', ''CAUSAL_CASCADE'', ''UNKNOWN_OP'',
      ''HAL_NOT_CONFIGURED'']"

definition k_status_names :: "string list" where
  "k_status_names =
     [''OK'', ''ERR_INVALID_ARG'', ''ERR_NOT_INITIALIZED'', ''ERR_NO_SPACE'', ''ERR_NOT_FOUND'',
      ''ERR_DUPLICATE'', ''ERR_OVERFLOW'', ''ERR_BAD_STATE'', ''ERR_FEATURE_DISABLED'',
      ''ERR_HAL_NOT_CONFIGURED'', ''ERR_ALIGNMENT'', ''ERR_VERSION_MISMATCH'']"

definition lb__name_in_range :: "string list \<Rightarrow> nat \<Rightarrow> int \<Rightarrow> string option" where
  "lb__name_in_range table n idx =
     (if idx < 0 then None else if nat idx \<ge> n then None else Some (table ! nat idx))"

definition loxbudget_action_name :: "bool \<Rightarrow> int \<Rightarrow> string option" where
  "loxbudget_action_name strings_on a =
     (if \<not> strings_on then None else lb__name_in_range k_action_names (length k_action_names) a)"

definition loxbudget_pressure_name :: "bool \<Rightarrow> int \<Rightarrow> string option" where
  "loxbudget_pressure_name strings_on p =
     (if \<not> strings_on then None else lb__name_in_range k_pressure_names (length k_pressure_names) p)"

definition loxbudget_reason_name :: "bool \<Rightarrow> int \<Rightarrow> string option" where
  "loxbudget_reason_name strings_on r =
     (if \<not> strings_on then None else lb__name_in_range k_reason_names (length k_reason_names) r)"

definition loxbudget_status_name :: "bool \<Rightarrow> int \<Rightarrow> string option" where
  "loxbudget_status_name strings_on s =
     (if \<not> strings_on then None
      else let idx = (if s \<le> 0 then - s else 999999)
           in lb__name_in_range k_status_names (length k_status_names) idx)"

text \<open>The values the header gives the status constants.\<close>

fun status_code :: "loxbudget_status \<Rightarrow> int" where
  "status_code LOXBUDGET_OK = 0"
| "status_code LOXBUDGET_ERR_INVALID_ARG = - 1"
| "status_code LOXBUDGET_ERR_NOT_INITIALIZED = - 2"
| "status_code LOXBUDGET_ERR_NO_SPACE = - 3"
| "status_code LOXBUDGET_ERR_NOT_FOUND = - 4"
| "status_code LOXBUDGET_ERR_DUPLICATE = - 5"
| "status_code LOXBUDGET_ERR_OVERFLOW = - 6"
| "status_code LOXBUDGET_ERR_BAD_STATE = - 7"
| "status_code LOXBUDGET_ERR_FEATURE_DISABLED = - 8"
| "status_code LOXBUDGET_ERR_HAL_NOT_CONFIGURED = - 9"
| "status_code LOXBUDGET_ERR_ALIGNMENT = - 10"
| "status_code LOXBUDGET_ERR_VERSION_MISMATCH = - 11"

section \<open>Lookups\<close>

lemma name_in_range_Some:
  "lb__name_in_range table (length table) i = Some n \<longleftrightarrow> 0 \<le> i \<and> nat i < length table \<and> table ! nat i = n"
  by (auto simp: lb__name_in_range_def)

lemma name_in_range_None:
  "lb__name_in_range table (length table) i = None \<longleftrightarrow> i < 0 \<or> int (length table) \<le> i"
  by (auto simp: lb__name_in_range_def)

text \<open>In a table without repetitions a name determines its index.\<close>

lemma name_in_range_inj:
  assumes "distinct table" and "lb__name_in_range table (length table) i = Some n"
    and "lb__name_in_range table (length table) j = Some n"
  shows "i = j"
proof -
  have "nat i = nat j" and "0 \<le> i" and "0 \<le> j"
    using assms by (auto simp: name_in_range_Some nth_eq_iff_index_eq)
  then show ?thesis by simp
qed

lemma tables_distinct:
  "distinct k_action_names" "distinct k_pressure_names" "distinct k_reason_names" "distinct k_status_names"
  by (simp_all add: k_action_names_def k_pressure_names_def k_reason_names_def k_status_names_def)

lemma tables_length:
  "length k_action_names = 5" "length k_pressure_names = 5" "length k_reason_names = 10" "length k_status_names = 12"
  by (simp_all add: k_action_names_def k_pressure_names_def k_reason_names_def k_status_names_def)

text \<open>The names of the enumerators that fit a byte; an \<open>OTHER\<close> value has none.\<close>

lemma action_names:
  "loxbudget_action_name True (uint (u8_of_action LOXBUDGET_ALLOW_FULL)) = Some ''ALLOW_FULL''"
  "loxbudget_action_name True (uint (u8_of_action LOXBUDGET_LOCKDOWN)) = Some ''LOCKDOWN''"
  "5 \<le> a \<Longrightarrow> loxbudget_action_name True a = None"
  by (simp_all add: loxbudget_action_name_def lb__name_in_range_def k_action_names_def)

lemma pressure_names:
  "loxbudget_pressure_name True (uint (u8_of_pressure LOXBUDGET_PRESSURE_NORMAL)) = Some ''NORMAL''"
  "loxbudget_pressure_name True (uint (u8_of_pressure LOXBUDGET_PRESSURE_LOCKDOWN)) = Some ''LOCKDOWN''"
  "5 \<le> p \<Longrightarrow> loxbudget_pressure_name True p = None"
  by (simp_all add: loxbudget_pressure_name_def lb__name_in_range_def k_pressure_names_def)

lemma reason_has_name: "loxbudget_reason_name True (uint (u8_of_reason r)) \<noteq> None"
  by (cases r) (simp_all add: loxbudget_reason_name_def lb__name_in_range_def k_reason_names_def)

lemma reason_name_inj:
  assumes "loxbudget_reason_name True (uint (u8_of_reason r)) = loxbudget_reason_name True (uint (u8_of_reason r'))"
  shows "r = r'"
proof -
  have "uint (u8_of_reason r) = uint (u8_of_reason r')"
    using assms reason_has_name [of r] reason_has_name [of r']
    by (auto simp: loxbudget_reason_name_def intro: name_in_range_inj [OF tables_distinct(3)])
  then show ?thesis by (cases r; cases r') simp_all
qed

section \<open>Properties\<close>

text \<open>
  Status names: a code has a name exactly when it is the value of a status constant of the
  header, and two codes with the same name are equal. (Positive codes, which no constant has,
  and codes below the last one give NULL.)
\<close>

theorem status_names_exact:
  "(loxbudget_status_name True c \<noteq> None \<longleftrightarrow> (\<exists>s. c = status_code s)) \<and>
   (loxbudget_status_name True c = loxbudget_status_name True c' \<and> loxbudget_status_name True c \<noteq> None
     \<longrightarrow> c = c')"
proof -
  have dom: "loxbudget_status_name True c \<noteq> None \<longleftrightarrow> c \<le> 0 \<and> - 12 < c" for c
    by (auto simp: loxbudget_status_name_def Let_def lb__name_in_range_def tables_length)
  have codes: "(\<exists>s. c = status_code s) \<longleftrightarrow> c \<le> 0 \<and> - 12 < c"
  proof
    assume "\<exists>s. c = status_code s"
    then obtain s where "c = status_code s" by blast
    then show "c \<le> 0 \<and> - 12 < c" by (cases s) simp_all
  next
    assume "c \<le> 0 \<and> - 12 < c"
    then have "c \<in> {- 11..0}" by simp
    also have "{- 11..0 :: int} = status_code ` {LOXBUDGET_OK, LOXBUDGET_ERR_INVALID_ARG,
        LOXBUDGET_ERR_NOT_INITIALIZED, LOXBUDGET_ERR_NO_SPACE, LOXBUDGET_ERR_NOT_FOUND,
        LOXBUDGET_ERR_DUPLICATE, LOXBUDGET_ERR_OVERFLOW, LOXBUDGET_ERR_BAD_STATE,
        LOXBUDGET_ERR_FEATURE_DISABLED, LOXBUDGET_ERR_HAL_NOT_CONFIGURED, LOXBUDGET_ERR_ALIGNMENT,
        LOXBUDGET_ERR_VERSION_MISMATCH}"
      by (auto; presburger)
    finally show "\<exists>s. c = status_code s" by blast
  qed
  have "c = c'" if same: "loxbudget_status_name True c = loxbudget_status_name True c'"
    and some: "loxbudget_status_name True c \<noteq> None"
  proof -
    obtain n where "loxbudget_status_name True c = Some n" "loxbudget_status_name True c' = Some n"
      using same some by auto
    moreover have "c \<le> 0" "c' \<le> 0" using dom [of c] dom [of c'] calculation by auto
    ultimately have "- c = - c'"
      by (intro name_in_range_inj [OF tables_distinct(4)]) (simp_all add: loxbudget_status_name_def)
    then show ?thesis by simp
  qed
  then show ?thesis using dom codes by blast
qed

theorem status_names_exact_witness:
  "loxbudget_status_name True (- 3) = Some ''ERR_NO_SPACE'' \<and> loxbudget_status_name True 3 = None \<and>
   (loxbudget_status_name True (- 3) \<noteq> None \<longleftrightarrow> (\<exists>s. - 3 = status_code s))"
  using status_names_exact [of "- 3" "- 3"]
  by (simp add: loxbudget_status_name_def lb__name_in_range_def k_status_names_def)

end
