(* ===== verification/LB_Api.thy ===== *)
theory LB_Api
  imports LB_Clients LB_Calibration
begin

text \<open>
  The API as a whole: one constructor per function that changes a live instance or calls the
  HAL, a step that makes the call, and runs of calls after \<open>loxbudget_init\<close>. What every
  function keeps is a contract, stated as a locale and interpreted on each of the functions;
  the properties of runs follow from the contract alone.
\<close>

section \<open>The contract of an API function\<close>

text \<open>
  The counters: every decision is a grant or a denial. They are 32-bit and wrap, so the
  equation is one of words.
\<close>

definition counted :: "loxbudget \<Rightarrow> bool" where
  "counted b \<longleftrightarrow> b_total_decisions b = b_total_grants b + b_total_denials b"

definition live_ok :: "build \<Rightarrow> loxbudget \<Rightarrow> bool" where
  "live_ok B b \<longleftrightarrow> inst_ok B b \<and> counted b"

locale api_function =
  fixes B :: build and run :: "loxbudget \<times> 'e \<Rightarrow> loxbudget \<times> 'e"
  assumes keeps_inst: "inst_ok B (fst s) \<Longrightarrow> inst_ok B (fst (run s))"
    and keeps_count: "inst_ok B (fst s) \<Longrightarrow> counted (fst s) \<Longrightarrow> counted (fst (run s))"
    and keeps_hal: "inst_ok B (fst s) \<Longrightarrow> same_hal (fst s) (fst (run s))"
begin

lemma run_ok: "live_ok B (fst s) \<Longrightarrow> live_ok B (fst (run s)) \<and> same_hal (fst s) (fst (run s))"
  by (simp add: live_ok_def keeps_inst keeps_count keeps_hal)

end

section \<open>The functions\<close>

text \<open>An instance that differs only where the invariant does not look, or keeps its parts.\<close>

lemma inst_transfer:
  assumes "inst_ok B b" and "same_config b c" and "lb_shape B c" and "live_edges c = live_edges b"
    and "books_ok c"
  shows "inst_ok B c"
  using assms same_config_ok [OF assms(2) inst_okD(5,2) [OF assms(1)]]
  by (simp add: inst_ok_def same_config_def)

text \<open>The three configuration functions.\<close>

lemma config_frames:
  "same_hal b (snd (loxbudget_set_resource b r l k))" "same_hal b (snd (loxbudget_register_op b po))"
  "same_hal b (snd (loxbudget_op_set_need b op r a))"
  "counted (snd (loxbudget_set_resource b r l k)) = counted b" "counted (snd (loxbudget_register_op b po)) = counted b"
  "counted (snd (loxbudget_op_set_need b op r a)) = counted b"
  by (simp_all add: loxbudget_set_resource_def loxbudget_register_op_def loxbudget_op_set_need_def
      Let_def counted_def same_hal_def split: option.splits)

lemma config_graph:
  "live_edges (snd (loxbudget_set_resource b r l k)) = live_edges b"
  "live_edges (snd (loxbudget_register_op b po)) = live_edges b"
  "live_edges (snd (loxbudget_op_set_need b op r a)) = live_edges b"
  "b_max_ops (snd (loxbudget_set_resource b r l k)) = b_max_ops b"
  "b_max_ops (snd (loxbudget_register_op b po)) = b_max_ops b"
  "b_max_ops (snd (loxbudget_op_set_need b op r a)) = b_max_ops b"
  by (simp_all add: loxbudget_set_resource_def loxbudget_register_op_def loxbudget_op_set_need_def
      Let_def live_edges_def split: option.splits)

lemma config_books:
  "books_ok b \<Longrightarrow> books_ok (snd (loxbudget_set_resource b r l k))"
  "books_ok (snd (loxbudget_register_op b po)) = books_ok b"
  "books_ok (snd (loxbudget_op_set_need b op r' a)) = books_ok b"
proof -
  assume ok: "books_ok b"
  have "resource_ok \<lparr>r_limit = l, r_used = 0, r_reserved = 0, r_high_watermark = 0, r_kind = x, r_flags = y\<rparr>" for x y
    by (simp add: resource_ok_def)
  then show "books_ok (snd (loxbudget_set_resource b r l k))"
    using ok set_update_subset_insert [of "t_resources b"]
    by (fastforce simp: loxbudget_set_resource_def Let_def books_ok_def list_all_iff)
qed (simp_all add: loxbudget_register_op_def loxbudget_op_set_need_def Let_def books_ok_def split: option.splits)

lemma config_inst:
  assumes "inst_ok B b"
  shows "inst_ok B (snd (loxbudget_set_resource b r l k))" "inst_ok B (snd (loxbudget_register_op b po))"
    and "inst_ok B (snd (loxbudget_op_set_need b op r a))"
  using inst_okD [OF assms]
  by (simp_all add: inst_ok_def config_graph config_books set_resource_shape register_op_shape
      op_set_need_shape set_resource_config register_op_config op_set_need_config)

interpretation set_resource_fn:
  api_function B "\<lambda>(b, e). (snd (loxbudget_set_resource b r l k), e)" for B r l k
  by unfold_locales (auto simp: config_inst config_frames)

interpretation register_op_fn:
  api_function B "\<lambda>(b, e). (snd (loxbudget_register_op b po), e)" for B po
  by unfold_locales (auto simp: config_inst config_frames)

interpretation op_set_need_fn:
  api_function B "\<lambda>(b, e). (snd (loxbudget_op_set_need b op r a), e)" for B op r a
  by unfold_locales (auto simp: config_inst config_frames)

text \<open>Pressure and hook.\<close>

lemma pressure_frame:
  "same_hal b (fst (snd (loxbudget_set_pressure P b p e)))"
  "counted (fst (snd (loxbudget_set_pressure P b p e))) = counted b"
  by (simp_all add: loxbudget_set_pressure_def Let_def same_hal_def counted_def)

interpretation set_pressure_fn:
  api_function B "\<lambda>(b, e). snd (loxbudget_set_pressure P b p e)" for B P p
  by unfold_locales (auto simp: set_pressure_inst pressure_frame)

lemma hook_inst:
  assumes "inst_ok B b"
  shows "inst_ok B (snd (loxbudget_set_decision_hook b f u))"
proof (rule inst_transfer [OF assms])
  show "same_config b (snd (loxbudget_set_decision_hook b f u))"
    and "live_edges (snd (loxbudget_set_decision_hook b f u)) = live_edges b"
    by (simp_all add: loxbudget_set_decision_hook_def Let_def same_config_def live_edges_def)
  show "books_ok (snd (loxbudget_set_decision_hook b f u))"
    using inst_okD(4) [OF assms] by (simp add: loxbudget_set_decision_hook_def Let_def books_ok_def)
  show "lb_shape B (snd (loxbudget_set_decision_hook b f u))"
    by (rule set_decision_hook_shape [OF inst_okD(1) [OF assms]])
qed

lemma hook_frame:
  "same_hal b (snd (loxbudget_set_decision_hook b f u))"
  "counted (snd (loxbudget_set_decision_hook b f u)) = counted b"
  by (simp_all add: loxbudget_set_decision_hook_def Let_def same_hal_def counted_def)

interpretation set_decision_hook_fn:
  api_function B "\<lambda>(b, e). (snd (loxbudget_set_decision_hook b f u), e)" for B f u
  by unfold_locales (auto simp: hook_inst hook_frame)

text \<open>The rate table.\<close>

lemma rate_inst:
  assumes "inst_ok B b" and "rates_sized (t_rate b) rt"
  shows "inst_ok B (b\<lparr>t_rate := rt\<rparr>)"
proof -
  have eq: "b\<lparr>t_rate := rt\<rparr> = b\<lparr>t_resources := t_resources b, t_rate := rt, t_lease_slots := t_lease_slots b\<rparr>"
    by simp
  show ?thesis
    by (rule inst_transfer [OF assms(1)])
      (use inst_okD(1,4) [OF assms(1)] assms(2) in
        \<open>simp_all only: eq books_shape books_config\<close>, simp_all add: live_edges_def books_ok_def)
qed

lemma sized_upd: 
  assumes "\<And>x. length (rs_windows (f x)) = length (rs_windows x)"
  shows "rates_sized rt (upd_at i f rt)"
  using assms by (auto simp: rates_sized_def rate_table_ok_def list_all_length nth_upd_at)

definition rate_only :: "loxbudget \<Rightarrow> loxbudget \<Rightarrow> bool" where
  "rate_only b c \<longleftrightarrow> (\<exists>rt. c = b\<lparr>t_rate := rt\<rparr> \<and> rates_sized (t_rate b) rt)"

lemma rate_onlyI: "rates_sized (t_rate b) rt \<Longrightarrow> rate_only b (b\<lparr>t_rate := rt\<rparr>)"
  unfolding rate_only_def by blast

lemma rate_only_refl [simp]: "rate_only b b"
  using rate_onlyI [of b "t_rate b"] by (simp add: rates_sized_def)

lemma rate_only_inst: "rate_only b c \<Longrightarrow> inst_ok B b \<Longrightarrow> inst_ok B c"
  by (auto simp: rate_only_def rate_inst)

lemma rate_only_frame:
  assumes "rate_only b c"
  shows "same_hal b c" and "counted c = counted b"
  using assms by (auto simp: rate_only_def same_hal_def counted_def)

lemma set_rate_limit_only: "rate_only b (fst (snd (loxbudget_set_rate_limit B P b res w l e)))"
proof -
  have "rate_only b (upd_window res i g b)" for i g
    unfolding upd_window_def by (intro rate_onlyI sized_upd) simp
  then show ?thesis by (simp add: loxbudget_set_rate_limit_def Let_def split_def)
qed

lemma set_lifetime_only: "rate_only b (snd (loxbudget_set_lifetime_limit b res l))"
proof -
  have "rate_only b (b\<lparr>t_rate := upd_at (unat res) (\<lambda>rs. rs\<lparr>rs_limit_lifetime := l\<rparr>) (t_rate b)\<rparr>)"
    by (intro rate_onlyI sized_upd) simp
  then show ?thesis by (simp add: loxbudget_set_lifetime_limit_def Let_def)
qed

interpretation set_rate_limit_fn:
  api_function B "\<lambda>(b, e). snd (loxbudget_set_rate_limit B P b res w l e)" for B P res w l
  by unfold_locales
    (auto simp: rate_only_inst [OF set_rate_limit_only] rate_only_frame [OF set_rate_limit_only])

interpretation set_lifetime_fn:
  api_function B "\<lambda>(b, e). (snd (loxbudget_set_lifetime_limit b res l), e)" for B res l
  by unfold_locales
    (auto simp: rate_only_inst [OF set_lifetime_only] rate_only_frame [OF set_lifetime_only])

text \<open>The may-trigger graph.\<close>

definition trigger_added :: "build \<Rightarrow> loxbudget \<Rightarrow> u8 \<Rightarrow> u8 \<Rightarrow> c_enum \<Rightarrow> loxbudget" where
  "trigger_added B b p c k = the (snd (loxbudget_op_may_trigger B (Some b) p c k))"

lemma trigger_result:
  "\<exists>st. loxbudget_op_may_trigger B (Some b) p c k = (st, Some (trigger_added B b p c k))"
  "only_graph b (trigger_added B b p c k)"
proof -
  obtain st b' where r: "loxbudget_op_may_trigger B (Some b) p c k = (st, b')" by (metis prod.exhaust)
  then obtain b1 where b1: "b' = Some b1" "only_graph b b1" using may_trigger_frame by blast
  then show "\<exists>st. loxbudget_op_may_trigger B (Some b) p c k = (st, Some (trigger_added B b p c k))"
    and "only_graph b (trigger_added B b p c k)"
    using r by (simp_all add: trigger_added_def)
qed

lemma trigger_inst:
  assumes "inst_ok B b"
  shows "inst_ok B (trigger_added B b p c k)"
proof -
  obtain st where r: "loxbudget_op_may_trigger B (Some b) p c k = (st, Some (trigger_added B b p c k))"
    using trigger_result(1) by blast
  note f = trigger_result(2) [of b B p c k]
  have "config_ok (trigger_added B b p c k)"
    by (rule same_config_ok [OF only_graph_config [OF f] inst_okD(5,2) [OF assms]])
  moreover have "books_ok (trigger_added B b p c k)"
    using f inst_okD(4) [OF assms] by (auto simp: only_graph_def books_ok_def)
  ultimately show ?thesis
    using may_trigger_shape [OF r inst_okD(1,3) [OF assms]] by (simp add: inst_ok_def)
qed

lemma trigger_frame:
  "same_hal b (trigger_added B b p c k)" "counted (trigger_added B b p c k) = counted b"
  using trigger_result(2) [of b B p c k] by (auto simp: only_graph_def same_hal_def counted_def)

interpretation op_may_trigger_fn:
  api_function B "\<lambda>(b, e). (trigger_added B b p c k, e)" for B p c k
  by unfold_locales (auto simp: trigger_inst trigger_frame)

text \<open>Deciding, entering and leaving.\<close>

lemma check_counted:
  assumes "counted b"
  shows "counted (fst (snd (snd (loxbudget_check B P b op ok e))))"
proof (cases "b_magic b = LOXBUDGET_MAGIC_INIT \<and> ok")
  case True
  then have magic: "b_magic b = LOXBUDGET_MAGIC_INIT" and ok by simp_all
  obtain d g b1 e1 where v: "check_verdict B P b op e = (d, g, b1, e1)"
    and c: "loxbudget_check B P b op ok e = (LOXBUDGET_OK, Some d, check_finish B P b1 op d g e1)"
    by (rule check_run [OF magic, of B P op e]) (simp add: \<open>ok\<close>)
  note scratch_only_counters [OF check_verdict_frame [OF v]]
  then show ?thesis
    using assms by (simp add: c counted_def check_finish_counters)
next
  case False
  then show ?thesis using assms by (auto simp: loxbudget_check_def Let_def)
qed

interpretation check_fn:
  api_function B "\<lambda>(b, e). snd (snd (loxbudget_check B P b op ok e))" for B P op ok
  by unfold_locales (auto simp: check_inst check_counted check_frame_hal [OF check_frame_holds])

lemma books_frame:
  assumes "books_only b c"
  shows "same_hal b c" and "counted c = counted b"
  using books_only_fields [OF assms] by (simp_all add: counted_def)

lemma enter_frame:
  assumes "inst_ok B b"
  shows "same_hal b (fst (snd (snd (loxbudget_enter B P b op True e))))"
    and "counted b \<Longrightarrow> counted (fst (snd (snd (loxbudget_enter B P b op True e))))"
proof -
  let ?b = "checked B P b op e"
  have "same_hal b ?b" by (rule check_frame_hal [OF checked_frame])
  moreover have "same_hal ?b (entered ?b op i rt)" for i rt by (rule books_frame(1) [OF entered_books])
  ultimately have hal: "same_hal b ?b" "same_hal b (entered ?b op i rt)" for i rt
    by (auto simp: same_hal_def)
  have count: "counted b \<Longrightarrow> counted ?b" "counted (entered ?b op i rt) = counted ?b" for i rt
    by (simp_all add: checked_def check_counted books_frame(2) [OF entered_books])
  show "same_hal b (fst (snd (snd (loxbudget_enter B P b op True e))))"
    by (cases rule: enter_cases [OF inst_okD(1,2) [OF assms], of P op e, case_names denied full entered])
      (simp_all add: hal)
  show "counted b \<Longrightarrow> counted (fst (snd (snd (loxbudget_enter B P b op True e))))"
    by (cases rule: enter_cases [OF inst_okD(1,2) [OF assms], of P op e, case_names denied full entered])
      (simp_all add: count)
qed

text \<open>Without a place for the lease, entering stops after its check.\<close>

lemma enter_null:
  assumes "b_magic b = LOXBUDGET_MAGIC_INIT"
  shows "snd (snd (loxbudget_enter B P b op False e)) = snd (snd (loxbudget_check B P b op True e))"
proof -
  obtain d b' e' where "loxbudget_check B P b op True e = (LOXBUDGET_OK, Some d, b', e')"
    using check_returns [OF assms, of B P op e] by blast
  then show ?thesis by (simp add: loxbudget_enter_def enter_prepare_def)
qed

lemma enter_any:
  assumes "inst_ok B b"
  shows "inst_ok B (fst (snd (snd (loxbudget_enter B P b op ok e))))"
    and "same_hal b (fst (snd (snd (loxbudget_enter B P b op ok e))))"
    and "counted b \<Longrightarrow> counted (fst (snd (snd (loxbudget_enter B P b op ok e))))"
  using enter_null [OF shape_magic [OF inst_okD(1) [OF assms]], of B P op e]
  by (cases ok; simp add: assms enter_inst enter_frame check_inst check_counted check_frame_hal [OF check_frame_holds])+

interpretation enter_fn:
  api_function B "\<lambda>(b, e). snd (snd (loxbudget_enter B P b op ok e))" for B P op ok
  by unfold_locales (auto simp: enter_any)

lemma leave_frame:
  "same_hal b (fst (snd (loxbudget_leave P b l e)))"
  "counted (fst (snd (loxbudget_leave P b l e))) = counted b"
  by (cases rule: leave_cases [of b l P e]; simp add: books_frame [OF left_books])+

interpretation leave_fn:
  api_function B "\<lambda>(b, e). snd (loxbudget_leave P b l e)" for B P l
  by unfold_locales (auto simp: leave_inst leave_frame)

text \<open>The audit ring.\<close>

lemma audit_clear_cases:
  "fst (snd (loxbudget_audit_clear P b e)) = b \<or> fst (snd (loxbudget_audit_clear P b e)) = audit_reset b"
  by (simp add: loxbudget_audit_clear_def Let_def)

lemma audit_reset_inst:
  assumes "inst_ok B b"
  shows "inst_ok B (audit_reset b)"
proof (rule inst_transfer [OF assms])
  have "audit_shape (audit_reset b)" using inst_okD(1) [OF assms]
    by (auto simp: lb_shape_def audit_shape_def audit_reset_def)
  then show "lb_shape B (audit_reset b)"
    using inst_okD(1) [OF assms]
    by (simp add: lb_shape_def) (simp add: size_shape_def feature_shape_def audit_reset_def)
qed (use inst_okD(4) [OF assms] in
  \<open>simp_all add: audit_reset_def same_config_def live_edges_def books_ok_def\<close>)

lemma audit_clear_keeps:
  "inst_ok B b \<Longrightarrow> inst_ok B (fst (snd (loxbudget_audit_clear P b e)))"
  "same_hal b (fst (snd (loxbudget_audit_clear P b e)))"
  "counted (fst (snd (loxbudget_audit_clear P b e))) = counted b"
proof -
  have reset: "same_hal b (audit_reset b)" "counted (audit_reset b) = counted b"
    by (simp_all add: audit_reset_def same_hal_def counted_def)
  show "inst_ok B b \<Longrightarrow> inst_ok B (fst (snd (loxbudget_audit_clear P b e)))"
    "same_hal b (fst (snd (loxbudget_audit_clear P b e)))"
    "counted (fst (snd (loxbudget_audit_clear P b e))) = counted b"
    using audit_clear_cases [of P b e] reset by (auto simp: audit_reset_inst)
qed

interpretation audit_clear_fn:
  api_function B "\<lambda>(b, e). snd (loxbudget_audit_clear P b e)" for B P
  by unfold_locales (auto simp: audit_clear_keeps)

text \<open>The two getters that call the HAL: the audit read-out and the snapshot.\<close>

interpretation audit_get_recent_fn:
  api_function B "\<lambda>(b, e). (b, snd (snd (snd (loxbudget_audit_get_recent P b out_ok n count_ok e))))"
    for B P out_ok n count_ok
  by unfold_locales (auto simp: same_hal_def)

interpretation snapshot_fn:
  api_function B "\<lambda>(b, e). (b, snd (snd (loxbudget_snapshot_of P b out_ok e)))" for B P out_ok
  by unfold_locales (auto simp: same_hal_def)

text \<open>Calibration writes one slot of its table, which the invariant does not constrain.\<close>

definition calib_only :: "loxbudget \<Rightarrow> loxbudget option \<Rightarrow> bool" where
  "calib_only b c \<longleftrightarrow> (\<exists>ts. c = Some (b\<lparr>t_calib := ts\<rparr>) \<and> length ts = length (t_calib b))"

lemma calib_onlyI: "length ts = length (t_calib b) \<Longrightarrow> calib_only b (Some (b\<lparr>t_calib := ts\<rparr>))"
  unfolding calib_only_def by blast

lemma calib_only_refl [simp]: "calib_only b (Some b)"
  using calib_onlyI [of "t_calib b" b] by simp

lemma calib_functions_only:
  "calib_only b (snd (loxbudget_calibrate_begin B (Some b) op n))"
  "calib_only b (snd (loxbudget_calibrate_sample B (Some b) op x))"
  "calib_only b (fst (snd (loxbudget_calibrate_end B (Some b) op out)))"
  by (simp_all add: loxbudget_calibrate_begin_def loxbudget_calibrate_sample_def loxbudget_calibrate_end_def
      Let_def calib_onlyI)

lemma calib_only_keeps:
  assumes "calib_only b c"
  shows "inst_ok B b \<Longrightarrow> inst_ok B (the c)" and "same_hal b (the c)" and "counted (the c) = counted b"
proof -
  obtain ts where c: "c = Some (b\<lparr>t_calib := ts\<rparr>)" and len: "length ts = length (t_calib b)"
    using assms by (auto simp: calib_only_def)
  show "same_hal b (the c)" and "counted (the c) = counted b"
    by (simp_all add: c same_hal_def counted_def)
  assume ok: "inst_ok B b"
  show "inst_ok B (the c)"
  proof (rule inst_transfer [OF ok])
    show "lb_shape B (the c)"
      using inst_okD(1) [OF ok] len by (simp add: c lb_shape_def size_shape_def audit_shape_def feature_shape_def)
  qed (use inst_okD(4) [OF ok] in \<open>simp_all add: c same_config_def live_edges_def books_ok_def\<close>)
qed

lemmas calib_keeps = calib_functions_only [THEN calib_only_keeps(1)] calib_functions_only [THEN calib_only_keeps(2)]
  calib_functions_only [THEN calib_only_keeps(3)]

interpretation calibrate_begin_fn:
  api_function B "\<lambda>(b, e). (the (snd (loxbudget_calibrate_begin B (Some b) op n)), e)" for B op n
  by unfold_locales (auto simp: calib_keeps)

interpretation calibrate_sample_fn:
  api_function B "\<lambda>(b, e). (the (snd (loxbudget_calibrate_sample B (Some b) op x)), e)" for B op x
  by unfold_locales (auto simp: calib_keeps)

interpretation calibrate_end_fn:
  api_function B "\<lambda>(b, e). (the (fst (snd (loxbudget_calibrate_end B (Some b) op out))), e)" for B op out
  by unfold_locales (auto simp: calib_keeps)

section \<open>Runs of calls\<close>

text \<open>
  The functions that change a live instance or call the HAL; a \<open>bool\<close> says whether the pointer
  for a result is given or NULL. \<open>loxbudget_snapshot\<close> and \<open>loxbudget_audit_get_recent\<close> leave the
  instance as it is and read the clock and take the critical section. The other getters
  (\<open>loxbudget_get_pressure\<close>, the burn rate, the yield check, the edge count and the export) take
  a \<open>const\<close> instance and make no HAL call, so that their models return neither an instance nor
  an environment. \<open>loxbudget_deinit\<close> ends the life of an instance; \<open>LB_Balance\<close> adds it.
\<close>

datatype api_call =
    A_set_resource u8 u16 c_enum
  | A_register_op "loxbudget_op_profile option"
  | A_op_set_need u8 u8 u16
  | A_set_pressure c_enum
  | A_set_decision_hook ptr ptr
  | A_set_rate_limit u8 c_enum u32
  | A_set_lifetime_limit u8 u32
  | A_op_may_trigger u8 u8 c_enum
  | A_check u8 bool
  | A_enter u8 bool
  | A_leave loxbudget_lease
  | A_audit_clear
  | A_audit_get_recent bool u64 bool
  | A_snapshot bool
  | A_calibrate_begin u8 u32
  | A_calibrate_sample u8 "loxbudget_sample option"
  | A_calibrate_end u8 "loxbudget_suggested_profile option"

fun api_step :: "build \<Rightarrow> 'e platform \<Rightarrow> api_call \<Rightarrow> loxbudget \<times> 'e \<Rightarrow> loxbudget \<times> 'e" where
  "api_step B P (A_set_resource r l k) (b, e) = (snd (loxbudget_set_resource b r l k), e)"
| "api_step B P (A_register_op po) (b, e) = (snd (loxbudget_register_op b po), e)"
| "api_step B P (A_op_set_need op r a) (b, e) = (snd (loxbudget_op_set_need b op r a), e)"
| "api_step B P (A_set_pressure p) (b, e) = snd (loxbudget_set_pressure P b p e)"
| "api_step B P (A_set_decision_hook f u) (b, e) = (snd (loxbudget_set_decision_hook b f u), e)"
| "api_step B P (A_set_rate_limit r w l) (b, e) = snd (loxbudget_set_rate_limit B P b r w l e)"
| "api_step B P (A_set_lifetime_limit r l) (b, e) = (snd (loxbudget_set_lifetime_limit b r l), e)"
| "api_step B P (A_op_may_trigger p c k) (b, e) =
     (the (snd (loxbudget_op_may_trigger B (Some b) p c k)), e)"
| "api_step B P (A_check op out_ok) (b, e) = snd (snd (loxbudget_check B P b op out_ok e))"
| "api_step B P (A_enter op out_ok) (b, e) = snd (snd (loxbudget_enter B P b op out_ok e))"
| "api_step B P (A_leave l) (b, e) = snd (loxbudget_leave P b l e)"
| "api_step B P A_audit_clear (b, e) = snd (loxbudget_audit_clear P b e)"
| "api_step B P (A_audit_get_recent out_ok n count_ok) (b, e) =
     (b, snd (snd (snd (loxbudget_audit_get_recent P b out_ok n count_ok e))))"
| "api_step B P (A_snapshot out_ok) (b, e) = (b, snd (snd (loxbudget_snapshot_of P b out_ok e)))"
| "api_step B P (A_calibrate_begin op n) (b, e) =
     (the (snd (loxbudget_calibrate_begin B (Some b) op n)), e)"
| "api_step B P (A_calibrate_sample op x) (b, e) =
     (the (snd (loxbudget_calibrate_sample B (Some b) op x)), e)"
| "api_step B P (A_calibrate_end op out) (b, e) =
     (the (fst (snd (loxbudget_calibrate_end B (Some b) op out))), e)"

lemma step_ok:
  assumes "live_ok B b"
  shows "live_ok B (fst (api_step B P c (b, e))) \<and> same_hal b (fst (api_step B P c (b, e)))"
proof (cases c)
  case (A_set_resource r l k)
  then show ?thesis using set_resource_fn.run_ok [of B "(b, e)" r l k] assms by simp
next
  case (A_register_op po)
  then show ?thesis using register_op_fn.run_ok [of B "(b, e)" po] assms by simp
next
  case (A_op_set_need op r a)
  then show ?thesis using op_set_need_fn.run_ok [of B "(b, e)" op r a] assms by simp
next
  case (A_set_pressure p)
  then show ?thesis using set_pressure_fn.run_ok [of B "(b, e)" P p] assms by simp
next
  case (A_set_decision_hook f u)
  then show ?thesis using set_decision_hook_fn.run_ok [of B "(b, e)" f u] assms by simp
next
  case (A_set_rate_limit r w l)
  then show ?thesis using set_rate_limit_fn.run_ok [of B "(b, e)" P r w l] assms by simp
next
  case (A_set_lifetime_limit r l)
  then show ?thesis using set_lifetime_fn.run_ok [of B "(b, e)" r l] assms by simp
next
  case (A_op_may_trigger p c k)
  then show ?thesis using op_may_trigger_fn.run_ok [of B "(b, e)" p c k] assms by (simp add: trigger_added_def)
next
  case (A_check op ok)
  then show ?thesis using check_fn.run_ok [of B "(b, e)" P op ok] assms by simp
next
  case (A_enter op ok)
  then show ?thesis using enter_fn.run_ok [of B "(b, e)" P op ok] assms by simp
next
  case (A_leave l)
  then show ?thesis using leave_fn.run_ok [of B "(b, e)" P l] assms by simp
next
  case A_audit_clear
  then show ?thesis using audit_clear_fn.run_ok [of B "(b, e)" P] assms by simp
next
  case (A_audit_get_recent o' n c')
  then show ?thesis using audit_get_recent_fn.run_ok [of B "(b, e)" P o' n c'] assms by simp
next
  case (A_snapshot o')
  then show ?thesis using snapshot_fn.run_ok [of B "(b, e)" P o'] assms by simp
next
  case (A_calibrate_begin op n)
  then show ?thesis using calibrate_begin_fn.run_ok [of B "(b, e)" op n] assms by simp
next
  case (A_calibrate_sample op x)
  then show ?thesis using calibrate_sample_fn.run_ok [of B "(b, e)" op x] assms by simp
next
  case (A_calibrate_end op out)
  then show ?thesis using calibrate_end_fn.run_ok [of B "(b, e)" op out] assms by simp
qed

lemma calls_ok:
  "live_ok B b \<Longrightarrow> live_ok B (fst (fold (api_step B P) calls (b, e))) \<and>
     same_hal b (fst (fold (api_step B P) calls (b, e)))"
proof (induction calls arbitrary: b e)
  case Nil
  then show ?case by simp
next
  case (Cons c calls)
  obtain b1 e1 where step: "api_step B P c (b, e) = (b1, e1)" by fastforce
  with step_ok [OF Cons.prems, of P c e] have "live_ok B b1" "same_hal b b1" by simp_all
  with Cons.IH [of b1 e1] show ?case by (auto simp: step intro: same_hal_trans)
qed

lemma init_tables_start:
  "live_edges (init_tables B b) = []" "books_ok (init_tables B b)" "counted (init_tables B b) = counted b"
  by (simp_all add: init_tables_def Let_def live_edges_def books_ok_def list_all_iff resource_ok_def
      zero_resource_def counted_def)

lemma init_struct_counted: "counted (init_struct B n c)"
  by (simp add: init_struct_def Let_def counted_def zero_budget_def)

lemma init_ok:
  assumes "loxbudget_init B P ba sa n cfg b0 e = (LOXBUDGET_OK, b, e')"
  shows "live_ok B b"
proof -
  obtain c x where "b = (init_tables B (init_struct B n c))\<lparr>b_lease_magic_base := x\<rparr>"
    by (rule init_OK_D [OF assms]) blast
  moreover have "live_edges (b\<lparr>b_lease_magic_base := x\<rparr>) = live_edges b"
    "books_ok (b\<lparr>b_lease_magic_base := x\<rparr>) = books_ok b" "counted (b\<lparr>b_lease_magic_base := x\<rparr>) = counted b" for b x
    by (simp_all add: live_edges_def books_ok_def counted_def)
  ultimately have "live_edges b = []" "books_ok b" "counted b"
    by (simp_all only: init_tables_start init_struct_counted)
  then show ?thesis
    using init_shape [OF assms] init_config [OF assms] by (simp add: live_ok_def inst_ok_def edges_ok_def)
qed

section \<open>Properties\<close>

text \<open>
  C5. Whatever is called on an instance after \<open>loxbudget_init\<close>, in whatever order and with
  whatever arguments, and whatever the HAL answers: the tables keep their sizes, the needs,
  kinds and may-trigger edges name configured entries, the use and the reservations of every
  resource stay together within its limit, the watermark lies between them and the limit, and
  the decision counter is the sum of the grant and denial counters (modulo \<open>2 ^ 32\<close>). The HAL
  table and the strictness never change.
\<close>

theorem api_keeps_invariants:
  assumes init: "loxbudget_init B P ba sa n cfg b0 e0 = (LOXBUDGET_OK, b, e)"
    and run: "fold (api_step B P) calls (b, e) = (b', e')"
  shows "lb_shape B b' \<and> config_ok b' \<and> edges_ok (b_max_ops b') (live_edges b') \<and>
    (\<forall>i < length (t_resources b').
       unat (r_used (t_resources b' ! i)) + unat (r_reserved (t_resources b' ! i)) \<le> unat (r_limit (t_resources b' ! i)) \<and>
       max (r_used (t_resources b' ! i)) (r_reserved (t_resources b' ! i)) \<le> r_high_watermark (t_resources b' ! i) \<and>
       r_high_watermark (t_resources b' ! i) \<le> r_limit (t_resources b' ! i)) \<and>
    b_total_decisions b' = b_total_grants b' + b_total_denials b' \<and> same_hal b b'"
proof -
  have "live_ok B b'" "same_hal b b'" using calls_ok [OF init_ok [OF init], of P calls e] run by simp_all
  then show ?thesis
    by (simp add: live_ok_def inst_ok_def counted_def books_ok_def resource_ok_def list_all_length)
qed

theorem api_keeps_invariants_witness:
  "\<exists>b e b' e'. loxbudget_init graph_build quiet_platform 0x1000 0x2000 4096 (Some (loxbudget_config_simple 2 3))
       zero_budget 7 = (LOXBUDGET_OK, b, e) \<and>
     fold (api_step graph_build quiet_platform)
       [A_set_resource 0 100 0, A_register_op (Some (loxbudget_op_profile_default 0)), A_op_set_need 0 0 40,
        A_enter 0 True, A_enter 1 True] (b, e) = (b', e') \<and>
     b_total_decisions b' = b_total_grants b' + b_total_denials b'"
proof -
  let ?init = "loxbudget_init graph_build quiet_platform 0x1000 0x2000 4096 (Some (loxbudget_config_simple 2 3))
       zero_budget 7"
  obtain b e where init: "?init = (LOXBUDGET_OK, b, e)"
  proof -
    have "fst ?init = LOXBUDGET_OK" by code_simp
    then show thesis by (metis prod.collapse that)
  qed
  obtain b' e' where run: "fold (api_step graph_build quiet_platform)
       [A_set_resource 0 100 0, A_register_op (Some (loxbudget_op_profile_default 0)), A_op_set_need 0 0 40,
        A_enter 0 True, A_enter 1 True] (b, e) = (b', e')"
    by (metis prod.exhaust)
  show ?thesis using api_keeps_invariants [OF init run] init run by blast
qed

end
