(* ===== verification/LB_Hooks.thy ===== *)
theory LB_Hooks
  imports LB_Lease
begin

text \<open>
  What the calls do to the environment. An observation of the environment (a log, the nesting
  depth of critical sections) that the clock and the platform queries leave alone, and that
  the exit of a critical section restores to what it was at its entry, changes only in the
  decision hook; and the hook runs exactly once per check, outside every critical section of the
  library. The adapters' hooks and the balance of critical sections rest on this.
\<close>

section \<open>Observations of the environment\<close>

definition observes ::
    "'e platform \<Rightarrow> loxbudget \<Rightarrow> ('e \<Rightarrow> 'x) \<Rightarrow> ('x \<Rightarrow> 'x) \<Rightarrow> ('x \<Rightarrow> 'x) \<Rightarrow> bool" where
  "observes P b obs up down \<longleftrightarrow>
     (\<forall>x. down (up x) = x) \<and>
     (\<forall>e. obs (loxbudget_critical_enter' P b e) = up (obs e) \<and> obs (loxbudget_critical_exit' P b e) = down (obs e) \<and>
        obs (snd (loxbudget_hal_now_ms' P b e)) = obs e \<and> obs (snd (loxbudget_hal_boot_proven' P b e)) = obs e \<and>
        obs (snd (loxbudget_hal_voltage_ok' P b e)) = obs e \<and> obs (snd (loxbudget_hal_network_up' P b e)) = obs e)"

lemma observesD:
  assumes "observes P b obs up down"
  shows "down (up x) = x" "obs (loxbudget_critical_enter' P b e) = up (obs e)"
    and "obs (loxbudget_critical_exit' P b e) = down (obs e)" "obs (snd (loxbudget_hal_now_ms' P b e)) = obs e"
    and "obs (snd (loxbudget_hal_boot_proven' P b e)) = obs e"
    and "obs (snd (loxbudget_hal_voltage_ok' P b e)) = obs e"
    and "obs (snd (loxbudget_hal_network_up' P b e)) = obs e"
  using assms by (simp_all add: observes_def)

lemma observes_hal: "observes P b obs up down \<Longrightarrow> same_hal b c \<Longrightarrow> observes P c obs up down"
  by (simp add: observes_def same_hal_wrappers)

section \<open>Check\<close>

lemma check_hal1_obs:
  "(\<And>e. obs (snd (q e)) = obs e) \<Longrightarrow> obs (snd (check_hal1 fl f q d e)) = obs e"
  by (simp add: check_hal1_def split_def)

lemma check_hal_obs:
  assumes "observes P b obs up down"
  shows "obs (snd (check_hal P b p d e)) = obs e"
proof -
  note h = check_hal1_obs [of obs "loxbudget_hal_boot_proven' P b", OF observesD(5) [OF assms]]
    check_hal1_obs [of obs "loxbudget_hal_voltage_ok' P b", OF observesD(6) [OF assms]]
    check_hal1_obs [of obs "loxbudget_hal_network_up' P b", OF observesD(7) [OF assms]]
  show ?thesis by (simp add: check_hal_def split_def h split: option.splits)
qed

lemma verdict_obs:
  assumes "observes P b obs up down" and v: "check_verdict B P b op e = (d, g, b1, e1)"
  shows "obs e1 = obs e"
proof -
  have clock: "obs e3 = obs e" if "check_hal P b p d0 e = (dd, e2)"
    "(if rate_on B then loxbudget_hal_now_ms' P b e2 else (0, e2)) = (now, e3)" for p d0 dd e2 now e3
    using that check_hal_obs [OF assms(1), of p d0 e] observesD(4) [OF assms(1), of e2] by (auto split: if_splits)
  show ?thesis
    using v
  proof (cases rule: check_verdict_cases)
    case (hal p d0)
    then show ?thesis using check_hal_obs [OF assms(1), of p d0 e] by simp
  qed (use clock in blast)+
qed

lemma audit_record_obs:
  assumes "observes P b obs up down"
  shows "obs (snd (loxbudget_audit_record B P b op d e)) = obs e"
proof -
  have "observes P (audit_push r b) obs up down" for r
    by (rule observes_hal [OF assms]) (simp add: same_hal_def audit_push_def)
  note exit = observesD(3) [OF this]
  show ?thesis
    by (simp add: loxbudget_audit_record_def Let_def split_def exit observesD [OF assms])
qed

text \<open>A check runs the hook of the instance once, on the decision it returns, at the very end.\<close>

lemma check_runs_hook:
  assumes "observes P b obs up down" and "loxbudget_check B P b op True e = (st, Some d, b', e')"
    and "b_magic b = LOXBUDGET_MAGIC_INIT"
  shows "\<exists>x. obs x = obs e \<and> e' = run_hook P b' d op x"
proof -
  obtain d1 g b1 e1 where v: "check_verdict B P b op e = (d1, g, b1, e1)"
    and c: "loxbudget_check B P b op True e = (LOXBUDGET_OK, Some d1, check_finish B P b1 op d1 g e1)"
    by (rule check_run [OF assms(3), of B P op e])
  have "observes P b1 obs up down"
    by (rule observes_hal [OF assms(1) scratch_only_counters(11) [OF check_verdict_frame [OF v]]])
  then have "observes P (check_count b1 d1 g) obs up down" by (rule observes_hal [OF _ check_count_hal])
  from audit_record_obs [OF this, of B op d1 e1] verdict_obs [OF assms(1) v] c assms(2) show ?thesis
    by (auto simp: check_finish_def split_def intro!: exI)
qed

lemma check_hook_fields:
  assumes "loxbudget_check B P b op ok e = (st, d, b', e')"
  shows "b_decision_hook b' = b_decision_hook b" "b_decision_hook_user b' = b_decision_hook_user b" "same_hal b b'"
proof -
  have f: "check_frame b b'" using check_frame_holds [of b B P op ok e] assms by simp
  from check_frame_fields [OF f] show "b_decision_hook b' = b_decision_hook b"
    and "b_decision_hook_user b' = b_decision_hook_user b" by simp_all
  show "same_hal b b'" by (rule check_frame_hal [OF f])
qed

section \<open>Enter\<close>

lemma commit_need_obs:
  assumes "observes P b obs up down"
  shows "obs (snd (commit_need B P p n (b, e))) = obs e" and "same_hal b (fst (commit_need B P p n (b, e)))"
proof -
  have "loxbudget_hal_now_ms' P (b\<lparr>t_resources := rs\<rparr>) = loxbudget_hal_now_ms' P b" for rs
    by (rule same_hal_wrappers(1)) (simp add: same_hal_def)
  then show "obs (snd (commit_need B P p n (b, e))) = obs e"
    by (simp add: commit_need_def Let_def split_def observesD(4) [OF assms])
  show "same_hal b (fst (commit_need B P p n (b, e)))"
    by (simp add: commit_need_def Let_def split_def same_hal_def)
qed

lemma commit_needs_obs:
  "observes P b obs up down \<Longrightarrow> obs (snd (fold (commit_need B P p) ns (b, e))) = obs e \<and>
     same_hal b (fst (fold (commit_need B P p) ns (b, e)))"
proof (induction ns arbitrary: b e)
  case Nil
  then show ?case by simp
next
  case (Cons n ns)
  obtain b1 e1 where step: "commit_need B P p n (b, e) = (b1, e1)" by fastforce
  with commit_need_obs [OF Cons.prems, of B p n e] have h: "obs e1 = obs e" "same_hal b b1" by simp_all
  from Cons.IH [OF observes_hal [OF Cons.prems h(2)], of e1] show ?case
    using h by (auto simp: step intro: same_hal_trans)
qed

lemma enter_commit_obs:
  assumes "observes P b obs up down"
  shows "obs (snd (snd (snd (enter_commit B P b op p e)))) = obs e"
proof (cases "free_slot b")
  case None
  then show ?thesis by (simp add: enter_commit_def Let_def observesD [OF assms])
next
  case (Some i)
  let ?e1 = "loxbudget_critical_enter' P b e"
  obtain b1 e2 where f: "fold (commit_need B P p) (op_needs b op) (b, ?e1) = (b1, e2)" by fastforce
  with commit_needs_obs [OF assms, of B p "op_needs b op" ?e1] have h: "obs e2 = up (obs e)" "same_hal b b1"
    by (simp_all add: observesD [OF assms])
  have "observes P (b1\<lparr>t_lease_slots := ls\<rparr>) obs up down" for ls
    by (rule observes_hal [OF assms]) (use h(2) in \<open>simp add: same_hal_def\<close>)
  from observesD(3,4) [OF this] show ?thesis
    by (simp add: enter_commit_def Let_def Some f split_def h(1) observesD(1) [OF assms])
qed

text \<open>An enter changes the observation as its check does, and not further.\<close>

lemma enter_obs:
  assumes "observes P b obs up down"
  shows "obs (snd (snd (snd (loxbudget_enter B P b op ok e)))) = obs (snd (snd (snd (loxbudget_check B P b op True e))))"
proof -
  obtain st d b1 e1 where c: "loxbudget_check B P b op True e = (st, d, b1, e1)" by (metis prod.exhaust)
  note commit = enter_commit_obs [OF observes_hal [OF assms check_hook_fields(3) [OF c]]]
  show ?thesis
    by (simp add: loxbudget_enter_def enter_prepare_def c commit split: option.splits)
qed

end
