(* ===== verification/LB_Balance.thy ===== *)
theory LB_Balance
  imports LB_Api LB_Hooks
begin

text \<open>
  Critical sections: every function leaves the nesting depth as it found it, on every path,
  so that an application's interrupts are enabled again whatever a call returns. The
  contract is a locale, interpreted on each function that touches the environment; the
  assumption on the application is \<open>depth_discipline\<close>. The runs go from \<open>loxbudget_init\<close> through
  any calls, \<open>loxbudget_deinit\<close> and calls on the dead instance included.
\<close>

section \<open>The contract\<close>

locale balanced_function =
  fixes P :: "'e platform" and run :: "loxbudget \<times> 'e \<Rightarrow> loxbudget \<times> 'e"
  assumes balanced: "depth_discipline P (fst s) depth \<Longrightarrow> depth (snd (run s)) = depth (snd s)"
begin

lemma closed: "depth_discipline P b depth \<Longrightarrow> depth (snd (run (b, e))) = depth e"
  using balanced [of "(b, e)" depth] by simp

end

section \<open>The wrappers under the discipline\<close>

lemma disciplineD:
  assumes "depth_discipline P b depth"
  shows "depth (loxbudget_critical_enter' P b e) = depth e + 1"
    and "depth (loxbudget_critical_exit' P b e) = depth e - 1"
    and "depth (snd (loxbudget_hal_now_ms' P b e)) = depth e"
    and "depth (snd (loxbudget_hal_boot_proven' P b e)) = depth e"
    and "depth (snd (loxbudget_hal_voltage_ok' P b e)) = depth e"
    and "depth (snd (loxbudget_hal_network_up' P b e)) = depth e"
    and "depth (fn_hook P f u c d op e) = depth e"
  using assms by (simp_all add: depth_discipline_def)

text \<open>The same on an instance with the same HAL.\<close>

lemma discipline_hal:
  "depth_discipline P b depth \<Longrightarrow> same_hal b c \<Longrightarrow> depth_discipline P c depth"
  by (simp add: depth_discipline_cong)

lemma hook_depth: "depth_discipline P b depth \<Longrightarrow> depth (run_hook P c d op e) = depth e"
  by (simp add: run_hook_def disciplineD)

lemma discipline_observes:
  "depth_discipline P b depth \<Longrightarrow> observes P b depth (\<lambda>n. n + 1) (\<lambda>n. n - 1)"
  by (simp add: depth_discipline_def observes_def)

section \<open>The functions\<close>

lemma check_depth:
  assumes D: "depth_discipline P b depth"
  shows "depth (snd (snd (snd (loxbudget_check B P b op ok e)))) = depth e"
proof (cases "b_magic b = LOXBUDGET_MAGIC_INIT \<and> ok")
  case True
  then obtain d b' e' where c: "loxbudget_check B P b op True e = (LOXBUDGET_OK, Some d, b', e')"
    using check_returns [of b B P op e] by blast
  from check_runs_hook [OF discipline_observes [OF D] c] True hook_depth [OF D] c show ?thesis by auto
next
  case False
  then show ?thesis by (auto simp: loxbudget_check_def Let_def)
qed

lemma enter_depth:
  assumes D: "depth_discipline P b depth"
  shows "depth (snd (snd (snd (loxbudget_enter B P b op ok e)))) = depth e"
  by (simp add: enter_obs [OF discipline_observes [OF D]] check_depth [OF D])

lemma leave_depth:
  assumes D: "depth_discipline P b depth"
  shows "depth (snd (snd (loxbudget_leave P b l e))) = depth e"
proof -
  have "depth_discipline P (b\<lparr>t_resources := rs, t_lease_slots := ls\<rparr>) depth" for rs ls
    by (rule discipline_hal [OF D]) (simp add: same_hal_def)
  note exit = disciplineD(2) [OF this]
  show ?thesis
    by (simp add: loxbudget_leave_def Let_def disciplineD(1,2) [OF D] exit split: option.splits)
qed

lemma other_depths:
  assumes D: "depth_discipline P b depth"
  shows "depth (snd (snd (loxbudget_set_pressure P b p e))) = depth e"
    and "depth (snd (snd (loxbudget_set_rate_limit B P b res w l e))) = depth e"
    and "depth (snd (snd (loxbudget_audit_clear P b e))) = depth e"
    and "depth (snd (snd (loxbudget_snapshot_of P b out_ok e))) = depth e"
    and "depth (snd (snd (snd (loxbudget_audit_get_recent P b out_ok n count_ok e)))) = depth e"
proof -
  have "depth_discipline P (b\<lparr>b_pressure := x\<rparr>) depth" "depth_discipline P (audit_reset b) depth" for x
    by (rule discipline_hal [OF D], simp add: same_hal_def audit_reset_def)+
  note exit = this [THEN disciplineD(2)]
  show "depth (snd (snd (loxbudget_set_pressure P b p e))) = depth e"
    "depth (snd (snd (loxbudget_audit_clear P b e))) = depth e"
    by (simp_all add: loxbudget_set_pressure_def loxbudget_audit_clear_def Let_def disciplineD(1,2) [OF D] exit)
  show "depth (snd (snd (loxbudget_set_rate_limit B P b res w l e))) = depth e"
    "depth (snd (snd (loxbudget_snapshot_of P b out_ok e))) = depth e"
    by (simp_all add: loxbudget_set_rate_limit_def loxbudget_snapshot_of_def Let_def split_def disciplineD(3) [OF D])
  show "depth (snd (snd (snd (loxbudget_audit_get_recent P b out_ok n count_ok e)))) = depth e"
    by (simp add: loxbudget_audit_get_recent_def Let_def disciplineD(1,2) [OF D])
qed

section \<open>The interpretations\<close>

interpretation check_bal: balanced_function P "\<lambda>(b, e). snd (snd (loxbudget_check B P b op ok e))" for P B op ok
  by unfold_locales (auto simp: check_depth)

interpretation enter_bal: balanced_function P "\<lambda>(b, e). snd (snd (loxbudget_enter B P b op ok e))" for P B op ok
  by unfold_locales (auto simp: enter_depth)

interpretation leave_bal: balanced_function P "\<lambda>(b, e). snd (loxbudget_leave P b l e)" for P l
  by unfold_locales (auto simp: leave_depth)

interpretation pressure_bal: balanced_function P "\<lambda>(b, e). snd (loxbudget_set_pressure P b p e)" for P p
  by unfold_locales (auto simp: other_depths)

interpretation rate_limit_bal: balanced_function P "\<lambda>(b, e). snd (loxbudget_set_rate_limit B P b r w l e)" for P B r w l
  by unfold_locales (auto simp: other_depths)

interpretation audit_clear_bal: balanced_function P "\<lambda>(b, e). snd (loxbudget_audit_clear P b e)" for P
  by unfold_locales (auto simp: other_depths)

interpretation audit_read_bal: balanced_function P
    "\<lambda>(b, e). (b, snd (snd (snd (loxbudget_audit_get_recent P b out_ok n count_ok e))))" for P out_ok n count_ok
  by unfold_locales (auto simp: other_depths)

interpretation snapshot_bal: balanced_function P
    "\<lambda>(b, e). (b, snd (snd (loxbudget_snapshot_of P b out_ok e)))" for P out_ok
  by unfold_locales (auto simp: other_depths)

lemma step_balanced:
  assumes D: "depth_discipline P b depth"
  shows "depth (snd (api_step B P c (b, e))) = depth e"
proof (cases c)
  case (A_set_pressure p)
  then show ?thesis using pressure_bal.closed [OF D, of p e] by simp
next
  case (A_set_rate_limit r w l)
  then show ?thesis using rate_limit_bal.closed [OF D, of B r w l e] by simp
next
  case (A_check op ok)
  then show ?thesis using check_bal.closed [OF D, of B op ok e] by simp
next
  case (A_enter op ok)
  then show ?thesis using enter_bal.closed [OF D, of B op ok e] by simp
next
  case (A_leave l)
  then show ?thesis using leave_bal.closed [OF D, of l e] by simp
next
  case A_audit_clear
  then show ?thesis using audit_clear_bal.closed [OF D, of e] by simp
next
  case (A_audit_get_recent o' n c')
  then show ?thesis using audit_read_bal.closed [OF D, of o' n c' e] by simp
next
  case (A_snapshot o')
  then show ?thesis using snapshot_bal.closed [OF D, of o' e] by simp
qed simp_all

section \<open>The whole life of an instance\<close>

text \<open>
  Calls of the API and \<open>loxbudget_deinit\<close> in any order: after \<open>loxbudget_deinit\<close> the magic is 0
  and every further call is refused before it touches anything.
\<close>

datatype life_call = Call api_call | Deinit

fun life_step :: "build \<Rightarrow> 'e platform \<Rightarrow> life_call \<Rightarrow> loxbudget \<times> 'e \<Rightarrow> loxbudget \<times> 'e" where
  "life_step B P (Call c) s = api_step B P c s"
| "life_step B P Deinit (b, e) = (snd (loxbudget_deinit b), e)"

lemma dead_config:
  assumes "loxbudget_validate_budget (Some b) = LOXBUDGET_ERR_NOT_INITIALIZED"
  shows "snd (loxbudget_set_resource b r l k) = b" "snd (loxbudget_register_op b po) = b"
    and "snd (loxbudget_op_set_need b op r a) = b" "snd (loxbudget_set_decision_hook b f u) = b"
    and "snd (loxbudget_set_lifetime_limit b r x) = b"
  unfolding loxbudget_set_resource_def loxbudget_register_op_def loxbudget_op_set_need_def
    loxbudget_set_decision_hook_def loxbudget_set_lifetime_limit_def Let_def assms
  by (simp_all split: option.split)

lemma dead_graph: "b_magic b = 0 \<Longrightarrow> snd (loxbudget_op_may_trigger B (Some b) p c k) = Some b"
  by (simp add: loxbudget_op_may_trigger_def LOXBUDGET_MAGIC_INIT_def cong: if_cong)

lemma dead_env:
  assumes "loxbudget_validate_budget (Some b) = LOXBUDGET_ERR_NOT_INITIALIZED"
  shows "snd (loxbudget_set_pressure P b p e) = (b, e)" "snd (loxbudget_set_rate_limit B P b r w l e) = (b, e)"
    and "snd (loxbudget_leave P b le e) = (b, e)" "snd (loxbudget_audit_clear P b e) = (b, e)"
    and "snd (snd (snd (loxbudget_audit_get_recent P b o' n c' e))) = e"
    and "snd (snd (loxbudget_snapshot_of P b o' e)) = e"
  unfolding loxbudget_set_pressure_def loxbudget_set_rate_limit_def loxbudget_leave_def loxbudget_audit_clear_def
    loxbudget_audit_get_recent_def loxbudget_snapshot_of_def Let_def assms
  by simp_all

lemma dead_check:
  assumes "loxbudget_validate_budget (Some b) = LOXBUDGET_ERR_NOT_INITIALIZED"
  shows "\<exists>st. st \<noteq> LOXBUDGET_OK \<and> loxbudget_check B P b op ok e = (st, None, b, e)"
  unfolding loxbudget_check_def Let_def assms by simp

lemma dead_enter:
  assumes "loxbudget_validate_budget (Some b) = LOXBUDGET_ERR_NOT_INITIALIZED"
  shows "snd (snd (loxbudget_enter B P b op ok e)) = (b, e)"
proof -
  obtain st where "st \<noteq> LOXBUDGET_OK" "loxbudget_check B P b op True e = (st, None, b, e)"
    using dead_check [OF assms, of B P op True e] by blast
  then show ?thesis by (simp add: loxbudget_enter_def enter_prepare_def)
qed

lemma dead_calibration:
  assumes "lb__validate_budget (Some b) = LOXBUDGET_ERR_NOT_INITIALIZED"
  shows "snd (loxbudget_calibrate_begin B (Some b) op n) = Some b"
    and "snd (loxbudget_calibrate_sample B (Some b) op x) = Some b"
    and "fst (snd (loxbudget_calibrate_end B (Some b) op out)) = Some b"
  unfolding loxbudget_calibrate_begin_def loxbudget_calibrate_sample_def loxbudget_calibrate_end_def Let_def assms
  by simp_all

lemma dead_step:
  assumes "b_magic b = 0"
  shows "api_step B P c (b, e) = (b, e)"
proof -
  have dead: "loxbudget_validate_budget (Some b) = LOXBUDGET_ERR_NOT_INITIALIZED"
    "lb__validate_budget (Some b) = LOXBUDGET_ERR_NOT_INITIALIZED"
    using assms by (simp_all add: loxbudget_validate_budget_def lb__validate_budget_def LOXBUDGET_MAGIC_INIT_def)
  have check: "snd (snd (loxbudget_check B P b op ok e)) = (b, e)" for op ok
    using dead_check [OF dead(1), of B P op ok e] by auto
  show ?thesis
    by (cases c) (simp_all add: dead_config [OF dead(1)] dead_graph [OF assms] dead_env [OF dead(1)] check dead_enter [OF dead(1)]
      dead_calibration [OF dead(2)])
qed

definition alive_or_dead :: "build \<Rightarrow> loxbudget \<Rightarrow> bool" where
  "alive_or_dead B b \<longleftrightarrow> live_ok B b \<or> b_magic b = 0"

lemma life_step_balanced:
  assumes ok: "alive_or_dead B b" and D: "depth_discipline P b depth"
    and step: "life_step B P c (b, e) = (b', e')"
  shows "alive_or_dead B b'" and "depth_discipline P b' depth" and "depth e' = depth e"
proof -
  have "alive_or_dead B b' \<and> same_hal b b' \<and> depth e' = depth e"
  proof (cases c)
    case (Call a)
    then have a: "api_step B P a (b, e) = (b', e')" using step by simp
    show ?thesis
    proof (cases "b_magic b = 0")
      case True
      then show ?thesis using a dead_step [of b B P a e] ok by (simp add: same_hal_def)
    next
      case False
      then have "live_ok B b" using ok by (simp add: alive_or_dead_def)
      from step_ok [OF this, of P a e] step_balanced [OF D, of B a e] show ?thesis
        by (simp add: a alive_or_dead_def)
    qed
  next
    case Deinit
    then show ?thesis
      using step ok by (auto simp: loxbudget_deinit_def Let_def alive_or_dead_def same_hal_def split: if_splits)
  qed
  then show "alive_or_dead B b'" "depth_discipline P b' depth" "depth e' = depth e"
    using discipline_hal [OF D] by auto
qed

lemma run_balanced:
  "alive_or_dead B b \<Longrightarrow> depth_discipline P b depth \<Longrightarrow> depth (snd (fold (life_step B P) calls (b, e))) = depth e"
proof (induction calls arbitrary: b e)
  case Nil
  then show ?case by simp
next
  case (Cons c calls)
  obtain b1 e1 where step: "life_step B P c (b, e) = (b1, e1)" by fastforce
  note s = life_step_balanced [OF Cons.prems step]
  from Cons.IH [OF s(1,2), of e1] s(3) show ?case by (simp add: step)
qed

text \<open>\<open>loxbudget_init\<close> itself reads the clock once, through the callbacks it has installed.\<close>

lemma valid_args_None: "loxbudget_validate_init_args ba sa n None \<noteq> LOXBUDGET_OK"
  by (simp add: loxbudget_validate_init_args_def Let_def)

lemma init_depth:
  assumes "loxbudget_init B P ba sa n cfg b0 e0 = (LOXBUDGET_OK, b, e)" and D: "depth_discipline P b depth"
  shows "depth e = depth e0"
proof -
  obtain c t where b: "b = (init_tables B (init_struct B n c))\<lparr>b_lease_magic_base := lease_magic_seed ba t\<rparr>"
    and e: "loxbudget_hal_now_ms' P (init_tables B (init_struct B n c)) e0 = (t, e)"
    using assms(1) valid_args_None
    by (auto simp: loxbudget_init_def Let_def split: option.splits if_splits prod.splits)
  have "same_hal b (init_tables B (init_struct B n c))" by (simp add: b same_hal_def)
  from disciplineD(3) [OF discipline_hal [OF D this], of e0] show ?thesis by (simp add: e)
qed

section \<open>Properties\<close>

text \<open>
  C15. No call leaves a critical section open, and none closes one it did not open: after
  \<open>loxbudget_init\<close> and any sequence of calls of the functions that change the instance or call
  the HAL - the configuration functions, check, enter, leave, the rate limits, the audit
  read-out and reset, the snapshot, calibration, with NULL for results too, and
  \<open>loxbudget_deinit\<close> at any place - the nesting depth of the application's critical sections
  is what it was before, on success and on every error path alike, when the enter and exit
  functions change it by one and the other callbacks and the decision hook leave it alone.
\<close>

theorem api_balances_critical_sections:
  assumes "loxbudget_init B P ba sa n cfg b0 e0 = (LOXBUDGET_OK, b, e)" and "depth_discipline P b depth"
    and "fold (life_step B P) calls (b, e) = (b', e')"
  shows "depth e = depth e0 \<and> depth e' = depth e0"
proof -
  have "alive_or_dead B b" using init_ok [OF assms(1)] by (simp add: alive_or_dead_def)
  from run_balanced [OF this assms(2), of calls e] init_depth [OF assms(1,2)] assms(3) show ?thesis by simp
qed

text \<open>A platform whose environment is the nesting depth itself.\<close>

definition counting_platform :: "int platform" where
  "counting_platform = (host_platform (\<lambda>_ _ _ _ _ e. e))
     \<lparr>weak_critical_enter := \<lambda>e. e + 1, weak_critical_exit := \<lambda>e. e - 1,
      fn_void := \<lambda>f _ e. if f = 2 then e + 1 else e - 1\<rparr>"

theorem api_balances_critical_sections_witness:
  "\<exists>b e b' e'. loxbudget_init graph_build counting_platform 0x1000 0x2000 4096 (Some (loxbudget_config_simple 2 3))
       zero_budget 0 = (LOXBUDGET_OK, b, e) \<and>
     fold (life_step graph_build counting_platform)
       [Call (A_set_resource 0 100 0), Call (A_register_op (Some (loxbudget_op_profile_default 0))),
        Call (A_op_set_need 0 0 40), Call (A_enter 0 True), Call (A_audit_get_recent True 4 True),
        Call (A_enter 1 False), Deinit, Call (A_enter 0 True)] (b, e) = (b', e') \<and> e' = 0"
proof -
  let ?init = "loxbudget_init graph_build counting_platform 0x1000 0x2000 4096 (Some (loxbudget_config_simple 2 3))
       zero_budget 0"
  obtain b e where init: "?init = (LOXBUDGET_OK, b, e)"
  proof -
    have "fst ?init = LOXBUDGET_OK" by code_simp
    then show thesis by (metis prod.collapse that)
  qed
  have hal: "hal_member b cb_critical_enter = 2" "hal_member b cb_critical_exit = 3" "b_hal_cb b \<noteq> None"
  proof -
    have "map_option (\<lambda>t. (cb_critical_enter t, cb_critical_exit t)) (b_hal_cb (fst (snd ?init))) = Some (2, 3)"
      by code_simp
    then show "hal_member b cb_critical_enter = 2" "hal_member b cb_critical_exit = 3" "b_hal_cb b \<noteq> None"
      by (auto simp: init hal_member_def)
  qed
  have "depth_discipline counting_platform b (\<lambda>e. e)"
    by (simp add: depth_discipline_def counting_platform_def hal_c_defs loxbudget_critical_enter'_def
        loxbudget_critical_exit'_def loxbudget_hal_now_ms'_def loxbudget_hal_boot_proven'_def
        loxbudget_hal_voltage_ok'_def loxbudget_hal_network_up'_def loxbudget_hal_bool'_def hal)
  moreover obtain b' e' where run: "fold (life_step graph_build counting_platform)
       [Call (A_set_resource 0 100 0), Call (A_register_op (Some (loxbudget_op_profile_default 0))),
        Call (A_op_set_need 0 0 40), Call (A_enter 0 True), Call (A_audit_get_recent True 4 True),
        Call (A_enter 1 False), Deinit, Call (A_enter 0 True)] (b, e) = (b', e')"
    by (metis prod.exhaust)
  ultimately show ?thesis
    using api_balances_critical_sections [OF init _ run, of "\<lambda>e. e"] init run by blast
qed

end
