(* ===== verification/LB_Microlog.thy ===== *)
theory LB_Microlog
  imports LB_Hooks
begin

text \<open>
  The microlog adapter (\<open>adapters/microlog/loxbudget_microlog_adapter.c\<close>): a decision hook that
  formats a line into a 128-byte buffer. Buffers are byte lists, a C string is the bytes before
  the first zero. The logger itself is not part of the repository: \<open>microlog_write\<close> is the
  parameter \<open>write\<close>, an effect on the environment.
\<close>

section \<open>C strings\<close>

definition c_str :: "u8 list \<Rightarrow> u8 list" where
  "c_str buf = takeWhile (\<lambda>c. c \<noteq> 0) buf"

definition bytes_of :: "string \<Rightarrow> u8 list" where
  "bytes_of s = map of_char s"

text \<open>\<open>strncat\<close> of the C library: at most \<open>n\<close> bytes of the source and a terminating zero.\<close>

definition strncat :: "u8 list \<Rightarrow> u8 list \<Rightarrow> nat \<Rightarrow> u8 list" where
  "strncat buf s n =
     (let cur = length (c_str buf); t = take n (c_str s)
      in take cur buf @ t @ [0] @ drop (cur + length t + 1) buf)"

section \<open>Definitions\<close>

text \<open>The digits of \<open>v\<close>, least significant first; \<open>n\<close> of the ten places of \<open>tmp\<close> are taken.\<close>

function utoa_digits :: "nat \<Rightarrow> u32 \<Rightarrow> u8 list" where
  "utoa_digits n v =
     (if v \<noteq> 0 \<and> n < 10 then (0x30 + ucast (v mod 10)) # utoa_digits (n + 1) (v div 10) else [])"
  by auto
termination by (relation "measure (\<lambda>(n, v). 10 - n)") auto

declare utoa_digits.simps [simp del]

text \<open>Copying them back to front, while there is room for the final zero.\<close>

fun utoa_copy :: "u8 list \<Rightarrow> u8 list \<Rightarrow> nat \<Rightarrow> nat \<Rightarrow> u8 list" where
  "utoa_copy out tmp i 0 = out[i := 0]"
| "utoa_copy out tmp i (Suc j) =
     (if i + 1 < length out then utoa_copy (out[i := tmp ! j]) tmp (i + 1) j else out[i := 0])"

definition lb__utoa :: "u8 list \<Rightarrow> u32 \<Rightarrow> u8 list" where
  "lb__utoa out v =
     (if length out = 0 then out
      else if v = 0 then out[0 := 0x30, (if 1 < length out then 1 else 0) := 0]
      else let tmp = utoa_digits 0 v in utoa_copy out tmp 0 (length tmp))"

definition lb__append :: "u8 list \<Rightarrow> nat \<Rightarrow> u8 list \<Rightarrow> u8 list" where
  "lb__append buf cap s =
     (let cur = length (c_str buf)
      in if cur + 1 \<ge> cap then buf else strncat buf s (cap - cur - 1))"

record microlog_ctx =
  ml_log :: ptr
  ml_min_action :: c_enum

text \<open>
  The message, in the two stack buffers \<open>msg\<close> and \<open>num\<close> with whatever they held before;
  \<open>part\<close> appends a label and a number.
\<close>

definition msg_part :: "string \<Rightarrow> u32 \<Rightarrow> u8 list \<times> u8 list \<Rightarrow> u8 list \<times> u8 list" where
  "msg_part label v = (\<lambda>(msg, num).
     let msg = lb__append msg 128 (bytes_of label);
         num = lb__utoa num v
     in (lb__append msg 128 num, num))"

definition lb__on_decision ::
    "(ptr \<Rightarrow> u8 list \<Rightarrow> 'e \<Rightarrow> 'e) \<Rightarrow> u8 list \<Rightarrow> u8 list \<Rightarrow> microlog_ctx option \<Rightarrow>
     loxbudget_decision option \<Rightarrow> u8 \<Rightarrow> 'e \<Rightarrow> 'e" where
  "lb__on_decision write msg0 num0 ctx d op e =
     (case (ctx, d) of
        (Some c, Some d) \<Rightarrow>
          if ml_log c = 0 then e
          else if ucast (u8_of_action (d_action d)) < ml_min_action c then e
          else let s = (msg0[0 := 0], num0);
                   s = msg_part ''loxbudget op='' (ucast op) s;
                   s = msg_part '' action='' (ucast (u8_of_action (d_action d))) s;
                   s = msg_part '' pressure='' (ucast (u8_of_pressure (d_pressure d))) s;
                   s = msg_part '' reason='' (ucast (u8_of_reason (d_reason d))) s
               in write (ml_log c) (c_str (fst s)) e
      | _ \<Rightarrow> e)"

text \<open>
  Attaching stores the context in the static variable (the first component) and installs the
  hook; \<open>fn\<close> and \<open>ctx\<close> are the addresses of the function and of the variable.
\<close>

definition loxbudget_microlog_attach ::
    "ptr \<Rightarrow> ptr \<Rightarrow> loxbudget \<Rightarrow> ptr \<Rightarrow> c_enum \<Rightarrow> microlog_ctx \<times> loxbudget" where
  "loxbudget_microlog_attach fn ctx b log min_action_to_log =
     (\<lparr>ml_log = log, ml_min_action = min_action_to_log\<rparr>, snd (loxbudget_set_decision_hook b fn ctx))"

section \<open>Decimal numerals\<close>

text \<open>The reference: the decimal numeral of a number, by its definition.\<close>

fun decimal :: "nat \<Rightarrow> u8 list" where
  "decimal n = (if n < 10 then [of_nat (48 + n)] else decimal (n div 10) @ [of_nat (48 + n mod 10)])"

declare decimal.simps [simp del]

lemma digit_eq: "(0x30 + ucast (v mod 10 :: u32) :: u8) = of_nat (48 + unat v mod 10)"
proof (rule word_unat_eq_iff [THEN iffD2])
  have "unat (ucast (v mod 10) :: u8) = unat v mod 10"
    by (simp add: unat_ucast_mod unat_mod)
  moreover have "unat v mod 10 < 10" by simp
  ultimately show "unat (0x30 + ucast (v mod 10) :: u8) = unat (of_nat (48 + unat v mod 10) :: u8)"
    by (simp add: unat_word_ariths unat_of_nat take_bit_nat_eq_self_iff del: of_nat_add)
qed

lemma digits_decimal:
  "v \<noteq> 0 \<Longrightarrow> unat v < 10 ^ (10 - n) \<Longrightarrow> rev (utoa_digits n v) = decimal (unat v)"
proof (induction n v rule: utoa_digits.induct)
  case (1 n v)
  have n: "n < 10"
  proof (rule ccontr)
    assume "\<not> n < 10"
    then show False using "1.prems" by (simp add: unat_eq_zero)
  qed
  have digits: "utoa_digits n v = of_nat (48 + unat v mod 10) # utoa_digits (n + 1) (v div 10)"
    using "1.prems"(1) n digit_eq [of v] by (subst utoa_digits.simps) simp
  have div: "unat (v div 10) = unat v div 10" by (simp add: unat_div)
  show ?case
  proof (cases "v div 10 = 0")
    case True
    then have "unat v < 10" using div by (metis unat_0 div_eq_0_iff zero_neq_numeral)
    moreover have "utoa_digits (n + 1) 0 = []" by (subst utoa_digits.simps) simp
    ultimately show ?thesis by (simp add: digits True decimal.simps [of "unat v"])
  next
    case False
    have "10 - n = Suc (10 - (n + 1))" using n by simp
    then have "unat v < 10 * 10 ^ (10 - (n + 1))" using "1.prems"(2) by simp
    then have small: "unat (v div 10) < 10 ^ (10 - (n + 1))" unfolding div by (simp add: div_less_iff_less_mult mult.commute)
    have "\<not> unat v < 10"
    proof
      assume "unat v < 10"
      then have "unat (v div 10) = 0" by (simp add: div)
      then show False using False by (simp add: unat_eq_zero)
    qed
    then show ?thesis
      using "1.IH" [OF conjI [OF "1.prems"(1) n] False small] by (simp add: digits decimal.simps [of "unat v"] div)
  qed
qed

lemma digits_length: "length (utoa_digits n v) \<le> 10 - n"
proof (induction n v rule: utoa_digits.induct)
  case (1 n v)
  then show ?case by (subst utoa_digits.simps) (auto simp: le_diff_conv2)
qed

lemma decimal_nonzero: "c \<in> set (decimal n) \<Longrightarrow> c \<noteq> 0"
proof (induction n rule: decimal.induct)
  case (1 n)
  have digit: "(of_nat (48 + k) :: u8) \<noteq> 0" if "k < 10" for k
    using that by (simp add: word_unat_eq_iff unat_of_nat take_bit_nat_eq_self_iff del: of_nat_add)
  show ?case
    using 1 digit [of n] digit [of "n mod 10"] by (subst (asm) decimal.simps) (auto split: if_splits)
qed

text \<open>The copy writes as much of the reversed digits as fits, and a zero.\<close>

lemma utoa_copy_all:
  "i + j < length out \<Longrightarrow> j \<le> length tmp \<Longrightarrow>
   utoa_copy out tmp i j = take i out @ rev (take j tmp) @ [0] @ drop (i + j + 1) out"
proof (induction out tmp i j rule: utoa_copy.induct)
  case (1 out tmp i)
  then show ?case by (simp add: upd_conv_take_nth_drop)
next
  case (2 out tmp i j)
  then show ?case by (simp add: take_Suc_conv_app_nth list_update_append take_update_swap)
qed

lemma c_str_zero: "0 \<notin> set xs \<Longrightarrow> c_str (xs @ 0 # ys) = xs"
  unfolding c_str_def by (subst takeWhile_append2) auto

lemma decimal_0: "decimal 0 = [0x30]"
  by (simp add: decimal.simps)

lemma utoa_result:
  assumes "11 \<le> length out"
  shows "c_str (lb__utoa out v) = decimal (unat v)" and "length (lb__utoa out v) = length out"
    and "length (decimal (unat v)) \<le> 10"
proof -
  have *: "c_str (lb__utoa out v) = decimal (unat v) \<and> length (lb__utoa out v) = length out \<and>
    length (decimal (unat v)) \<le> 10"
  proof (cases "v = 0")
    case True
    obtain a b r where "out = a # b # r" using assms by (cases out; cases "tl out") auto
    then show ?thesis using True c_str_zero [of "[0x30]" r] by (simp add: lb__utoa_def decimal_0)
  next
    case False
    have "unat v < 10 ^ (10 - 0)" using unat_u32_bound [of v] by simp
    note rev = digits_decimal [OF False this]
    have len: "length (utoa_digits 0 v) = length (decimal (unat v))" by (metis rev length_rev)
    then have small: "length (decimal (unat v)) \<le> 10" using digits_length [of 0 v] by simp
    have "\<not> length out = 0" using assms by linarith
    then have "lb__utoa out v = utoa_copy out (utoa_digits 0 v) 0 (length (utoa_digits 0 v))"
      using False by (simp only: lb__utoa_def Let_def if_False)
    also have "\<dots> = decimal (unat v) @ 0 # drop (length (decimal (unat v)) + 1) out"
      using assms small len by (subst utoa_copy_all) (simp_all add: rev)
    finally have u: "lb__utoa out v = decimal (unat v) @ 0 # drop (length (decimal (unat v)) + 1) out" .
    have "0 \<notin> set (decimal (unat v))" using decimal_nonzero by blast
    then have "c_str (lb__utoa out v) = decimal (unat v)" unfolding u by (rule c_str_zero)
    then show ?thesis using assms small by (simp add: u)
  qed
  then show "c_str (lb__utoa out v) = decimal (unat v)" and "length (lb__utoa out v) = length out"
    and "length (decimal (unat v)) \<le> 10" by simp_all
qed

lemma c_str_nonzero: "0 \<notin> set (c_str s)"
  by (auto simp: c_str_def dest: set_takeWhileD)

lemma append_result:
  assumes "length (c_str buf) + length (c_str s) < cap" and "length buf = cap"
  shows "c_str (lb__append buf cap s) = c_str buf @ c_str s" and "length (lb__append buf cap s) = cap"
proof -
  have cur: "take (length (c_str buf)) buf = c_str buf"
    unfolding c_str_def by (rule takeWhile_eq_take [symmetric])
  show "c_str (lb__append buf cap s) = c_str buf @ c_str s"
  proof (cases "length (c_str buf) + 1 \<ge> cap")
    case True
    then have "length (c_str s) = 0" using assms(1) by linarith
    then show ?thesis using True by (simp add: lb__append_def Let_def)
  next
    case False
    then have "lb__append buf cap s = (c_str buf @ c_str s) @ 0 # drop (length (c_str buf) + length (c_str s) + 1) buf"
      using assms by (simp add: lb__append_def strncat_def Let_def cur)
    then show ?thesis using c_str_zero [of "c_str buf @ c_str s"] c_str_nonzero by simp
  qed
  show "length (lb__append buf cap s) = cap"
    using assms by (auto simp: lb__append_def strncat_def Let_def min_def)
qed

lemma msg_part_result:
  assumes "length msg = 128" and "length num = 16" and "0 \<notin> set (bytes_of label)"
    and "length (c_str msg) + length (bytes_of label) + 10 < 128"
  shows "c_str (fst (msg_part label v (msg, num))) = c_str msg @ bytes_of label @ decimal (unat v)"
    and "length (fst (msg_part label v (msg, num))) = 128" and "length (snd (msg_part label v (msg, num))) = 16"
proof -
  have label: "c_str (bytes_of label) = bytes_of label"
    unfolding c_str_def takeWhile_eq_all_conv using assms(3) by blast
  have num: "c_str (lb__utoa num v) = decimal (unat v)" "length (lb__utoa num v) = 16"
    "length (decimal (unat v)) \<le> 10"
    using utoa_result [of num v] assms(2) by simp_all
  note first = append_result [of msg "bytes_of label" 128, unfolded label]
  note second = append_result [of "lb__append msg 128 (bytes_of label)" "lb__utoa num v" 128, unfolded num(1)]
  show "c_str (fst (msg_part label v (msg, num))) = c_str msg @ bytes_of label @ decimal (unat v)"
    and "length (fst (msg_part label v (msg, num))) = 128" and "length (snd (msg_part label v (msg, num))) = 16"
    using first second num assms by (simp_all only: msg_part_def Let_def split fst_conv snd_conv) (simp_all add: append_assoc)
qed

section \<open>The line of a decision\<close>

definition log_line :: "loxbudget_decision \<Rightarrow> u8 \<Rightarrow> u8 list" where
  "log_line d op =
     bytes_of ''loxbudget op='' @ decimal (unat op) @
     bytes_of '' action='' @ decimal (unat (u8_of_action (d_action d))) @
     bytes_of '' pressure='' @ decimal (unat (u8_of_pressure (d_pressure d))) @
     bytes_of '' reason='' @ decimal (unat (u8_of_reason (d_reason d)))"

lemma labels:
  "length (bytes_of ''loxbudget op='') = 13" "length (bytes_of '' action='') = 8"
  "length (bytes_of '' pressure='') = 10" "length (bytes_of '' reason='') = 8"
  "0 \<notin> set (bytes_of ''loxbudget op='')" "0 \<notin> set (bytes_of '' action='')"
  "0 \<notin> set (bytes_of '' pressure='')" "0 \<notin> set (bytes_of '' reason='')"
  by (simp_all add: bytes_of_def)

lemma on_decision_writes:
  assumes "length msg0 = 128" and "length num0 = 16" and "ml_log c \<noteq> 0"
    and "ml_min_action c \<le> ucast (u8_of_action (d_action d))"
  shows "lb__on_decision write msg0 num0 (Some c) (Some d) op e = write (ml_log c) (log_line d op) e"
proof -
  have dec: "length (decimal (unat (ucast (x :: u8) :: u32))) \<le> 10" for x
    using utoa_result(3) [of "replicate 11 0" "ucast x"] by simp
  let ?s0 = "(msg0[0 := 0], num0)"
  obtain m1 n1 where 1: "msg_part ''loxbudget op='' (ucast op) ?s0 = (m1, n1)" by fastforce
  obtain m2 n2 where 2: "msg_part '' action='' (ucast (u8_of_action (d_action d))) (m1, n1) = (m2, n2)" by fastforce
  obtain m3 n3 where 3: "msg_part '' pressure='' (ucast (u8_of_pressure (d_pressure d))) (m2, n2) = (m3, n3)" by fastforce
  obtain m4 n4 where 4: "msg_part '' reason='' (ucast (u8_of_reason (d_reason d))) (m3, n3) = (m4, n4)" by fastforce
  have "c_str (msg0[0 := 0]) = []" using assms(1) by (cases msg0) (simp_all add: c_str_def)
  then have r1: "c_str m1 = bytes_of ''loxbudget op='' @ decimal (unat op)" "length m1 = 128" "length n1 = 16"
    using msg_part_result [of "msg0[0 := 0]" num0 "''loxbudget op=''" "ucast op"] assms labels 1 by simp_all
  have r2: "c_str m2 = c_str m1 @ bytes_of '' action='' @ decimal (unat (u8_of_action (d_action d)))"
    "length m2 = 128" "length n2 = 16"
    using msg_part_result [of m1 n1 "'' action=''" "ucast (u8_of_action (d_action d))"] r1 labels dec [of op] 2
    by simp_all
  have r3: "c_str m3 = c_str m2 @ bytes_of '' pressure='' @ decimal (unat (u8_of_pressure (d_pressure d)))"
    "length m3 = 128" "length n3 = 16"
    using msg_part_result [of m2 n2 "'' pressure=''" "ucast (u8_of_pressure (d_pressure d))"] r1 r2 labels
      dec [of op] dec [of "u8_of_action (d_action d)"] 3
    by simp_all
  have r4: "c_str m4 = c_str m3 @ bytes_of '' reason='' @ decimal (unat (u8_of_reason (d_reason d)))"
    using msg_part_result [of m3 n3 "'' reason=''" "ucast (u8_of_reason (d_reason d))"] r1 r2 r3 labels
      dec [of op] dec [of "u8_of_action (d_action d)"] dec [of "u8_of_pressure (d_pressure d)"] 4
    by simp_all
  have "c_str m4 = log_line d op" by (simp add: r1 r2 r3 r4 log_line_def)
  moreover have "\<not> ucast (u8_of_action (d_action d)) < ml_min_action c" using assms(4) by (simp only: not_less)
  ultimately show ?thesis
    using assms(3) by (simp add: lb__on_decision_def Let_def 1 2 3 4)
qed

text \<open>A host without callbacks of its own: only the hook touches the environment.\<close>

lemma host_observes: "observes (host_platform h) b (\<lambda>e. e) (\<lambda>e. e) (\<lambda>e. e)"
  by (simp add: observes_def hal_c_defs hal_wrapper_defs)

section \<open>Properties\<close>

text \<open>The hook of a program that attached microlog with the address \<open>fn\<close>: the log grows at its head.\<close>

definition microlog_hook ::
    "ptr \<Rightarrow> u8 list \<Rightarrow> u8 list \<Rightarrow> microlog_ctx \<Rightarrow>
     ptr \<Rightarrow> ptr \<Rightarrow> loxbudget \<Rightarrow> loxbudget_decision \<Rightarrow> u8 \<Rightarrow> (ptr \<times> u8 list) list \<Rightarrow> (ptr \<times> u8 list) list" where
  "microlog_hook fn msg0 num0 ctx f u b d op lines =
     (if f = fn then lb__on_decision (\<lambda>log line lines. (log, line) # lines) msg0 num0 (Some ctx) (Some d) op lines
      else lines)"

text \<open>
  C30. With microlog attached, a check appends exactly one line to the log that was attached when
  the action is at or above the threshold, and none otherwise. The line is the complete text
  \<open>loxbudget op=N action=N pressure=N reason=N\<close> in decimal, never truncated, whatever the two stack
  buffers of 128 and 16 bytes held before.
\<close>

theorem microlog_logs_decisions:
  assumes "lb_shape B b" and "fn \<noteq> 0" and "log \<noteq> 0" and "length msg0 = 128" and "length num0 = 16"
    and attach: "loxbudget_microlog_attach fn cx b log threshold = (ctx, b1)"
    and check: "loxbudget_check B (host_platform (microlog_hook fn msg0 num0 ctx)) b1 op True lines =
      (st, Some d, b2, lines')"
  shows "lines' = (if threshold \<le> ucast (u8_of_action (d_action d)) then (log, log_line d op) # lines else lines)"
proof -
  have "b_magic b = LOXBUDGET_MAGIC_INIT" by (rule shape_magic [OF assms(1)])
  then have b1: "b_magic b1 = LOXBUDGET_MAGIC_INIT" "b_decision_hook b1 = fn"
    and ctx: "ctx = \<lparr>ml_log = log, ml_min_action = threshold\<rparr>"
    using attach by (auto simp: loxbudget_microlog_attach_def loxbudget_set_decision_hook_def)
  have "lines' = microlog_hook fn msg0 num0 ctx fn (b_decision_hook_user b2) b2 d op lines"
    using check_runs_hook [OF host_observes check b1(1)] check_hook_fields(1) [OF check] \<open>fn \<noteq> 0\<close>
    by (simp add: run_hook_def b1(2)) (simp add: host_platform_def)
  then show ?thesis
    using on_decision_writes [OF assms(4,5), of ctx d _ op lines] \<open>log \<noteq> 0\<close>
    by (simp add: microlog_hook_def ctx) (simp add: lb__on_decision_def not_le)
qed

theorem microlog_logs_decisions_witness:
  "\<exists>ctx b1 st d b2 lines'. loxbudget_microlog_attach 9 10 sample_ops 5 0 = (ctx, b1) \<and>
     loxbudget_check fixed_build (host_platform (microlog_hook 9 (replicate 128 7) (replicate 16 7) ctx)) b1 0 True [] =
       (st, Some d, b2, lines') \<and>
     lines' = [(5, log_line d 0)]"
proof -
  obtain ctx b1 where attach: "loxbudget_microlog_attach 9 10 sample_ops 5 0 = (ctx, b1)" by fastforce
  then have "b_magic b1 = LOXBUDGET_MAGIC_INIT"
    by (auto simp: loxbudget_microlog_attach_def loxbudget_set_decision_hook_def sample_ops_simps)
  from check_returns [OF this, of fixed_build
      "host_platform (microlog_hook 9 (replicate 128 7) (replicate 16 7) ctx)" 0 "[]"]
  obtain d b2 lines' where check: "loxbudget_check fixed_build
      (host_platform (microlog_hook 9 (replicate 128 7) (replicate 16 7) ctx)) b1 0 True [] =
      (LOXBUDGET_OK, Some d, b2, lines')" by blast
  have "lines' = [(5, log_line d 0)]"
    using microlog_logs_decisions [OF sample_ops_ok(1) _ _ _ _ attach check] by simp
  with attach check show ?thesis by blast
qed

end
