(* ===== verification/LB_Adapters.thy ===== *)
theory LB_Adapters
  imports LB_Api LB_Microlog
begin

text \<open>
  The other adapters under \<open>adapters/\<close>: loxguard and nvlog (records of decisions for a flight
  recorder and a persistent log), microbus (events), microconf (configuration) and
  microhealth (pressure from a health percentage). The services they talk to are not part of
  the repository; their functions are parameters. Each adapter keeps one static context whose
  \<open>budget\<close> member is a pointer, read through \<open>mem\<close>, the instances at their addresses.
\<close>

section \<open>loxguard\<close>

record adapter_record =
  ar_uptime_ms :: u32
  ar_op_id :: u8
  ar_action :: u8
  ar_pressure :: u8
  ar_reason :: u8

text \<open>The record both adapters build from a decision and a snapshot of the instance.\<close>

definition decision_record :: "loxbudget_snapshot \<Rightarrow> loxbudget_decision \<Rightarrow> u8 \<Rightarrow> adapter_record" where
  "decision_record snap d op =
     \<lparr>ar_uptime_ms = n_uptime_ms snap, ar_op_id = op, ar_action = u8_of_action (d_action d),
      ar_pressure = u8_of_pressure (d_pressure d), ar_reason = u8_of_reason (d_reason d)\<rparr>"

record lb__lg_ctx =
  lg_budget :: ptr
  lg_guard :: ptr

definition lb__lg_on_decision ::
    "(ptr \<Rightarrow> adapter_record \<Rightarrow> 'e \<Rightarrow> 'e) \<Rightarrow> (ptr \<Rightarrow> 'e \<Rightarrow> 'e) \<Rightarrow> 'e platform \<Rightarrow> (ptr \<rightharpoonup> loxbudget) \<Rightarrow>
     lb__lg_ctx option \<Rightarrow> loxbudget_decision option \<Rightarrow> u8 \<Rightarrow> 'e \<Rightarrow> 'e" where
  "lb__lg_on_decision push flush P mem ctx d op e =
     (case (ctx, d) of
        (Some c, Some d) \<Rightarrow>
          if lg_budget c = 0 \<or> lg_guard c = 0 then e
          else if d_action d \<noteq> LOXBUDGET_REJECT \<and> d_action d \<noteq> LOXBUDGET_LOCKDOWN then e
          else (case loxbudget_snapshot_of P (the (mem (lg_budget c))) True e of (st, snap, e1) \<Rightarrow>
            if st \<noteq> LOXBUDGET_OK then e1
            else let e2 = push (lg_guard c) (decision_record (the snap) d op) e1
                 in if d_action d = LOXBUDGET_LOCKDOWN then flush (lg_guard c) e2 else e2)
      | _ \<Rightarrow> e)"

text \<open>Installing a hook on the instance at an address; the status is ignored by all callers.\<close>

definition install_hook :: "(ptr \<rightharpoonup> loxbudget) \<Rightarrow> ptr \<Rightarrow> ptr \<Rightarrow> ptr \<Rightarrow> (ptr \<rightharpoonup> loxbudget)" where
  "install_hook mem budget fn ctx =
     (case mem budget of None \<Rightarrow> mem | Some b \<Rightarrow> mem(budget \<mapsto> snd (loxbudget_set_decision_hook b fn ctx)))"

definition loxbudget_loxguard_attach ::
    "ptr \<Rightarrow> ptr \<Rightarrow> (ptr \<rightharpoonup> loxbudget) \<Rightarrow> ptr \<Rightarrow> ptr \<Rightarrow> lb__lg_ctx \<times> (ptr \<rightharpoonup> loxbudget)" where
  "loxbudget_loxguard_attach fn ctx mem budget guard =
     (\<lparr>lg_budget = budget, lg_guard = guard\<rparr>, install_hook mem budget fn ctx)"

section \<open>nvlog\<close>

record lb__nv_ctx =
  nv_budget :: ptr
  nv_log :: ptr
  nv_min_severity :: u8

definition lb__nv_severity :: "loxbudget_action \<Rightarrow> u8" where
  "lb__nv_severity a =
     (case a of LOXBUDGET_ALLOW_FULL \<Rightarrow> 0 | LOXBUDGET_ALLOW_DEGRADED \<Rightarrow> 1 | LOXBUDGET_WAIT \<Rightarrow> 2
      | LOXBUDGET_REJECT \<Rightarrow> 3 | LOXBUDGET_LOCKDOWN \<Rightarrow> 4 | _ \<Rightarrow> 255)"

definition lb__nv_on_decision ::
    "(ptr \<Rightarrow> u8 \<Rightarrow> adapter_record \<Rightarrow> 'e \<Rightarrow> 'e) \<Rightarrow> 'e platform \<Rightarrow> (ptr \<rightharpoonup> loxbudget) \<Rightarrow>
     lb__nv_ctx option \<Rightarrow> loxbudget_decision option \<Rightarrow> u8 \<Rightarrow> 'e \<Rightarrow> 'e" where
  "lb__nv_on_decision write P mem ctx d op e =
     (case (ctx, d) of
        (Some c, Some d) \<Rightarrow>
          if nv_budget c = 0 \<or> nv_log c = 0 then e
          else let sev = lb__nv_severity (d_action d) in
            if sev < nv_min_severity c then e
            else (case loxbudget_snapshot_of P (the (mem (nv_budget c))) True e of (st, snap, e1) \<Rightarrow>
              if st \<noteq> LOXBUDGET_OK then e1
              else write (nv_log c) sev (decision_record (the snap) d op) e1)
      | _ \<Rightarrow> e)"

definition loxbudget_nvlog_attach ::
    "ptr \<Rightarrow> ptr \<Rightarrow> (ptr \<rightharpoonup> loxbudget) \<Rightarrow> ptr \<Rightarrow> ptr \<Rightarrow> u8 \<Rightarrow> lb__nv_ctx \<times> (ptr \<rightharpoonup> loxbudget)" where
  "loxbudget_nvlog_attach fn ctx mem budget log min_severity =
     (\<lparr>nv_budget = budget, nv_log = log, nv_min_severity = min_severity\<rparr>, install_hook mem budget fn ctx)"

section \<open>microbus\<close>

definition LOXBUDGET_MICROBUS_PRESSURE_CHANGED :: u32 where "LOXBUDGET_MICROBUS_PRESSURE_CHANGED = 1"
definition LOXBUDGET_MICROBUS_BUDGET_DENIED :: u32 where "LOXBUDGET_MICROBUS_BUDGET_DENIED = 2"
definition LOXBUDGET_MICROBUS_LOCKDOWN_ENTERED :: u32 where "LOXBUDGET_MICROBUS_LOCKDOWN_ENTERED = 3"

record lb__mb_ctx =
  mb_bus :: ptr

text \<open>\<open>publish\<close> is \<open>microbus_publish_event\<close>: a bus, an event id and three words.\<close>

definition lb__mb_on_decision ::
    "(ptr \<Rightarrow> u32 \<Rightarrow> u32 \<times> u32 \<times> u32 \<Rightarrow> 'e \<Rightarrow> 'e) \<Rightarrow> lb__mb_ctx option \<Rightarrow> loxbudget_decision option \<Rightarrow> u8 \<Rightarrow> 'e \<Rightarrow> 'e" where
  "lb__mb_on_decision publish ctx d op e =
     (case (ctx, d) of
        (Some c, Some d) \<Rightarrow>
          if mb_bus c = 0 then e
          else let w = (ucast op, ucast (u8_of_reason (d_reason d)), ucast (u8_of_pressure (d_pressure d))) in
            if d_action d = LOXBUDGET_REJECT then publish (mb_bus c) LOXBUDGET_MICROBUS_BUDGET_DENIED w e
            else if d_action d = LOXBUDGET_LOCKDOWN then publish (mb_bus c) LOXBUDGET_MICROBUS_LOCKDOWN_ENTERED w e
            else e
      | _ \<Rightarrow> e)"

definition loxbudget_microbus_attach ::
    "ptr \<Rightarrow> ptr \<Rightarrow> (ptr \<rightharpoonup> loxbudget) \<Rightarrow> ptr \<Rightarrow> ptr \<Rightarrow> lb__mb_ctx \<times> (ptr \<rightharpoonup> loxbudget)" where
  "loxbudget_microbus_attach fn ctx mem budget bus = (\<lparr>mb_bus = bus\<rparr>, install_hook mem budget fn ctx)"

definition loxbudget_microbus_set_pressure ::
    "(ptr \<Rightarrow> u32 \<Rightarrow> u32 \<times> u32 \<times> u32 \<Rightarrow> 'e \<Rightarrow> 'e) \<Rightarrow> 'e platform \<Rightarrow> loxbudget option \<Rightarrow> ptr \<Rightarrow> c_enum \<Rightarrow> 'e \<Rightarrow>
     loxbudget_status \<times> loxbudget option \<times> 'e" where
  "loxbudget_microbus_set_pressure publish P bp bus pressure e =
     (case bp of None \<Rightarrow> (LOXBUDGET_ERR_INVALID_ARG, bp, e) | Some b \<Rightarrow>
        if bus = 0 then (LOXBUDGET_ERR_INVALID_ARG, bp, e)
        else (case loxbudget_set_pressure P b pressure e of (st, b', e1) \<Rightarrow>
          (st, Some b',
           if st = LOXBUDGET_OK then publish bus LOXBUDGET_MICROBUS_PRESSURE_CHANGED (pressure, 0, 0) e1 else e1)))"

section \<open>microhealth\<close>

record loxbudget_pressure_thresholds =
  elevated_pct :: u16
  critical_pct :: u16
  survival_pct :: u16

definition lb__mh_map :: "loxbudget_pressure_thresholds \<Rightarrow> u16 \<Rightarrow> loxbudget_pressure" where
  "lb__mh_map t pct =
     (if pct \<ge> survival_pct t then LOXBUDGET_PRESSURE_SURVIVAL
      else if pct \<ge> critical_pct t then LOXBUDGET_PRESSURE_CRITICAL
      else if pct \<ge> elevated_pct t then LOXBUDGET_PRESSURE_ELEVATED
      else LOXBUDGET_PRESSURE_NORMAL)"

record lb__mh_ctx =
  mh_budget :: ptr
  mh_health :: ptr
  mh_t :: loxbudget_pressure_thresholds

text \<open>\<open>health_pct\<close> is \<open>microhealth_pressure_pct\<close>, \<open>subscribe\<close> is \<open>microhealth_subscribe\<close>.\<close>

definition lb__mh_on_change ::
    "(ptr \<Rightarrow> 'e \<Rightarrow> u16 \<times> 'e) \<Rightarrow> 'e platform \<Rightarrow> (ptr \<rightharpoonup> loxbudget) \<Rightarrow> lb__mh_ctx option \<Rightarrow> 'e \<Rightarrow>
     (ptr \<rightharpoonup> loxbudget) \<times> 'e" where
  "lb__mh_on_change health_pct P mem ctx e =
     (case ctx of None \<Rightarrow> (mem, e) | Some c \<Rightarrow>
        if mh_budget c = 0 \<or> mh_health c = 0 then (mem, e)
        else (case health_pct (mh_health c) e of (pct, e1) \<Rightarrow>
          (case loxbudget_set_pressure P (the (mem (mh_budget c)))
                  (ucast (u8_of_pressure (lb__mh_map (mh_t c) pct))) e1 of
             (_, b', e2) \<Rightarrow> (mem(mh_budget c \<mapsto> b'), e2))))"

definition loxbudget_microhealth_attach ::
    "(ptr \<Rightarrow> 'e \<Rightarrow> u16 \<times> 'e) \<Rightarrow> (ptr \<Rightarrow> ptr \<Rightarrow> ptr \<Rightarrow> 'e \<Rightarrow> 'e) \<Rightarrow> ptr \<Rightarrow> ptr \<Rightarrow> 'e platform \<Rightarrow>
     lb__mh_ctx option \<Rightarrow> (ptr \<rightharpoonup> loxbudget) \<Rightarrow> ptr \<Rightarrow> ptr \<Rightarrow> loxbudget_pressure_thresholds option \<Rightarrow> 'e \<Rightarrow>
     lb__mh_ctx option \<times> (ptr \<rightharpoonup> loxbudget) \<times> 'e" where
  "loxbudget_microhealth_attach health_pct subscribe fn cx P old mem budget health t e =
     (if budget = 0 \<or> health = 0 \<or> t = None then (old, mem, e)
      else let ctx = Some \<lparr>mh_budget = budget, mh_health = health, mh_t = the t\<rparr>;
               e1 = subscribe health fn cx e
           in (ctx, lb__mh_on_change health_pct P mem ctx e1))"

section \<open>microconf\<close>

record loxbudget_microconf_resource =
  mr_id :: u8
  mr_limit :: u16
  mr_kind :: u8

record loxbudget_microconf_need =
  mn_op_id :: u8
  mn_resource_id :: u8
  mn_amount :: u16

text \<open>What the six accessors of a configuration object return: three counts and three arrays.\<close>

record microconf =
  mc_resources :: "loxbudget_microconf_resource list option"
  mc_resource_count :: nat
  mc_ops :: "loxbudget_op_profile list option"
  mc_op_count :: nat
  mc_needs :: "loxbudget_microconf_need list option"
  mc_need_count :: nat

text \<open>One of the three loops: the calls in order, up to the first that fails.\<close>

fun load_each :: "('a \<Rightarrow> loxbudget \<Rightarrow> loxbudget_status \<times> loxbudget) \<Rightarrow> 'a list \<Rightarrow> loxbudget \<Rightarrow>
     loxbudget_status \<times> loxbudget" where
  "load_each call [] b = (LOXBUDGET_OK, b)"
| "load_each call (x # xs) b =
     (case call x b of (st, b') \<Rightarrow> if st \<noteq> LOXBUDGET_OK then (st, b') else load_each call xs b')"

definition array :: "nat \<Rightarrow> 'a list option \<Rightarrow> 'a list" where
  "array n xs = (case xs of None \<Rightarrow> [] | Some ys \<Rightarrow> take n ys)"

definition load_section :: "('a \<Rightarrow> loxbudget \<Rightarrow> loxbudget_status \<times> loxbudget) \<Rightarrow> nat \<Rightarrow> 'a list option \<Rightarrow>
     loxbudget \<Rightarrow> loxbudget_status \<times> loxbudget" where
  "load_section call n xs b =
     (if n \<noteq> 0 \<and> xs = None then (LOXBUDGET_ERR_INVALID_ARG, b)
      else load_each call (array n xs) b)"

definition loxbudget_microconf_load ::
    "loxbudget option \<Rightarrow> microconf option \<Rightarrow> loxbudget_status \<times> loxbudget option" where
  "loxbudget_microconf_load bp conf =
     (case (bp, conf) of
        (Some b, Some c) \<Rightarrow>
          (case load_section (\<lambda>r b. loxbudget_set_resource b (mr_id r) (mr_limit r) (ucast (mr_kind r)))
                  (mc_resource_count c) (mc_resources c) b of
             (st, b1) \<Rightarrow> if st \<noteq> LOXBUDGET_OK then (st, Some b1)
           else (case load_section (\<lambda>p b. loxbudget_register_op b (Some p)) (mc_op_count c) (mc_ops c) b1 of
             (st, b2) \<Rightarrow> if st \<noteq> LOXBUDGET_OK then (st, Some b2)
           else (case load_section (\<lambda>n b. loxbudget_op_set_need b (mn_op_id n) (mn_resource_id n) (mn_amount n))
                  (mc_need_count c) (mc_needs c) b2 of
             (st, b3) \<Rightarrow> (st, Some b3))))
      | _ \<Rightarrow> (LOXBUDGET_ERR_INVALID_ARG, bp))"

section \<open>The decision hooks and the health callback\<close>

text \<open>
  The static context of an adapter is written by every attach and handed to every instance:
  when two instances are attached, a refusal of the first is recorded with the uptime of the
  second and in the second's recorder.
\<close>

lemma adapters_share_context:
  assumes "mem p1 = Some b1" and "mem p2 = Some b2" and "p1 \<noteq> p2" and "p2 \<noteq> 0" and "g2 \<noteq> 0"
    and "b_magic b1 = LOXBUDGET_MAGIC_INIT" and "b_magic b2 = LOXBUDGET_MAGIC_INIT"
    and "loxbudget_loxguard_attach fn cx mem p1 g1 = (c1, m1)"
    and "loxbudget_loxguard_attach fn cx m1 p2 g2 = (c2, m2)" and "d_action d = LOXBUDGET_REJECT"
  shows "map_option b_decision_hook_user (m2 p1) = Some cx" and "map_option b_decision_hook_user (m2 p2) = Some cx"
    and "\<exists>snap e1. loxbudget_snapshot_of P (the (m2 p2)) True e = (LOXBUDGET_OK, Some snap, e1) \<and>
      lb__lg_on_decision push flush P m2 (Some c2) (Some d) op e = push g2 (decision_record snap d op) e1"
  using assms
  by (auto simp: loxbudget_loxguard_attach_def install_hook_def loxbudget_set_decision_hook_def
      lb__lg_on_decision_def loxbudget_snapshot_of_def split: prod.splits)

text \<open>
  The health callback: with ordered thresholds a higher percentage never maps to a lower
  pressure, and the mapped pressure is always accepted.
\<close>

lemma mh_map_mono:
  assumes "p \<le> q"
  shows "u8_of_pressure (lb__mh_map t p) \<le> u8_of_pressure (lb__mh_map t q)"
  using assms by (auto simp: lb__mh_map_def)

lemma mh_map_sets:
  assumes "b_magic b = LOXBUDGET_MAGIC_INIT"
  shows "\<exists>b' e'. loxbudget_set_pressure P b (ucast (u8_of_pressure (lb__mh_map t p))) e = (LOXBUDGET_OK, b', e') \<and>
     b_pressure b' = u8_of_pressure (lb__mh_map t p)"
  using assms by (auto simp: loxbudget_set_pressure_def lb__mh_map_def Let_def)

text \<open>The persistent log writes every decision whose severity reaches the threshold, and no other.\<close>

lemma nv_writes:
  assumes "nv_budget c \<noteq> 0" and "nv_log c \<noteq> 0" and "mem (nv_budget c) = Some b"
    and "loxbudget_snapshot_of P b True e = (LOXBUDGET_OK, Some snap, e1)"
  shows "lb__nv_on_decision write P mem (Some c) (Some d) op e =
      (if nv_min_severity c \<le> lb__nv_severity (d_action d)
       then write (nv_log c) (lb__nv_severity (d_action d)) (decision_record snap d op) e1 else e)"
  using assms by (auto simp: lb__nv_on_decision_def Let_def not_less)

section \<open>Loading a configuration\<close>

text \<open>
  What a configuration object says, as three finite maps: the configured resources, the
  registered profiles and the needs per operation and resource. A loop of the loader writes
  its entries into one of the maps, the last entry of a key winning, and leaves the others.
\<close>

definition configured :: "loxbudget \<Rightarrow> u8 \<rightharpoonup> loxbudget_resource" where
  "configured b r = (if r < b_max_resources b \<and> t_res_cfg b ! unat r \<noteq> 0 then Some (t_resources b ! unat r) else None)"

definition need_table :: "loxbudget \<Rightarrow> u8 \<times> u8 \<rightharpoonup> u16" where
  "need_table b = (\<lambda>(op, r). if op < b_max_ops b then need_map (op_needs b op) r else None)"

definition fresh_resource :: "loxbudget_microconf_resource \<Rightarrow> loxbudget_resource" where
  "fresh_resource x = \<lparr>r_limit = mr_limit x, r_used = 0, r_reserved = 0, r_high_watermark = 0,
     r_kind = mr_kind x, r_flags = 1\<rparr>"

locale map_loader =
  fixes inv :: "loxbudget \<Rightarrow> bool"
    and call :: "'a \<Rightarrow> loxbudget \<Rightarrow> loxbudget_status \<times> loxbudget"
    and look :: "loxbudget \<Rightarrow> 'k \<rightharpoonup> 'v" and frame :: "loxbudget \<Rightarrow> 'f"
    and key :: "'a \<Rightarrow> 'k" and val :: "'a \<Rightarrow> 'v"
  assumes keeps: "inv b \<Longrightarrow> inv (snd (call x b))"
    and writes: "inv b \<Longrightarrow> call x b = (LOXBUDGET_OK, b') \<Longrightarrow> look b' = (look b)(key x \<mapsto> val x) \<and> frame b' = frame b"
begin

lemma load_each_inv: "inv b \<Longrightarrow> inv (snd (load_each call xs b))"
proof (induction xs arbitrary: b)
  case (Cons x xs)
  then show ?case using keeps [of b x] by (cases "call x b") simp
qed simp

lemma load_each_OK:
  "inv b \<Longrightarrow> load_each call xs b = (LOXBUDGET_OK, b') \<Longrightarrow>
   look b' = look b ++ map_of (rev (map (\<lambda>x. (key x, val x)) xs)) \<and> frame b' = frame b"
proof (induction xs arbitrary: b)
  case (Cons x xs)
  obtain st c where c: "call x b = (st, c)" by (cases "call x b")
  with Cons.prems have "st = LOXBUDGET_OK" "load_each call xs c = (LOXBUDGET_OK, b')"
    by (auto split: if_splits)
  with Cons.IH [of c] Cons.prems(1) keeps [of b x] writes [of b x c] c show ?case
    by (simp add: map_add_upd_left map_add_def fun_eq_iff split: option.splits)
qed simp

lemma load_section_inv: "inv b \<Longrightarrow> inv (snd (load_section call n xs b))"
  by (simp add: load_section_def load_each_inv)

lemma load_section_OK:
  "inv b \<Longrightarrow> load_section call n xs b = (LOXBUDGET_OK, b') \<Longrightarrow>
   inv b' \<and> look b' = look b ++ map_of (rev (map (\<lambda>x. (key x, val x)) (array n xs))) \<and> frame b' = frame b"
  using load_section_inv [of b n xs] load_each_OK [of b "array n xs" b']
  by (simp add: load_section_def split: if_splits)

end

text \<open>The frames of the three calls.\<close>

lemma kind_byte: "(ucast (ucast (k :: u8) :: c_enum) :: u8) = k"
  using unat_u8_bound [of k] by (simp add: word_unat_eq_iff unat_ucast_mod)

lemma set_resource_writes:
  assumes "inst_ok B b" and "loxbudget_set_resource b (mr_id x) (mr_limit x) (ucast (mr_kind x)) = (LOXBUDGET_OK, b')"
  shows "configured b' = (configured b)(mr_id x \<mapsto> fresh_resource x)"
    and "loxbudget_profile_c b' = loxbudget_profile_c b" and "need_table b' = need_table b"
proof -
  have x: "mr_id x < b_max_resources b" and b': "b' = b\<lparr>t_resources := (t_resources b)[unat (mr_id x) := fresh_resource x],
      t_res_cfg := (t_res_cfg b)[unat (mr_id x) := 1]\<rparr>"
    using assms(2) by (simp_all add: set_resource_OK fresh_resource_def kind_byte)
  have s: "size_shape b" by (rule inst_okD(5) [OF assms(1)])
  have l: "unat (mr_id x) < length (t_resources b)" "unat (mr_id x) < length (t_res_cfg b)"
    using x size_shape_lengths [OF s] by (auto simp: word_less_nat_alt)
  show "configured b' = (configured b)(mr_id x \<mapsto> fresh_resource x)"
    using x l by (auto simp: configured_def b' fun_eq_iff nth_list_update word_unat_eq_iff word_less_nat_alt)
  show "loxbudget_profile_c b' = loxbudget_profile_c b" "need_table b' = need_table b"
    by (auto simp: loxbudget_profile_c_def need_table_def op_needs_def b' fun_eq_iff)
qed

lemma register_op_writes:
  assumes "inst_ok B b" and "loxbudget_register_op b (Some p) = (LOXBUDGET_OK, b')"
  shows "loxbudget_profile_c b' = (loxbudget_profile_c b)(p_op_id p \<mapsto> p)"
    and "configured b' = configured b" and "need_table b' = need_table b"
proof -
  have s: "size_shape b" and c: "config_ok b" by (rule inst_okD [OF assms(1)])+
  have p: "p_op_id p < b_max_ops b" "t_op_cfg b ! unat (p_op_id p) = 0"
    and b': "b' = b\<lparr>t_ops := (t_ops b)[unat (p_op_id p) := p],
              t_op_cfg := (t_op_cfg b)[unat (p_op_id p) := 1],
              t_needs := set_chunk LOXBUDGET_MAX_NEEDS_PER_OP (unat (p_op_id p))
                (replicate LOXBUDGET_MAX_NEEDS_PER_OP zero_need) (t_needs b)\<rparr>"
    using assms(2) by (auto simp: register_op_OK)
  have l: "unat (p_op_id p) < length (t_ops b)" "unat (p_op_id p) < length (t_op_cfg b)"
    using p(1) size_shape_lengths [OF s] by (auto simp: word_less_nat_alt)
  show "loxbudget_profile_c b' = (loxbudget_profile_c b)(p_op_id p \<mapsto> p)"
    using p l by (auto simp: loxbudget_profile_c_def b' fun_eq_iff nth_list_update word_unat_eq_iff word_le_nat_alt word_less_nat_alt)
  show "configured b' = configured b"
    by (simp add: configured_def b' fun_eq_iff)
  have "need_map (op_needs b (p_op_id p)) = Map.empty"
    using c p dom_need_map [of "op_needs b (p_op_id p)"] by (simp add: config_ok_def op_config_ok_def)
  moreover have "op_needs b' op = (if op = p_op_id p then replicate LOXBUDGET_MAX_NEEDS_PER_OP zero_need
      else op_needs b op)" if "op < b_max_ops b" for op
    using op_needs_set [OF s p(1) that, of "replicate LOXBUDGET_MAX_NEEDS_PER_OP zero_need"]
    by (simp add: b' op_needs_def)
  ultimately show "need_table b' = need_table b"
    by (auto simp: need_table_def fun_eq_iff b' simp del: replicate.simps)
qed

lemma op_set_need_writes:
  assumes "inst_ok B b" and "loxbudget_op_set_need b op r a = (LOXBUDGET_OK, b')"
  shows "need_table b' = (need_table b)((op, r) \<mapsto> a)"
    and "loxbudget_profile_c b' = loxbudget_profile_c b" and "configured b' = configured b"
proof -
  have s: "size_shape b" and c: "config_ok b" by (rule inst_okD [OF assms(1)])+
  note eff = op_set_need_effect [OF s c assms(2)]
  obtain ns where b': "b' = b\<lparr>t_needs := ns\<rparr>" using eff(5) by blast
  have "op < b_max_ops b" using assms(2) by (simp add: op_set_need_OK)
  then have "need_table b' (x, y) = ((need_table b)((op, r) \<mapsto> a)) (x, y)" for x y
    using eff(1,4) by (cases "x = op") (simp_all add: need_table_def b')
  then show "need_table b' = (need_table b)((op, r) \<mapsto> a)"
    by (simp add: fun_eq_iff)
  show "loxbudget_profile_c b' = loxbudget_profile_c b" "configured b' = configured b"
    by (simp_all add: loxbudget_profile_c_def configured_def b' fun_eq_iff)
qed

interpretation resource_loader: map_loader "inst_ok B"
  "\<lambda>r b. loxbudget_set_resource b (mr_id r) (mr_limit r) (ucast (mr_kind r))"
  configured "\<lambda>b. (loxbudget_profile_c b, need_table b)" mr_id fresh_resource for B
  by unfold_locales (auto simp: config_inst dest: set_resource_writes)

interpretation profile_loader: map_loader "inst_ok B" "\<lambda>p b. loxbudget_register_op b (Some p)"
  loxbudget_profile_c "\<lambda>b. (configured b, need_table b)" p_op_id "\<lambda>p. p" for B
  by unfold_locales (auto simp: config_inst dest: register_op_writes)

interpretation need_loader: map_loader "inst_ok B"
  "\<lambda>n b. loxbudget_op_set_need b (mn_op_id n) (mn_resource_id n) (mn_amount n)"
  need_table "\<lambda>b. (configured b, loxbudget_profile_c b)" "\<lambda>n. (mn_op_id n, mn_resource_id n)" mn_amount for B
  by unfold_locales (auto simp: config_inst dest: op_set_need_writes)

section \<open>Properties\<close>

definition conf_resources :: "microconf \<Rightarrow> u8 \<rightharpoonup> loxbudget_resource" where
  "conf_resources c =
     map_of (rev (map (\<lambda>x. (mr_id x, fresh_resource x)) (array (mc_resource_count c) (mc_resources c))))"

definition conf_profiles :: "microconf \<Rightarrow> u8 \<rightharpoonup> loxbudget_op_profile" where
  "conf_profiles c = map_of (rev (map (\<lambda>p. (p_op_id p, p)) (array (mc_op_count c) (mc_ops c))))"

definition conf_needs :: "microconf \<Rightarrow> u8 \<times> u8 \<rightharpoonup> u16" where
  "conf_needs c =
     map_of (rev (map (\<lambda>n. ((mn_op_id n, mn_resource_id n), mn_amount n)) (array (mc_need_count c) (mc_needs c))))"

lemmas loader_inv = resource_loader.load_section_inv profile_loader.load_section_inv need_loader.load_section_inv

text \<open>
  C29. Loading a configuration object: whatever the object holds, the instance stays well formed,
  also when the load stops at an entry that is refused. When the load returns OK, the
  configured resources, the registered profiles and the needs are those of the instance
  before, overridden by what the object says, the last entry of a resource or of a pair of
  operation and resource winning; resources of the object start with nothing used.
\<close>

theorem microconf_load_installs:
  assumes "inst_ok B b" and "loxbudget_microconf_load (Some b) (Some c) = (st, bp)"
  shows "\<exists>b'. bp = Some b' \<and> inst_ok B b' \<and>
    (st = LOXBUDGET_OK \<longrightarrow>
       configured b' = configured b ++ conf_resources c \<and>
       loxbudget_profile_c b' = loxbudget_profile_c b ++ conf_profiles c \<and>
       need_table b' = need_table b ++ conf_needs c)"
proof -
  let ?r = "load_section (\<lambda>r b. loxbudget_set_resource b (mr_id r) (mr_limit r) (ucast (mr_kind r)))
                  (mc_resource_count c) (mc_resources c)"
  let ?p = "load_section (\<lambda>p b. loxbudget_register_op b (Some p)) (mc_op_count c) (mc_ops c)"
  let ?n = "load_section (\<lambda>n b. loxbudget_op_set_need b (mn_op_id n) (mn_resource_id n) (mn_amount n))
                  (mc_need_count c) (mc_needs c)"
  obtain s1 b1 s2 b2 s3 b3 where r: "?r b = (s1, b1)" and p: "?p b1 = (s2, b2)" and n: "?n b2 = (s3, b3)"
    by (meson surj_pair)
  have i: "inst_ok B b1" "inst_ok B b2" "inst_ok B b3"
    using loader_inv(1) [OF assms(1), of "mc_resource_count c" "mc_resources c"] r
      loader_inv(2) [of B b1 "mc_op_count c" "mc_ops c"] p loader_inv(3) [of B b2 "mc_need_count c" "mc_needs c"] n
    by simp_all
  have load: "(st, bp) = (if s1 \<noteq> LOXBUDGET_OK then (s1, Some b1) else if s2 \<noteq> LOXBUDGET_OK then (s2, Some b2)
      else (s3, Some b3))"
    using assms(2) r p n by (simp add: loxbudget_microconf_load_def split: if_splits)
  show ?thesis
  proof (cases "st = LOXBUDGET_OK")
    case True
    with load have ok: "s1 = LOXBUDGET_OK" "s2 = LOXBUDGET_OK" "s3 = LOXBUDGET_OK" "bp = Some b3"
      by (auto split: if_splits)
    have "configured b1 = configured b ++ conf_resources c"
      "loxbudget_profile_c b1 = loxbudget_profile_c b" "need_table b1 = need_table b"
      using resource_loader.load_section_OK [OF assms(1) r [unfolded ok]] by (simp_all add: conf_resources_def)
    moreover have "configured b2 = configured b1"
      "loxbudget_profile_c b2 = loxbudget_profile_c b1 ++ conf_profiles c" "need_table b2 = need_table b1"
      using profile_loader.load_section_OK [OF i(1) p [unfolded ok]] by (simp_all add: conf_profiles_def)
    moreover have "configured b3 = configured b2" "loxbudget_profile_c b3 = loxbudget_profile_c b2"
      "need_table b3 = need_table b2 ++ conf_needs c"
      using need_loader.load_section_OK [OF i(2) n [unfolded ok]] by (simp_all add: conf_needs_def)
    ultimately show ?thesis using ok(4) i(3) by simp
  next
    case False
    with load i show ?thesis by (auto split: if_splits)
  qed
qed

text \<open>A configuration with a resource named twice, two operations and three needs.\<close>

definition sample_conf :: microconf where
  "sample_conf =
     \<lparr>mc_resources = Some [\<lparr>mr_id = 0, mr_limit = 10, mr_kind = 0\<rparr>, \<lparr>mr_id = 1, mr_limit = 50, mr_kind = 1\<rparr>,
        \<lparr>mr_id = 0, mr_limit = 100, mr_kind = 0\<rparr>],
      mc_resource_count = 3,
      mc_ops = Some [loxbudget_op_profile_default 0, loxbudget_op_profile_default 2], mc_op_count = 2,
      mc_needs = Some [\<lparr>mn_op_id = 0, mn_resource_id = 0, mn_amount = 40\<rparr>,
        \<lparr>mn_op_id = 2, mn_resource_id = 1, mn_amount = 5\<rparr>, \<lparr>mn_op_id = 0, mn_resource_id = 0, mn_amount = 60\<rparr>],
      mc_need_count = 3\<rparr>"

lemma sample_blank_inst: "inst_ok fixed_build sample_blank"
proof -
  have "t_edge_count sample_blank = 0" "list_all resource_ok (t_resources sample_blank)"
    by (code_simp; simp)+
  then show ?thesis
    using sample_blank_ok by (simp add: inst_ok_def books_ok_def edges_ok_def live_edges_def)
qed

lemma sample_conf_loads:
  "fst (loxbudget_microconf_load (Some sample_blank) (Some sample_conf)) = LOXBUDGET_OK"
  by code_simp

theorem microconf_load_installs_witness:
  "\<exists>b'. loxbudget_microconf_load (Some sample_blank) (Some sample_conf) = (LOXBUDGET_OK, Some b') \<and>
     map_option r_limit (configured b' 0) = Some 100 \<and>
     loxbudget_profile_c b' 2 = Some (loxbudget_op_profile_default 2) \<and>
     need_table b' (0, 0) = Some 60 \<and> need_table b' (2, 1) = Some 5"
proof -
  obtain bp where l: "loxbudget_microconf_load (Some sample_blank) (Some sample_conf) = (LOXBUDGET_OK, bp)"
    using sample_conf_loads by (metis prod.collapse)
  have "conf_resources sample_conf 0 = Some \<lparr>r_limit = 100, r_used = 0, r_reserved = 0, r_high_watermark = 0,
     r_kind = 0, r_flags = 1\<rparr>" "conf_profiles sample_conf 2 = Some (loxbudget_op_profile_default 2)"
    "conf_needs sample_conf (0, 0) = Some 60" "conf_needs sample_conf (2, 1) = Some 5"
    by code_simp+
  with microconf_load_installs [OF sample_blank_inst l] l show ?thesis by auto
qed

end
