(* ===== verification/LB_Recorder.thy ===== *)
theory LB_Recorder
  imports LB_Adapters LB_Lease_Props
begin

text \<open>
  The adapters composed with the library: what a sink attached as decision hook holds after any
  number of checks and enters, whatever the application's clock and queries do. The contract of
  such a sink is a locale; loxguard, nvlog and microbus are its instances. The last section
  connects the health service with admission.
\<close>

section \<open>A platform with a sink\<close>

text \<open>
  The environment is a pair of the application's state and the contents of the sink. Clock,
  critical sections and queries act on the first, the hook on the second.
\<close>

definition on_app :: "('h \<Rightarrow> 'h) \<Rightarrow> 'h \<times> 'l \<Rightarrow> 'h \<times> 'l" where
  "on_app f s = (f (fst s), snd s)"

definition ask_app :: "('h \<Rightarrow> 'v \<times> 'h) \<Rightarrow> 'h \<times> 'l \<Rightarrow> 'v \<times> 'h \<times> 'l" where
  "ask_app q s = (case q (fst s) of (v, h) \<Rightarrow> (v, h, snd s))"

definition with_sink ::
    "'h platform \<Rightarrow> (ptr \<Rightarrow> ptr \<Rightarrow> loxbudget \<Rightarrow> loxbudget_decision \<Rightarrow> u8 \<Rightarrow> 'h \<times> 'l \<Rightarrow> 'h \<times> 'l) \<Rightarrow>
     ('h \<times> 'l) platform" where
  "with_sink P hook =
     \<lparr>fn_now_ms = (\<lambda>f u. ask_app (fn_now_ms P f u)), fn_void = (\<lambda>f u. on_app (fn_void P f u)),
      fn_bool = (\<lambda>f u. ask_app (fn_bool P f u)), fn_hook = hook, weak_now_ms = ask_app (weak_now_ms P),
      weak_critical_enter = on_app (weak_critical_enter P), weak_critical_exit = on_app (weak_critical_exit P),
      weak_boot_proven = ask_app (weak_boot_proven P), weak_voltage_ok = ask_app (weak_voltage_ok P),
      weak_network_up = ask_app (weak_network_up P)\<rparr>"

lemma sink_observes: "observes (with_sink P hook) b snd (\<lambda>l. l) (\<lambda>l. l)"
  by (simp add: observes_def with_sink_def hal_wrapper_defs ask_app_def on_app_def split_def)

text \<open>Uses of an instance, and the decisions they come to.\<close>

datatype request = Checks u8 | Enters u8

fun requested :: "request \<Rightarrow> u8" where
  "requested (Checks op) = op"
| "requested (Enters op) = op"

definition use_step :: "build \<Rightarrow> 'e platform \<Rightarrow> request \<Rightarrow> loxbudget \<times> 'e \<Rightarrow> loxbudget \<times> 'e" where
  "use_step B P u s =
     (case u of Checks op \<Rightarrow> snd (snd (loxbudget_check B P (fst s) op True (snd s)))
      | Enters op \<Rightarrow> snd (snd (loxbudget_enter B P (fst s) op True (snd s))))"

fun decisions :: "build \<Rightarrow> 'e platform \<Rightarrow> request list \<Rightarrow> loxbudget \<times> 'e \<Rightarrow> (u8 \<times> loxbudget_decision) list" where
  "decisions B P [] s = []"
| "decisions B P (u # us) s =
     (requested u, the (fst (snd (loxbudget_check B P (fst s) (requested u) True (snd s))))) #
     decisions B P us (use_step B P u s)"

lemma enter_hook:
  assumes "inst_ok B b"
  shows "b_decision_hook (fst (snd (snd (loxbudget_enter B P b op True e)))) = b_decision_hook b"
proof -
  obtain st out b' e' where r: "loxbudget_enter B P b op True e = (st, out, b', e')" by (metis prod.exhaust)
  have "b_decision_hook b' = b_decision_hook b"
  proof (cases "st = LOXBUDGET_OK")
    case True
    with r have "loxbudget_enter B P b op True e = (LOXBUDGET_OK, out, b', e')" by simp
    then obtain i rt where "b' = entered (checked B P b op e) op i rt" by (rule enter_OK [OF assms])
    then show ?thesis by (simp add: entered_def check_frame_fields [OF checked_frame])
  next
    case False
    then show ?thesis using check_frame_fields(18) [OF enter_error_frame [OF r False]] by simp
  qed
  then show ?thesis by (simp add: r)
qed

section \<open>The contract of a sink\<close>

text \<open>
  A hook at the address \<open>fn\<close> that, its context being \<open>ready\<close>, adds to the sink what \<open>emit\<close> says, as far as \<open>view\<close> shows it
  (time stamps are not shown), whatever instance and state it is called in.
\<close>

locale decision_sink =
  fixes hook :: "ptr \<Rightarrow> ptr \<Rightarrow> loxbudget \<Rightarrow> loxbudget_decision \<Rightarrow> u8 \<Rightarrow> 'h \<times> 'l \<Rightarrow> 'h \<times> 'l"
    and fn :: ptr and ready :: bool and view :: "'l \<Rightarrow> 'v list" and emit :: "u8 \<Rightarrow> loxbudget_decision \<Rightarrow> 'v list"
  assumes adds: "ready \<Longrightarrow> b_magic b = LOXBUDGET_MAGIC_INIT \<Longrightarrow> view (snd (hook fn u b d op s)) = view (snd s) @ emit op d"
begin

lemma check_adds:
  assumes on: "ready" "fn \<noteq> 0" and "b_magic b = LOXBUDGET_MAGIC_INIT" and "b_decision_hook b = fn"
    and c: "loxbudget_check B (with_sink P hook) b op True s = (st, Some d, b', s')"
  shows "view (snd s') = view (snd s) @ emit op d"
proof -
  obtain x where x: "snd x = snd s" "s' = run_hook (with_sink P hook) b' d op x"
    using check_runs_hook [OF sink_observes c assms(3)] by blast
  have m: "b_magic b' = LOXBUDGET_MAGIC_INIT"
    using check_frame_fields(6) [OF check_frame_holds [of b B "with_sink P hook" op True s]] c assms(3) by simp
  have "fn_hook (with_sink P hook) = hook" by (simp add: with_sink_def)
  then show ?thesis
    using x adds [OF on(1) m] check_hook_fields(1) [OF c] assms(4) on(2) by (simp add: run_hook_def)
qed

lemma use_adds:
  assumes on: "ready" "fn \<noteq> 0" and "inst_ok B b" and "b_decision_hook b = fn"
  shows "view (snd (snd (use_step B (with_sink P hook) u (b, s)))) =
      view (snd s) @ emit (requested u) (the (fst (snd (loxbudget_check B (with_sink P hook) b (requested u) True s))))"
    and "inst_ok B (fst (use_step B (with_sink P hook) u (b, s)))"
    and "b_decision_hook (fst (use_step B (with_sink P hook) u (b, s))) = fn"
proof -
  let ?P = "with_sink P hook"
  note m = shape_magic [OF inst_okD(1) [OF assms(3)]]
  obtain d b1 s1 where c: "loxbudget_check B ?P b (requested u) True s = (LOXBUDGET_OK, Some d, b1, s1)"
    using check_returns [OF m, of B ?P "requested u" s] by blast
  note added = check_adds [OF on m assms(4) c]
  have "snd (snd (snd (snd (loxbudget_enter B ?P b op True s)))) = snd s1" if "requested u = op" for op
    using enter_obs [OF sink_observes [of P hook b], of B op True s] c that by simp
  with added c show "view (snd (snd (use_step B ?P u (b, s)))) =
      view (snd s) @ emit (requested u) (the (fst (snd (loxbudget_check B ?P b (requested u) True s))))"
    by (cases u) (simp_all add: use_step_def)
  show "inst_ok B (fst (use_step B ?P u (b, s)))"
    by (cases u) (simp_all add: use_step_def check_inst enter_inst assms(3))
  show "b_decision_hook (fst (use_step B ?P u (b, s))) = fn"
    using check_hook_fields(1) [OF c] c assms(4) enter_hook [OF assms(3), of ?P _ s]
    by (cases u) (simp_all add: use_step_def)
qed

lemma run_adds:
  "ready \<Longrightarrow> fn \<noteq> 0 \<Longrightarrow> inst_ok B b \<Longrightarrow> b_decision_hook b = fn \<Longrightarrow>
   view (snd (snd (fold (use_step B (with_sink P hook)) us (b, s)))) =
   view (snd s) @ concat (map (\<lambda>(op, d). emit op d) (decisions B (with_sink P hook) us (b, s)))"
proof (induction us arbitrary: b s)
  case Nil
  then show ?case by simp
next
  case (Cons u us)
  obtain b1 s1 where step: "use_step B (with_sink P hook) u (b, s) = (b1, s1)" by (metis prod.exhaust)
  from Cons.IH [of b1 s1] use_adds [OF Cons.prems, of P u s] Cons.prems(1,2) show ?case by (simp add: step)
qed

end

section \<open>The three sinks\<close>

text \<open>
  The contents of the recorder, the log and the bus, as the calls that reached them, in order.
\<close>

datatype guard_event = Pushed ptr adapter_record | Flushed ptr

definition at_hook ::
    "ptr \<Rightarrow> (loxbudget \<Rightarrow> loxbudget_decision \<Rightarrow> u8 \<Rightarrow> 's \<Rightarrow> 's) \<Rightarrow>
     ptr \<Rightarrow> ptr \<Rightarrow> loxbudget \<Rightarrow> loxbudget_decision \<Rightarrow> u8 \<Rightarrow> 's \<Rightarrow> 's" where
  "at_hook fn act f u b d op s = (if f = fn then act b d op s else s)"

definition guard_hook ::
    "'h platform \<Rightarrow> ptr \<Rightarrow> lb__lg_ctx \<Rightarrow> ptr \<Rightarrow> ptr \<Rightarrow> loxbudget \<Rightarrow> loxbudget_decision \<Rightarrow> u8 \<Rightarrow>
     'h \<times> guard_event list \<Rightarrow> 'h \<times> guard_event list" where
  "guard_hook P fn c = at_hook fn (\<lambda>b d op.
     lb__lg_on_decision (\<lambda>g r s. (fst s, snd s @ [Pushed g r])) (\<lambda>g s. (fst s, snd s @ [Flushed g]))
       (with_sink P (\<lambda>_ _ _ _ _ s. s)) [lg_budget c \<mapsto> b] (Some c) (Some d) op)"

definition log_hook ::
    "'h platform \<Rightarrow> ptr \<Rightarrow> lb__nv_ctx \<Rightarrow> ptr \<Rightarrow> ptr \<Rightarrow> loxbudget \<Rightarrow> loxbudget_decision \<Rightarrow> u8 \<Rightarrow>
     'h \<times> (ptr \<times> u8 \<times> adapter_record) list \<Rightarrow> 'h \<times> (ptr \<times> u8 \<times> adapter_record) list" where
  "log_hook P fn c = at_hook fn (\<lambda>b d op.
     lb__nv_on_decision (\<lambda>l sev r s. (fst s, snd s @ [(l, sev, r)]))
       (with_sink P (\<lambda>_ _ _ _ _ s. s)) [nv_budget c \<mapsto> b] (Some c) (Some d) op)"

definition bus_hook ::
    "ptr \<Rightarrow> lb__mb_ctx \<Rightarrow> ptr \<Rightarrow> ptr \<Rightarrow> loxbudget \<Rightarrow> loxbudget_decision \<Rightarrow> u8 \<Rightarrow>
     'h \<times> (ptr \<times> u32 \<times> u32 \<times> u32 \<times> u32) list \<Rightarrow> 'h \<times> (ptr \<times> u32 \<times> u32 \<times> u32 \<times> u32) list" where
  "bus_hook fn c = at_hook fn (\<lambda>b d op.
     lb__mb_on_decision (\<lambda>p i w s. (fst s, snd s @ [(p, i, w)])) (Some c) (Some d) op)"

text \<open>A record without its time stamp: operation, action, pressure and reason of the decision.\<close>

definition gist :: "u8 \<Rightarrow> loxbudget_decision \<Rightarrow> u8 \<times> u8 \<times> u8 \<times> u8" where
  "gist op d = (op, u8_of_action (d_action d), u8_of_pressure (d_pressure d), u8_of_reason (d_reason d))"

definition record_gist :: "adapter_record \<Rightarrow> u8 \<times> u8 \<times> u8 \<times> u8" where
  "record_gist r = (ar_op_id r, ar_action r, ar_pressure r, ar_reason r)"

fun event_gist :: "guard_event \<Rightarrow> ptr \<times> (u8 \<times> u8 \<times> u8 \<times> u8) option" where
  "event_gist (Pushed g r) = (g, Some (record_gist r))"
| "event_gist (Flushed g) = (g, None)"

lemma record_gist_decision [simp]: "record_gist (decision_record snap d op) = gist op d"
  by (simp add: record_gist_def decision_record_def gist_def)

definition refused :: "loxbudget_decision \<Rightarrow> bool" where
  "refused d = (d_action d = LOXBUDGET_REJECT \<or> d_action d = LOXBUDGET_LOCKDOWN)"

definition guard_emit :: "lb__lg_ctx \<Rightarrow> u8 \<Rightarrow> loxbudget_decision \<Rightarrow> (ptr \<times> (u8 \<times> u8 \<times> u8 \<times> u8) option) list" where
  "guard_emit c op d =
     (if refused d then (lg_guard c, Some (gist op d)) #
        (if d_action d = LOXBUDGET_LOCKDOWN then [(lg_guard c, None)] else []) else [])"

definition log_emit :: "lb__nv_ctx \<Rightarrow> u8 \<Rightarrow> loxbudget_decision \<Rightarrow> (ptr \<times> u8 \<times> u8 \<times> u8 \<times> u8 \<times> u8) list" where
  "log_emit c op d =
     (if nv_min_severity c \<le> lb__nv_severity (d_action d)
      then [(nv_log c, lb__nv_severity (d_action d), gist op d)] else [])"

definition bus_emit :: "lb__mb_ctx \<Rightarrow> u8 \<Rightarrow> loxbudget_decision \<Rightarrow> (ptr \<times> u32 \<times> u32 \<times> u32 \<times> u32) list" where
  "bus_emit c op d =
     (if refused d then [(mb_bus c, if d_action d = LOXBUDGET_REJECT then LOXBUDGET_MICROBUS_BUDGET_DENIED
        else LOXBUDGET_MICROBUS_LOCKDOWN_ENTERED, ucast op, ucast (u8_of_reason (d_reason d)),
        ucast (u8_of_pressure (d_pressure d)))] else [])"

text \<open>A snapshot of a live instance succeeds and leaves the sink alone.\<close>

lemma sink_snapshot:
  assumes "b_magic b = LOXBUDGET_MAGIC_INIT"
  obtains snap h where "loxbudget_snapshot_of (with_sink P hook) b True s = (LOXBUDGET_OK, Some snap, h, snd s)"
proof -
  obtain now h l where t: "loxbudget_hal_now_ms' (with_sink P hook) b s = (now, h, l)" by (metis prod.exhaust)
  moreover have "snd (snd (loxbudget_hal_now_ms' (with_sink P hook) b s)) = snd s"
    by (simp add: hal_wrapper_defs with_sink_def ask_app_def split_def)
  ultimately show ?thesis using assms that by (simp add: loxbudget_snapshot_of_def)
qed

interpretation guard: decision_sink "guard_hook P fn c" fn "lg_budget c \<noteq> 0 \<and> lg_guard c \<noteq> 0"
  "map event_gist" "guard_emit c" for P :: "'h platform" and fn c
proof
  fix b :: loxbudget and u d op and s :: "'h \<times> guard_event list"
  assume ready: "lg_budget c \<noteq> 0 \<and> lg_guard c \<noteq> 0" and live: "b_magic b = LOXBUDGET_MAGIC_INIT"
  obtain snap h where
    "loxbudget_snapshot_of (with_sink P (\<lambda>_ _ _ _ _ s. s)) b True s = (LOXBUDGET_OK, Some snap, h, snd s)"
    by (rule sink_snapshot [OF live])
  with ready show "map event_gist (snd (guard_hook P fn c fn u b d op s)) = map event_gist (snd s) @ guard_emit c op d"
    by (simp add: guard_hook_def at_hook_def lb__lg_on_decision_def guard_emit_def refused_def Let_def)
qed

interpretation log: decision_sink "log_hook P fn c" fn "nv_budget c \<noteq> 0 \<and> nv_log c \<noteq> 0"
  "map (\<lambda>(l, v, r). (l, v, record_gist r))" "log_emit c" for P fn c
proof
  fix b :: loxbudget and u d op and s :: "'a \<times> (ptr \<times> u8 \<times> adapter_record) list"
  assume ready: "nv_budget c \<noteq> 0 \<and> nv_log c \<noteq> 0" and live: "b_magic b = LOXBUDGET_MAGIC_INIT"
  obtain snap h where
    "loxbudget_snapshot_of (with_sink P (\<lambda>_ _ _ _ _ s. s)) b True s = (LOXBUDGET_OK, Some snap, h, snd s)"
    by (rule sink_snapshot [OF live])
  with ready show "map (\<lambda>(l, v, r). (l, v, record_gist r)) (snd (log_hook P fn c fn u b d op s)) =
      map (\<lambda>(l, v, r). (l, v, record_gist r)) (snd s) @ log_emit c op d"
    by (auto simp: log_hook_def at_hook_def lb__nv_on_decision_def log_emit_def Let_def)
qed

interpretation bus: decision_sink "bus_hook fn c" fn "mb_bus c \<noteq> 0" "\<lambda>l. l" "bus_emit c" for fn c
  by unfold_locales (auto simp: bus_hook_def at_hook_def lb__mb_on_decision_def bus_emit_def refused_def Let_def)

section \<open>Properties\<close>

text \<open>The uses of an instance that were refused, in order.\<close>

abbreviation refusals :: "build \<Rightarrow> 'e platform \<Rightarrow> request list \<Rightarrow> loxbudget \<times> 'e \<Rightarrow> (u8 \<times> loxbudget_decision) list" where
  "refusals B P us s \<equiv> filter (\<lambda>(op, d). refused d) (decisions B P us s)"

lemma guard_emits:
  "concat (map (\<lambda>(op, d). guard_emit c op d) ds) =
   concat (map (\<lambda>(op, d). (lg_guard c, Some (gist op d)) #
      (if d_action d = LOXBUDGET_LOCKDOWN then [(lg_guard c, None)] else [])) (filter (\<lambda>(op, d). refused d) ds))"
  by (induction ds) (auto simp: guard_emit_def)

text \<open>
  C31. The flight recorder is complete: once loxguard is attached, after any number of checks and
  enters of any operations, whatever the clock and the platform answer, the recorder has
  received, after what it held, one record for each decision that refused (REJECT or LOCKDOWN),
  in the order of the calls, with the operation, the action, the pressure and the reason of
  that decision, each LOCKDOWN followed by a flush, and nothing else. An enter is recorded
  once, for the check it starts with.
\<close>

theorem flight_recorder_complete:
  assumes "inst_ok B b" and "mem p = Some b" and "p \<noteq> 0" and "g \<noteq> 0" and "fn \<noteq> 0"
    and "loxbudget_loxguard_attach fn cx mem p g = (c, mem')" and "mem' p = Some b1"
    and "fold (use_step B (with_sink P (guard_hook P fn c))) us (b1, e, events) = (b2, e', events')"
  shows "map event_gist events' = map event_gist events @
    concat (map (\<lambda>(op, d). (g, Some (gist op d)) # (if d_action d = LOXBUDGET_LOCKDOWN then [(g, None)] else []))
      (refusals B (with_sink P (guard_hook P fn c)) us (b1, e, events)))"
proof -
  have c: "c = \<lparr>lg_budget = p, lg_guard = g\<rparr>" and b1: "b1 = snd (loxbudget_set_decision_hook b fn cx)"
    using assms(2,6,7) by (auto simp: loxbudget_loxguard_attach_def install_hook_def)
  have "inst_ok B b1" unfolding b1 by (rule hook_inst [OF assms(1)])
  moreover have "b_decision_hook b1 = fn"
    using shape_magic [OF inst_okD(1) [OF assms(1)]] by (simp add: b1 loxbudget_set_decision_hook_def)
  ultimately show ?thesis
    using guard.run_adds [where P = P and Pa = P and c = c and fn = fn and B = B and b = b1 and us = us and s = "(e, events)"] assms(3-5,8) by (simp add: c guard_emits cong: if_cong)
qed

text \<open>The demo instance: the unknown operation 2 is checked and entered, between them operation 0.\<close>

definition demo_uses :: "request list" where
  "demo_uses = [Checks 2, Enters 0, Enters 2]"

theorem flight_recorder_complete_witness:
  "\<exists>c mem' b1 b2 e' events'. loxbudget_loxguard_attach 9 10 [5 \<mapsto> demo] 5 6 = (c, mem') \<and> mem' 5 = Some b1 \<and>
     fold (use_step fixed_build (with_sink quiet_platform (guard_hook quiet_platform 9 c))) demo_uses (b1, 7, []) =
       (b2, e', events') \<and>
     map event_gist events' = [(6, Some (2, 3, 0, 8)), (6, Some (2, 3, 0, 8))]"
proof -
  let ?b = "snd (loxbudget_set_decision_hook demo 9 10)" and ?c = "\<lparr>lg_budget = 5, lg_guard = 6\<rparr>"
  let ?P = "with_sink quiet_platform (guard_hook quiet_platform 9 ?c)"
  have a: "loxbudget_loxguard_attach 9 10 [5 \<mapsto> demo] 5 6 = (?c, [5 \<mapsto> ?b])"
    by (simp add: loxbudget_loxguard_attach_def install_hook_def)
  obtain b2 e' events' where run: "fold (use_step fixed_build ?P) demo_uses (?b, 7, []) = (b2, e', events')"
    by (metis prod.exhaust)
  have "concat (map (\<lambda>(op, d). (6 :: ptr, Some (gist op d)) # (if d_action d = LOXBUDGET_LOCKDOWN then [(6, None)] else []))
      (refusals fixed_build ?P demo_uses (?b, 7, []))) = [(6, Some (2, 3, 0, 8)), (6, Some (2, 3, 0, 8))]"
    by code_simp
  with flight_recorder_complete [OF demo_ok _ _ _ _ a _ run] a run show ?thesis by auto
qed

text \<open>
  C32. The health service gates admission: after its callback has run on a live instance, the
  pressure is the one the thresholds give for the reported percentage, and an operation whose
  profile maps that pressure to WAIT, REJECT or LOCKDOWN is refused, by check
  and by enter, whatever the budgets hold.
\<close>

theorem health_gates_admission:
  assumes "inst_ok B b" and "mem (mh_budget c) = Some b" and "mh_budget c \<noteq> 0" and "mh_health c \<noteq> 0"
    and "health_pct (mh_health c) e = (pct, e1)"
    and "lb__mh_on_change health_pct P mem (Some c) e = (mem', e2)" and "mem' (mh_budget c) = Some b'"
    and "loxbudget_profile_c b op = Some p"
    and "loxbudget_mapped_action p (u8_of_pressure (lb__mh_map (mh_t c) pct)) \<notin> {0, 1}"
  shows "b_pressure b' = u8_of_pressure (lb__mh_map (mh_t c) pct) \<and>
    (\<exists>d b2 x2. loxbudget_check B Q b' op True x = (LOXBUDGET_OK, Some d, b2, x2) \<and> \<not> allows (d_action d)) \<and>
    fst (loxbudget_enter B Q b' op True x) = LOXBUDGET_ERR_BAD_STATE"
proof -
  let ?pr = "ucast (u8_of_pressure (lb__mh_map (mh_t c) pct))"
  have b': "b' = fst (snd (loxbudget_set_pressure P b ?pr e1))"
    using assms(2-7) by (auto simp: lb__mh_on_change_def split: prod.splits)
  obtain b0 e0 where s: "loxbudget_set_pressure P b ?pr e1 = (LOXBUDGET_OK, b0, e0)"
      "b_pressure b0 = u8_of_pressure (lb__mh_map (mh_t c) pct)"
    using mh_map_sets [OF shape_magic [OF inst_okD(1) [OF assms(1)]]] by metis
  then have pr: "b_pressure b' = u8_of_pressure (lb__mh_map (mh_t c) pct)" by (simp add: b')
  have ok: "inst_ok B b'" unfolding b' by (rule set_pressure_inst [OF assms(1)])
  have "loxbudget_profile_c b' op = loxbudget_profile_c b op"
    by (simp add: b' loxbudget_set_pressure_def loxbudget_profile_c_def Let_def)
  then have no: "\<not> admissible B Q b' op x"
    using assms(8,9) pr by (simp add: admissible_def pressure_allows_def)
  obtain d b2 x2 where c: "loxbudget_check B Q b' op True x = (LOXBUDGET_OK, Some d, b2, x2)"
    using check_returns [OF shape_magic [OF inst_okD(1) [OF ok]], of B Q op x] by blast
  moreover have "fst (loxbudget_enter B Q b' op True x) = LOXBUDGET_ERR_BAD_STATE"
    using no by (cases rule: enter_cases [OF inst_okD(1,2) [OF ok], of Q op x, case_names denied full entered]) auto
  ultimately show ?thesis using pr check_allows [OF inst_okD(1,2) [OF ok] c] no by blast
qed

text \<open>The demo instance with an operation 2 that is rejected in SURVIVAL; the service reports 95 percent.\<close>

definition demo_gated :: loxbudget where
  "demo_gated = snd (loxbudget_register_op demo (Some ((loxbudget_op_profile_default 2)\<lparr>p_action_survival := 3\<rparr>)))"

theorem health_gates_admission_witness:
  "\<exists>mem' e2 b'. lb__mh_on_change (\<lambda>_ e. (95, e)) quiet_platform [5 \<mapsto> demo_gated]
       (Some \<lparr>mh_budget = 5, mh_health = 6, mh_t = \<lparr>elevated_pct = 50, critical_pct = 70, survival_pct = 90\<rparr>\<rparr>) 7 = (mem', e2) \<and>
     mem' 5 = Some b' \<and> b_pressure b' = 3 \<and>
     fst (loxbudget_enter fixed_build quiet_platform b' 2 True 7) = LOXBUDGET_ERR_BAD_STATE"
proof -
  let ?c = "\<lparr>mh_budget = 5, mh_health = 6, mh_t = \<lparr>elevated_pct = 50, critical_pct = 70, survival_pct = 90\<rparr>\<rparr>"
  have ok: "inst_ok fixed_build demo_gated" unfolding demo_gated_def by (simp add: config_inst demo_ok)
  have p: "loxbudget_profile_c demo_gated 2 = Some ((loxbudget_op_profile_default 2)\<lparr>p_action_survival := 3\<rparr>)"
    by code_simp
  have t: "lb__mh_map (mh_t ?c) 95 = LOXBUDGET_PRESSURE_SURVIVAL" by (simp add: lb__mh_map_def)
  obtain mem' e2 where run: "lb__mh_on_change (\<lambda>_ e. (95, e)) quiet_platform [5 \<mapsto> demo_gated] (Some ?c) 7 = (mem', e2)"
    by fastforce
  then obtain b' where b': "mem' 5 = Some b'" by (auto simp: lb__mh_on_change_def split: prod.splits)
  have "loxbudget_mapped_action ((loxbudget_op_profile_default 2)\<lparr>p_action_survival := 3\<rparr>) 3 = 3" by code_simp
  with health_gates_admission [OF ok _ _ _ _ run _ p, where x = 7 and Q = quiet_platform] run b' t show ?thesis by auto
qed

end
