(* ===== verification/LB_Rate_Effect.thy ===== *)
theory LB_Rate_Effect
  imports LB_Lease_Props
begin

text \<open>
  What admission and entering do to the rate table: a grant rolls the windows of the
  charged resources, entering charges them, each at its own reading of the clock. Whatever
  the clock does between the two readings, every enabled fixed window has been charged the
  amount and holds no more than its limit afterwards, and the lifetime budget of a
  resource is charged and not exceeded.
\<close>

section \<open>The rate table after a grant\<close>

definition rolled :: "build \<Rightarrow> u32 \<Rightarrow> u16 \<Rightarrow> rate_state \<Rightarrow> rate_state" where
  "rolled B now a rs =
     rs\<lparr>rs_windows := map (\<lambda>w. fst (lb__rate_roll_and_check B w now (ucast a))) (rs_windows rs)\<rparr>"

lemma check_windows_all:
  "snd (check_windows B now a ws) \<Longrightarrow>
   fst (check_windows B now a ws) = map (\<lambda>w. fst (lb__rate_roll_and_check B w now a)) ws"
  by (induction ws) (auto split: prod.splits bool.splits)

lemma check_rate_granted:
  assumes "fst (check_rate B now p r n rt d) = None"
  shows "snd (check_rate B now p r n rt d) =
    (if rated B p r then rt[unat (n_resource n) := rolled B now (n_amount n) (rt ! unat (n_resource n))] else rt)"
  using assms check_windows_all [of B now "ucast (n_amount n)" "rs_windows (rt ! unat (n_resource n))"]
  by (auto simp: check_rate_def rated_def rolled_def Let_def split: prod.splits if_splits)

lemma check_need_granted:
  assumes "fst (check_need B b now p d n npr rt) = None"
  shows "snd (snd (check_need B b now p d n npr rt)) =
    (if live n \<and> rated B p (t_resources b ! unat (n_resource n))
     then rt[unat (n_resource n) := rolled B now (n_amount n) (rt ! unat (n_resource n))] else rt)"
  using assms check_rate_granted [of B now p "t_resources b ! unat (n_resource n)" n rt d]
  by (auto simp: check_need_def live_def rated_def Let_def split: prod.splits if_splits)

lemma check_needs_granted:
  assumes "distinct (need_keys ns)" "fst (check_needs B b now p d ns npr rt) = None" "i < length rt" "i < 256"
  shows "snd (snd (check_needs B b now p d ns npr rt)) ! i =
    (if amount_of ns i \<noteq> 0 \<and> rated B p (t_resources b ! i) then rolled B now (amount_of ns i) (rt ! i) else rt ! i)"
  using assms
proof (induction ns arbitrary: npr rt)
  case Nil
  then show ?case by simp
next
  case (Cons n ns)
  obtain dd npr1 rt1 where c: "check_need B b now p d n npr rt = (dd, npr1, rt1)"
    by (metis prod.exhaust)
  with Cons.prems(2) have n: "dd = None" by (auto split: option.splits)
  have rt1: "rt1 = (if live n \<and> rated B p (t_resources b ! unat (n_resource n))
     then rt[unat (n_resource n) := rolled B now (n_amount n) (rt ! unat (n_resource n))] else rt)"
    using check_need_granted [of B b now p d n npr rt] by (simp add: c n)
  have "snd (snd (check_needs B b now p d ns npr1 rt1)) ! i =
    (if amount_of ns i \<noteq> 0 \<and> rated B p (t_resources b ! i) then rolled B now (amount_of ns i) (rt1 ! i) else rt1 ! i)"
    using Cons.prems c n rt1 by (intro Cons.IH [OF distinct_keys_tl [OF Cons.prems(1)]]) auto
  moreover have "rt1 ! i = (if amount1 n i \<noteq> 0 \<and> rated B p (t_resources b ! i)
      then rolled B now (amount1 n i) (rt ! i) else rt ! i)"
    using Cons.prems(3) by (auto simp: rt1 amount1_def live_def nth_list_update)
  ultimately show ?case
    using amount_of_Cons [OF Cons.prems(1,4)] c n by auto
qed

lemma checked_rates:
  assumes "inst_ok B b" "admissible B P b op e" "loxbudget_profile_c b op = Some p"
    and "i < length (t_rate b)" "i < 256"
  shows "t_rate (checked B P b op e) ! i =
    (if amount_of (op_needs b op) i \<noteq> 0 \<and> rated B p (t_resources b ! i)
     then rolled B (check_clock B P b (snd (hal_gate P b p e))) (amount_of (op_needs b op) i) (t_rate b ! i)
     else t_rate b ! i)"
proof -
  obtain d g b1 e1 where v: "check_verdict B P b op e = (d, g, b1, e1)"
    and c: "loxbudget_check B P b op True e = (LOXBUDGET_OK, Some d, check_finish B P b1 op d g e1)"
    by (rule check_run [OF shape_magic [OF inst_okD(1) [OF assms(1)]], of B P op e])
  have "t_rate (checked B P b op e) = t_rate b1"
    using same_but_audit_scrub [OF audit_record_frame [of "check_count b1 d g" B P op d e1]]
    by (simp add: checked_def c check_finish_record)
  moreover have g: "g" using verdict_admissible [OF inst_okD(1,2) [OF assms(1)] v] assms(2) by simp
  from v show ?thesis
  proof (cases rule: check_verdict_cases)
    case (granted p' d0 e2 now npr rt vis)
    have p: "p' = p" using granted(1) assms(3) by simp
    have "hal_gate P b p e = (True, e2)" using check_hal_gate [of P b p e d0] granted(6) p by simp
    then have "check_clock B P b (snd (hal_gate P b p e)) = now"
      using granted(7) by (auto simp: check_clock_def split: if_splits)
    moreover have "distinct (need_keys (op_needs b op))" using inst_needs [OF assms(1), of op] assms(3) by simp
    ultimately show ?thesis
      using check_needs_granted [of "op_needs b op" B b now p d0 "replicate LOXBUDGET_MAX_RESOURCES 0" "t_rate b" i]
        granted(3,8) assms(4,5) p \<open>t_rate (checked B P b op e) = t_rate b1\<close> by simp
  qed (use g in simp_all)
qed

section \<open>Limits after entering\<close>

lemma chargedD:
  assumes "charged B p rs f rt rt'" "j < length rt" "j < length rs" "j < 256" "f j \<noteq> 0" "rated B p (rs ! j)"
  obtains now where "rt' ! j = commit_rate B now (f j) (rt ! j)"
  using assms unfolding charged_def by metis

text \<open>A window after the rolls of both readings, and with the amount charged on top.\<close>

definition twice_rolled :: "rate_window \<Rightarrow> u32 \<Rightarrow> u32 \<Rightarrow> rate_window" where
  "twice_rolled w t1 t2 = window_roll (window_roll w t1) t2"

definition window_charged :: "rate_window \<Rightarrow> u32 \<Rightarrow> u32 \<Rightarrow> u32 \<Rightarrow> rate_window \<Rightarrow> bool" where
  "window_charged w t1 t2 a w' \<longleftrightarrow>
     (if window_off w then w' = w
      else w' = (twice_rolled w t1 t2)\<lparr>w_consumed := w_consumed (twice_rolled w t1 t2) + a\<rparr> \<and>
           unat (w_consumed w') = unat (w_consumed (twice_rolled w t1 t2)) + unat a \<and>
           w_consumed w' \<le> w_limit w')"

lemma fixed_window_after:
  fixes t2 :: u32
  assumes "\<not> token_bucket B" "snd (lb__rate_roll_and_check B w t1 a)"
  shows "window_charged w t1 t2 a (lb__rate_commit B (fst (lb__rate_roll_and_check B w t1 a)) t2 a)"
proof (cases "window_off w")
  case True
  then show ?thesis by (simp add: window_charged_def lb__rate_roll_and_check_def lb__rate_commit_def)
next
  case False
  let ?w1 = "window_roll w t1" and ?v = "twice_rolled w t1 t2"
  have acc: "unat (w_consumed ?w1) + unat a \<le> unat (w_limit w)"
  proof -
    have "\<not> w_consumed ?w1 > w_limit ?w1" "\<not> a > w_limit ?w1 - w_consumed ?w1"
      using assms False by (auto simp: lb__rate_roll_and_check_def Let_def split: if_splits)
    then show ?thesis by (auto simp: word_le_nat_alt not_less unat_sub)
  qed
  have "unat (w_consumed ?v) \<le> unat (w_consumed ?w1)"
    by (simp add: twice_rolled_def window_roll_def)
  with acc have le: "unat (w_consumed ?v) + unat a \<le> unat (w_limit w)" by simp
  then have sum: "unat (w_consumed ?v) + unat a < 4294967296"
    using unat_u32_bound [of "w_limit w"] by simp
  then have add: "unat (w_consumed ?v + a) = unat (w_consumed ?v) + unat a"
    by (simp add: unat_word_ariths)
  have sat: "sat_add32 (w_consumed ?v) a = w_consumed ?v + a"
    using sum by (simp add: word_unat_eq_iff unat_sat_add32 add)
  have on: "\<not> window_off ?w1" using False by (simp add: window_off_def)
  show ?thesis
    using assms(1) False on le
    by (simp add: window_charged_def lb__rate_roll_and_check_def lb__rate_commit_def Let_def
        twice_rolled_def [symmetric] sat add word_le_nat_alt)
qed

text \<open>One resource: the state after the check's rolling and the commit's charging.\<close>

lemma charged_lifetime:
  assumes "\<not> lifetime_exceeded r a" and "rs_limit_lifetime r \<noteq> 0"
  shows "unat (rs_consumed_lifetime (commit_rate B t a (rolled B now a r))) = unat (rs_consumed_lifetime r) + unat a"
    and "rs_consumed_lifetime (commit_rate B t a (rolled B now a r)) \<le>
      rs_limit_lifetime (commit_rate B t a (rolled B now a r))"
proof -
  have life: "unat (rs_consumed_lifetime r) + unat a \<le> unat (rs_limit_lifetime r)"
    using assms by (auto simp: lifetime_exceeded_def word_less_nat_alt word_le_nat_alt not_less unat_sub)
  then have s: "unat (rs_consumed_lifetime r) + unat a < 4294967296"
    using unat_u32_bound [of "rs_limit_lifetime r"] by simp
  then have sum: "unat (rs_consumed_lifetime r + ucast a) = unat (rs_consumed_lifetime r) + unat a"
    by (simp add: unat_word_ariths)
  have "unat (0xFFFFFFFF - rs_consumed_lifetime r) = 4294967295 - unat (rs_consumed_lifetime r)"
    using unat_u32_bound [of "rs_consumed_lifetime r"] by (subst unat_sub) (simp_all add: word_le_nat_alt)
  with s have room: "\<not> 0xFFFFFFFF - rs_consumed_lifetime r < ucast a"
    by (simp add: word_less_nat_alt)
  show "unat (rs_consumed_lifetime (commit_rate B t a (rolled B now a r))) = unat (rs_consumed_lifetime r) + unat a"
    and "rs_consumed_lifetime (commit_rate B t a (rolled B now a r)) \<le>
      rs_limit_lifetime (commit_rate B t a (rolled B now a r))"
    using sum room life by (simp_all add: commit_rate_def rolled_def word_le_nat_alt)
qed

lemma charged_windows:
  assumes "\<not> token_bucket B" and "windows_accept B t1 r a" and "k < length (rs_windows r)"
  shows "window_charged (rs_windows r ! k) t1 t2 (ucast a) (rs_windows (commit_rate B t2 a (rolled B t1 a r)) ! k)"
  using assms(2,3) fixed_window_after [OF assms(1), of "rs_windows r ! k" t1 "ucast a" t2]
  by (simp add: windows_accept_def commit_rate_def rolled_def)

lemma window_charged_within:
  "window_charged w t1 t2 a w' \<Longrightarrow> \<not> window_off w' \<Longrightarrow> w_consumed w' \<le> w_limit w'"
  by (auto simp: window_charged_def split: if_splits)

text \<open>
  C7. Rate limits and lifetime budgets are charged and hold after entering: when
  \<open>loxbudget_enter\<close> succeeds for an operation that needs a consumable resource and is subject
  to its limits, the lifetime consumption has grown by exactly the need and is within its
  budget if there is one. With fixed windows, there is a time \<open>t2\<close> (the commit's reading of
  the clock; the check's is \<open>check_clock\<close>) such that every enabled window of the resource
  is the old one rolled at the two times with exactly the need added to its consumption,
  without wrap-around and within its limit, and every disabled window is unchanged.
  Nothing is assumed about the clock.
\<close>

theorem enter_respects_rate_limits:
  assumes "inst_ok B b" and "\<not> token_bucket B" and "loxbudget_profile_c b op = Some p"
    and "loxbudget_enter B P b op True e = (LOXBUDGET_OK, out, b', e')"
    and "i < length (t_rate b)" and "i < unat (b_max_resources b)" and "rated B p (t_resources b ! i)"
    and "amount_of (op_needs b op) i \<noteq> 0"
  shows "(rs_limit_lifetime (t_rate b ! i) \<noteq> 0 \<longrightarrow>
            unat (rs_consumed_lifetime (t_rate b' ! i)) =
              unat (rs_consumed_lifetime (t_rate b ! i)) + unat (amount_of (op_needs b op) i) \<and>
            rs_consumed_lifetime (t_rate b' ! i) \<le> rs_limit_lifetime (t_rate b' ! i)) \<and>
         (\<forall>w\<in>set (rs_windows (t_rate b' ! i)). \<not> window_off w \<longrightarrow> w_consumed w \<le> w_limit w) \<and>
         length (rs_windows (t_rate b' ! i)) = length (rs_windows (t_rate b ! i)) \<and>
         (\<exists>t2. \<forall>k < length (rs_windows (t_rate b ! i)).
            window_charged (rs_windows (t_rate b ! i) ! k) (check_clock B P b (snd (hal_gate P b p e))) t2
              (ucast (amount_of (op_needs b op) i)) (rs_windows (t_rate b' ! i) ! k))"
  using assms(4)
proof (rule enter_OK [OF assms(1)])
  fix p' s rt t0
  let ?b = "checked B P b op e" and ?a = "amount_of (op_needs b op) i" and ?r = "t_rate b ! i"
  define now where "now = check_clock B P b (snd (hal_gate P b p e))"
  assume a: "admissible B P b op e" "loxbudget_profile_c b op = Some p'"
    "charged B p' (t_resources b) (amount_of (op_needs b op)) (t_rate ?b) rt" "b' = entered ?b op s rt"
  have p: "p' = p" using a(2) assms(3) by simp
  note len = size_shape_lengths [OF inst_okD(5) [OF assms(1)]]
  have i: "i < 256" "i < length (t_resources b)" using assms(6) len(3,7) by simp_all
  have rb: "t_rate ?b ! i = rolled B now ?a ?r" "length (t_rate ?b) = length (t_rate b)"
    using checked_rates [OF assms(1) a(1) assms(3,5) i(1)] assms(7,8) check_frame_def checked_frame [of b B P op e]
    by (simp_all add: now_def rates_like_def)
  obtain t2 where "rt ! i = commit_rate B t2 ?a (t_rate ?b ! i)"
    by (rule chargedD [OF a(3), of i]) (use rb assms(5,7,8) i p in simp_all)
  then have t2: "t_rate b' ! i = commit_rate B t2 ?a (rolled B now ?a ?r)"
    by (simp add: a(4) entered_def rb(1))
  obtain n where n: "n \<in> set (op_needs b op)" "live n" "unat (n_resource n) = i" "n_amount n = ?a"
    using need_of_amount [OF assms(8) i(1)] by blast
  have ok: "\<not> lifetime_exceeded ?r ?a" "windows_accept B now ?r ?a"
    using a(1) n assms(3,7) by (auto simp: admissible_def need_ok_def now_def rated_def Let_def)
  have len: "length (rs_windows (t_rate b' ! i)) = length (rs_windows ?r)"
    by (simp add: t2 commit_rate_def rolled_def)
  have win: "window_charged (rs_windows ?r ! k) now t2 (ucast ?a) (rs_windows (t_rate b' ! i) ! k)"
    if "k < length (rs_windows ?r)" for k
    unfolding t2 by (rule charged_windows [OF assms(2) ok(2) that])
  have "\<forall>w\<in>set (rs_windows (t_rate b' ! i)). \<not> window_off w \<longrightarrow> w_consumed w \<le> w_limit w"
    using window_charged_within [OF win] by (simp add: all_set_conv_all_nth len)
  with charged_lifetime [OF ok(1), of B t2 now] win len show ?thesis
    unfolding now_def [symmetric] t2 [symmetric] by blast
qed

text \<open>A budget of 12 units a minute and 30 for the lifetime of the consumable resource of \<open>demo\<close>.\<close>

definition demo_limits :: loxbudget where
  "demo_limits =
     snd (loxbudget_set_lifetime_limit
       (fst (snd (loxbudget_set_rate_limit fixed_build quiet_platform demo 1 1 12 7))) 1 30)"

theorem enter_respects_rate_limits_witness:
  "\<exists>b' e' out. loxbudget_enter fixed_build quiet_platform demo_limits 0 True 7 = (LOXBUDGET_OK, out, b', e') \<and>
     rs_consumed_lifetime (t_rate b' ! 1) \<le> 30 \<and>
     (\<exists>t2. \<forall>k < length (rs_windows (t_rate demo_limits ! 1)).
        window_charged (rs_windows (t_rate demo_limits ! 1) ! k)
          (check_clock fixed_build quiet_platform demo_limits
             (snd (hal_gate quiet_platform demo_limits (loxbudget_op_profile_default 0) 7))) t2 10
          (rs_windows (t_rate b' ! 1) ! k)) \<and>
     \<not> window_off (rs_windows (t_rate demo_limits ! 1) ! 1)"
proof -
  have st: "fst (loxbudget_enter fixed_build quiet_platform demo_limits 0 True 7) = LOXBUDGET_OK"
    by code_simp
  have on: "\<not> window_off (rs_windows (t_rate demo_limits ! 1) ! 1)"
    by code_simp
  have f: "loxbudget_profile_c demo_limits 0 = Some (loxbudget_op_profile_default 0)" "length (t_rate demo_limits) = 2"
    "b_max_resources demo_limits = 2" "rated fixed_build (loxbudget_op_profile_default 0) (t_resources demo_limits ! 1)"
    "amount_of (op_needs demo_limits 0) 1 = 10" "rs_limit_lifetime (t_rate demo_limits ! 1) = 30"
    "list_all resource_ok (t_resources demo_limits)" "t_edge_count demo_limits = 0"
    by (code_simp; simp)+
  have o: "only_rates demo demo_limits"
    unfolding demo_limits_def by (rule only_rates_trans [OF set_rate_limit_frame set_lifetime_limit_frame])
  have "config_ok demo_limits"
    by (rule same_config_ok [OF only_rates_same_config [OF o] lb_shape_size [OF demo_shape] demo_config])
  moreover have "lb_shape fixed_build demo_limits"
    unfolding demo_limits_def by (intro set_lifetime_limit_shape set_rate_limit_shape demo_shape)
  ultimately have ok: "inst_ok fixed_build demo_limits"
    using f(7,8) by (simp add: inst_ok_def books_ok_def edges_ok_def live_edges_def)
  obtain st' out b' e' where r: "loxbudget_enter fixed_build quiet_platform demo_limits 0 True 7 = (st', out, b', e')"
    by (metis prod.exhaust)
  with st have r: "loxbudget_enter fixed_build quiet_platform demo_limits 0 True 7 = (LOXBUDGET_OK, out, b', e')" by simp
  have tb: "\<not> token_bucket fixed_build" by (simp add: fixed_build_def)
  have "rs_limit_lifetime (t_rate b' ! 1) = 30"
  proof -
    have "rs_limit_lifetime (t_rate (fst (snd (snd (loxbudget_enter fixed_build quiet_platform demo_limits 0 True 7)))) ! 1) = 30"
      by code_simp
    with r show ?thesis by simp
  qed
  with enter_respects_rate_limits [OF ok tb f(1) r, of 1] f r on show ?thesis by simp
qed

end
