(* ===== verification/LB_Recheck.thy ===== *)
theory LB_Recheck
  imports LB_Rate_Effect
begin

text \<open>
  Check, then enter: the usual way to call the library. A check moves the rate windows and the
  bitmap of the causal walk, and time passes before the enter, so it is not obvious that a
  granted check is followed by a successful enter. It is, on either rate algorithm and
  whatever the clock does in between, as long as a slot is free and the platform's
  preconditions still hold. The last lemmas are for a client that holds no lease: its enter finds a
  slot, and the leave that follows leaves it without a lease again.
\<close>

section \<open>An accepting window accepts again\<close>

lemma fixed_accepts_again:
  assumes "\<not> token_bucket B" and "snd (lb__rate_roll_and_check B w t1 a)"
  shows "snd (lb__rate_roll_and_check B (fst (lb__rate_roll_and_check B w t1 a)) t2 a)"
proof (cases "window_off w")
  case False
  let ?v = "window_roll w t1"
  have roll: "fst (lb__rate_roll_and_check B w t1 a) = ?v"
    using assms(1) False by (simp add: lb__rate_roll_and_check_def Let_def)
  have acc: "\<not> w_consumed ?v > w_limit ?v" "\<not> a > w_limit ?v - w_consumed ?v"
    using assms False by (auto simp: lb__rate_roll_and_check_def Let_def split: if_splits)
  then have "unat a \<le> unat (w_limit ?v)"
    by (simp add: word_less_nat_alt unat_sub word_le_nat_alt not_less)
  then have "a \<le> w_limit ?v" by (simp add: word_le_nat_alt)
  moreover have "window_roll ?v t2 = ?v \<or> w_limit (window_roll ?v t2) = w_limit ?v \<and> w_consumed (window_roll ?v t2) = 0"
    by (simp add: window_roll_def)
  ultimately show ?thesis
    unfolding roll using acc assms(1) by (auto simp: lb__rate_roll_and_check_def Let_def not_less)
qed (simp add: lb__rate_roll_and_check_def)

lemma token_accepts_again:
  assumes "token_bucket B" and "window_off w \<or> bucket_ok w" and "snd (lb__rate_roll_and_check B w t1 a)"
  shows "snd (lb__rate_roll_and_check B (fst (lb__rate_roll_and_check B w t1 a)) t2 a)"
proof (cases "window_off w")
  case False
  let ?v = "token_refill w t1"
  have ok: "bucket_ok ?v" using False assms(2) token_refill_ok by blast
  have acc: "unat a * 65536 \<le> unat (w_consumed ?v)"
    using token_check [OF False assms(1)] assms(3) by simp
  also have "\<dots> \<le> unat (w_consumed (token_refill ?v t2))"
    using token_refill_consumed [OF ok, of t2] ok by (simp add: bucket_ok_def)
  finally show ?thesis
    using token_check [OF False assms(1)] token_check [of ?v B] False assms(1) by simp
qed (simp add: lb__rate_roll_and_check_def)

text \<open>The windows of a table that either algorithm handles; \<open>loxbudget_set_rate_limit\<close> below 65536 keeps it.\<close>

definition rates_ok :: "build \<Rightarrow> loxbudget \<Rightarrow> bool" where
  "rates_ok B b \<longleftrightarrow> (token_bucket B \<longrightarrow> (\<forall>rs\<in>set (t_rate b). \<forall>w\<in>set (rs_windows rs). window_off w \<or> bucket_ok w))"

lemma windows_accept_again:
  assumes "windows_accept B t1 rs a" and "token_bucket B \<longrightarrow> (\<forall>w\<in>set (rs_windows rs). window_off w \<or> bucket_ok w)"
  shows "windows_accept B t2 (rolled B t1 a rs) a"
  using assms fixed_accepts_again [of B] token_accepts_again [of B]
  by (cases "token_bucket B") (auto simp: windows_accept_def rolled_def)

section \<open>The causal walk does not see what a check changes\<close>

text \<open>The parts of an instance the walk reads.\<close>

definition same_graph :: "loxbudget \<Rightarrow> loxbudget \<Rightarrow> bool" where
  "same_graph b c \<longleftrightarrow>
     live_edges c = live_edges b \<and> op_needs c = op_needs b \<and> b_pressure c = b_pressure b \<and>
     b_max_ops c = b_max_ops b \<and> b_max_resources c = b_max_resources b"

lemma edge_followed_same: "same_graph b c \<Longrightarrow> edge_followed c = edge_followed b"
  by (simp add: fun_eq_iff edge_followed_def same_graph_def)

lemma cascade_scan_same:
  "same_graph b c \<Longrightarrow> cascade_scan B c cur d vis es st npr = cascade_scan B b cur d vis es st npr"
  by (induction es arbitrary: st npr) (simp_all add: edge_followed_same, simp add: same_graph_def)

lemma cascade_loop_same:
  assumes "same_graph b c"
  shows "cascade_loop k B c st vis npr = cascade_loop k B b st vis npr"
proof (induction k arbitrary: st vis npr)
  case (Suc k)
  have l: "live_edges c = live_edges b" using assms by (simp add: same_graph_def)
  show ?case
  proof (cases st)
    case (Cons x st')
    then show ?thesis
      by (cases x) (simp add: Suc.IH l cascade_scan_same [OF assms] Let_def split: prod.split)
  qed simp
qed simp

lemma visit_clear_length:
  "length v = (unat n + 7) div 8 \<Longrightarrow> lb__visit_clear v (ucast (n :: u8)) = replicate (length v) 0"
  using unat_bitmap_bytes [of n] by (simp add: lb__visit_clear_def)

lemma check_frame_graph:
  assumes "check_frame b c"
  shows "same_graph b c" and "lb__causality_has_storage' B c = lb__causality_has_storage' B b"
proof -
  have "live_edges c = live_edges b" "op_needs c = op_needs b"
    using check_frame_fields [OF assms] check_frame_config [OF assms]
    by (simp_all add: live_edges_def op_needs_def fun_eq_iff)
  then show "same_graph b c" using check_frame_fields [OF assms] by (simp add: same_graph_def)
  show "lb__causality_has_storage' B c = lb__causality_has_storage' B b"
    by (simp only: lb__causality_has_storage'_def lb__causality_off'_def check_frame_fields [OF assms])
qed

lemma cascade_fits_again:
  assumes "lb_shape B b" and "lb_shape B c" and "check_frame b c"
  shows "cascade_fits B c op = cascade_fits B b op"
proof (cases "causality_on B")
  case True
  note f = check_frame_fields [OF assms(3)]
  note g = check_frame_graph [OF assms(3)]
  have len: "length (t_visited b) = (unat (b_max_ops b) + 7) div 8" "length (t_visited c) = (unat (b_max_ops b) + 7) div 8"
    using shape_graph [OF assms(1) True] shape_graph [OF assms(2) True] f(8) by (simp_all add: graph_shape_def)
  have own: "own_needs c op = own_needs b op"
    using f g(1) by (simp add: own_needs_def same_graph_def)
  have "fst (lb__causality_add_scaled_needs B c op n) = fst (lb__causality_add_scaled_needs B b op n) \<and>
      snd (snd (lb__causality_add_scaled_needs B c op n)) = snd (snd (lb__causality_add_scaled_needs B b op n))" for n
    using len cascade_loop_same [OF g(1)] f(8)
    by (auto simp: lb__causality_add_scaled_needs_def g(2) visit_clear_length Let_def split: option.splits)
  then have "total_needs B c op = total_needs B b op"
    by (simp add: total_needs_def own split_def)
  moreover have "fits c i x = fits b i x" for i x
    using f by (simp add: fits_def)
  ultimately show ?thesis using f by (simp add: cascade_fits_def)
qed (simp add: cascade_fits_def)

section \<open>Admission is stable\<close>

lemma need_ok_same:
  assumes "check_frame b c"
  shows "need_ok B c now p rt n = need_ok B b now p rt n"
  using check_frame_fields [OF assms] by (simp add: need_ok_def)

lemma need_amount:
  assumes "distinct (need_keys ns)" and "n \<in> set ns" and "live n"
  shows "amount_of ns (unat (n_resource n)) = n_amount n"
proof -
  have "need_map ns (n_resource n) = Some (n_amount n)"
    using assms unfolding need_map_def
    by (intro map_of_is_SomeI) (auto simp: need_keys_def comp_def)
  then show ?thesis by (simp add: amount_of_def)
qed

lemma admissible_again:
  assumes ok: "inst_ok B b" and rates: "rates_ok B b" and adm: "admissible B P b op e"
    and prof: "loxbudget_profile_c b op = Some p"
    and gate: "fst (hal_gate P (checked B P b op e) p x)"
  shows "admissible B P (checked B P b op e) op x"
proof -
  let ?c = "checked B P b op e"
  define t1 where "t1 = check_clock B P b (snd (hal_gate P b p e))"
  define t2 where "t2 = check_clock B P ?c (snd (hal_gate P ?c p x))"
  have f: "check_frame b ?c" by (rule checked_frame)
  note ff = check_frame_fields [OF f] and acc = check_frame_accessors [OF f]
  note len = size_shape_lengths [OF inst_okD(5) [OF ok]]
  have keys: "distinct (need_keys (op_needs b op))" using inst_needs [OF ok, of op] prof by simp
  have "need_ok B ?c t2 p (t_rate ?c) n" if n: "n \<in> set (op_needs b op)" "live n" for n
  proof -
    have old: "need_ok B b t1 p (t_rate b) n" using adm prof n by (simp add: admissible_def t1_def)
    let ?i = "unat (n_resource n)"
    have i: "?i < unat (b_max_resources b)" "?i < 256"
      using old len(7) by (simp_all add: need_ok_def word_less_nat_alt)
    have "rated B p (t_resources b ! ?i) \<Longrightarrow> t_rate ?c ! ?i = rolled B t1 (n_amount n) (t_rate b ! ?i) \<and>
        t_rate b ! ?i \<in> set (t_rate b)"
      using checked_rates [OF ok adm prof, of ?i] need_amount [OF keys n] i n(2) inst_okD(1) [OF ok]
      by (auto simp: t1_def live_def rated_def lb_shape_def feature_shape_def)
    with old windows_accept_again [of B t1 "t_rate b ! ?i" "n_amount n" t2] rates have
      "need_ok B b t2 p (t_rate ?c) n"
      by (auto simp: need_ok_def Let_def rates_ok_def lifetime_exceeded_def rolled_def)
    then show ?thesis by (simp add: need_ok_same [OF f])
  qed
  moreover have "pressure_allows ?c p" using adm prof ff(4) by (simp add: admissible_def pressure_allows_def)
  moreover have "cascade_fits B ?c op"
    using cascade_fits_again [OF inst_okD(1) [OF ok] inst_okD(1) [OF checked_inst [OF ok]] f] adm prof
    by (simp add: admissible_def)
  ultimately show ?thesis
    using gate prof by (simp add: admissible_def acc t2_def)
qed

text \<open>A granted check leaves an instance on which the operation is still admissible.\<close>

lemma granted_admissible:
  assumes "inst_ok B b" and "rates_ok B b"
    and "loxbudget_check B P b op True e = (LOXBUDGET_OK, Some d, b', e')" and "allows (d_action d)"
    and "loxbudget_profile_c b op = Some p" and "fst (hal_gate P b' p x)"
  shows "admissible B P b' op x" and "inst_ok B b'" and "check_frame b b'"
proof -
  have b': "b' = checked B P b op e" using assms(3) by (simp add: checked_def)
  have "admissible B P b op e"
    using check_allows [OF inst_okD(1,2) [OF assms(1)] assms(3)] assms(4) by simp
  then show "admissible B P b' op x"
    using admissible_again [OF assms(1,2) _ assms(5)] assms(6) by (simp add: b')
  show "inst_ok B b'" unfolding b' by (rule checked_inst [OF assms(1)])
  show "check_frame b b'" unfolding b' by (rule checked_frame)
qed

section \<open>Enter and leave on an idle instance\<close>

lemma hal_gate_free: "p_flags p = 0 \<Longrightarrow> hal_gate P b p e = (True, e)"
  by (simp add: hal_gate_def hal_queries_def has_flag_def)

lemma slots_idle: "slots_ok b [] \<longleftrightarrow> (\<forall>i < unat (b_max_leases b). ls_active (t_lease_slots b ! i) = 0)"
  by (auto simp: slots_ok_def)

lemma idle_free_slot:
  assumes "inst_ok B b" and "slots_ok b []" and "0 < unat (b_max_leases b)"
  shows "free_slot b \<noteq> None"
  using assms size_shape_lengths(6) [OF inst_okD(5) [OF assms(1)]]
  by (auto simp: slots_idle free_slot_def first_index_None)

lemma idle_enters:
  assumes "inst_ok B b" and "slots_ok b []" and "0 < unat (b_max_leases b)" and "admissible B P b op e"
  shows "\<exists>l b2 e2. loxbudget_enter B P b op True e = (LOXBUDGET_OK, Some l, b2, e2)"
  using assms(4) idle_free_slot [OF assms(1-3)]
  by (cases rule: enter_cases [OF inst_okD(1,2) [OF assms(1)], of P op e, case_names denied full entered]) auto

lemma entered_slots:
  assumes "slots_ok b []" and "free_slot b = Some i" and "loxbudget_profile_c b op = Some p"
    and "b2 = entered (checked B P b op e) op i rt" and "Some l = Some (new_lease b i op now)"
  shows "slots_ok b2 [l]"
proof -
  let ?c = "checked B P b op e"
  note acc = check_frame_accessors [OF checked_frame [of b B P op e]]
  have "new_lease ?c i op now = l" using assms(5) by (simp add: new_lease_def acc)
  with enter_slots [of ?c "[]" i op rt now] assms(1-4) show ?thesis
    by (simp add: slots_check_frame [OF checked_frame [of b B P op e]] acc)
qed

lemma entered_left_config:
  assumes "b2 = entered (checked B P b op e) op i rt"
  shows "b_max_leases (left b2 l) = b_max_leases b" "loxbudget_profile_c (left b2 l) = loxbudget_profile_c b"
  by (simp_all only: books_only_fields(4) [OF left_books] books_only_accessors(1) [OF left_books] assms
      books_only_fields(4) [OF entered_books] books_only_accessors(1) [OF entered_books]
      check_frame_accessors [OF checked_frame] check_frame_fields(5) [OF checked_frame])

lemma enter_leave_idle:
  assumes "inst_ok B b" "slots_ok b []" and enter: "loxbudget_enter B P b op True e = (LOXBUDGET_OK, Some l, b2, e2)"
  shows "\<exists>b3 e3. loxbudget_leave P b2 l e2 = (LOXBUDGET_OK, b3, e3) \<and> inst_ok B b3 \<and> slots_ok b3 [] \<and>
     b_max_leases b3 = b_max_leases b \<and> loxbudget_profile_c b3 = loxbudget_profile_c b"
proof (rule enter_OK [OF assms(1) enter])
  fix p i rt now
  assume free: "free_slot b = Some i" "loxbudget_profile_c b op = Some p"
    and l: "Some l = Some (new_lease b i op now)" and b2: "b2 = entered (checked B P b op e) op i rt"
    and ok: "inst_ok B b2"
  note slots = entered_slots [OF assms(2) free b2 l]
  have "lease_valid b2 l" using slots by (simp add: slots_ok_def)
  then obtain e3 where leave: "loxbudget_leave P b2 l e2 = (LOXBUDGET_OK, left b2 l, e3)"
    using leave_valid [OF shape_magic [OF inst_okD(1) [OF ok]], of l P e2] by blast
  moreover have "slots_ok (left b2 l) []"
    using leave_slots [OF slots size_shape_lengths(6) [OF inst_okD(5) [OF ok]]] by simp
  moreover have "inst_ok B (left b2 l)" using leave_inst [OF ok, of P l e2] by (simp add: leave)
  ultimately show ?thesis using entered_left_config [OF b2, of l] by blast
qed

section \<open>Properties\<close>

text \<open>
  C10. Check, then enter: when a check grants an operation and nothing else is called on the
  instance, entering it succeeds, whatever time passes, if a lease slot is free and the
  platform still meets the preconditions. It succeeds with fixed windows and, when the limits are
  below 65536, with token buckets.
\<close>

theorem granted_check_enters:
  assumes "inst_ok B b" and "rates_ok B b"
    and "loxbudget_check B P b op True e = (LOXBUDGET_OK, Some d, b', e')" and "allows (d_action d)"
    and "loxbudget_profile_c b op = Some p" and "fst (hal_gate P b' p x)"
    and "i < unat (b_max_leases b)" and "ls_active (t_lease_slots b ! i) = 0"
  shows "fst (loxbudget_enter B P b' op True x) = LOXBUDGET_OK"
proof -
  note granted = granted_admissible [OF assms(1-6)]
  have "free_slot b \<noteq> None"
    using assms(7,8) size_shape_lengths(6) [OF inst_okD(5) [OF assms(1)]]
    by (auto simp: free_slot_def first_index_None)
  then have "free_slot b' \<noteq> None" by (simp add: check_frame_accessors(3) [OF granted(3)])
  with granted(1) show ?thesis
    by (cases rule: enter_cases [OF inst_okD(1,2) [OF granted(2)], of P op x, case_names denied full entered]) auto
qed

theorem granted_check_enters_witness:
  "\<exists>d b' e'. loxbudget_check fixed_build quiet_platform demo 0 True 7 = (LOXBUDGET_OK, Some d, b', e') \<and>
     allows (d_action d) \<and> fst (loxbudget_enter fixed_build quiet_platform b' 0 True 9999) = LOXBUDGET_OK"
proof -
  have a: "map_option (\<lambda>d. allows (d_action d)) (fst (snd (loxbudget_check fixed_build quiet_platform demo 0 True 7))) = Some True"
    by code_simp
  obtain st dd b' e' where c: "loxbudget_check fixed_build quiet_platform demo 0 True 7 = (st, dd, b', e')"
    by (metis prod.exhaust)
  have "fst (loxbudget_check fixed_build quiet_platform demo 0 True 7) = LOXBUDGET_OK" by code_simp
  with a c obtain d where d: "st = LOXBUDGET_OK" "dd = Some d" "allows (d_action d)" by auto
  have f: "loxbudget_profile_c demo 0 = Some (loxbudget_op_profile_default 0)" by code_simp
  have g: "fst (hal_gate quiet_platform b' (loxbudget_op_profile_default 0) 9999)"
    by (simp add: hal_gate_def hal_queries_def loxbudget_op_profile_default_def has_flag_def)
  have "rates_ok fixed_build demo" by (simp add: rates_ok_def fixed_build_def)
  from granted_check_enters [OF demo_ok this c [unfolded d(1,2)] d(3) f g, of 0]
  have "fst (loxbudget_enter fixed_build quiet_platform b' 0 True 9999) = LOXBUDGET_OK"
    using demo_facts by (simp add: zero_slot_def)
  with c d show ?thesis by blast
qed

end
