(* ===== verification/LB_Examples.thy ===== *)
theory LB_Examples
  imports LB_Adapters LB_Recheck
begin

text \<open>
  The example programs under \<open>examples/\<close> (01, 02 and 03): each \<open>main\<close> as a function of the build, the
  platform, the addresses of its instance and its storage and the state they start in. Besides the exit code
  a program's result holds the decisions and records it throws away.
\<close>

section \<open>Definitions\<close>

text \<open>\<open>sizeof(storage)\<close> of \<open>static uint32_t storage[(LOXBUDGET_REQUIRED_SIZE(r, n, a) + 3u) / 4u]\<close>.\<close>

definition storage_bytes :: "build \<Rightarrow> u8 \<Rightarrow> u8 \<Rightarrow> u8 \<Rightarrow> u64" where
  "storage_bytes B r n a = 4 * ucast ((LOXBUDGET_REQUIRED_SIZE B r n a + 3) div 4)"

subsection \<open>\<open>01_bare_metal_minimal\<close>\<close>

text \<open>The decision is unset when the check is refused, which counts as not being ALLOW_FULL.\<close>

definition minimal_main ::
    "build \<Rightarrow> 'e platform \<Rightarrow> u64 \<Rightarrow> u64 \<Rightarrow> loxbudget \<Rightarrow> 'e \<Rightarrow> nat \<times> loxbudget \<times> 'e" where
  "minimal_main B P ba sa b0 e =
     (let p = loxbudget_op_profile_default 0
      in case loxbudget_init_simple B P ba sa (storage_bytes B 2 2 0) 2 2 b0 e of (st, b, e) \<Rightarrow>
         if st \<noteq> LOXBUDGET_OK then (2, b, e)
         else let b = snd (loxbudget_set_resource b 0 10 (ucast (u8_of_kind LOXBUDGET_RES_REUSABLE)));
                  b = snd (loxbudget_register_op b (Some p));
                  b = snd (loxbudget_op_set_need b 0 0 5)
              in case loxbudget_check B P b 0 True e of (_, d, b, e) \<Rightarrow>
                   (if map_option d_action d = Some LOXBUDGET_ALLOW_FULL then 0 else 1, b, e))"

subsection \<open>\<open>02_freertos_mqtt_storm\<close>\<close>

text \<open>The user pointer of the HAL is the address of the clock \<open>t\<close>, which is the environment.\<close>

definition demo_now_ms :: "ptr \<Rightarrow> u32 \<Rightarrow> u32 \<times> u32" where
  "demo_now_ms user t = (t + 1, t + 1)"

definition demo_hal' :: loxbudget_hal_callbacks where
  "demo_hal' = \<lparr>cb_now_ms = 5, cb_critical_enter = 0, cb_critical_exit = 0,
     cb_boot_proven = 0, cb_voltage_ok = 0, cb_network_up = 0\<rparr>"

definition storm_platform :: "u32 platform" where
  "storm_platform = (host_platform (\<lambda>_ _ _ _ _ e. e))\<lparr>fn_now_ms := (\<lambda>f. demo_now_ms)\<rparr>"

definition storm_profile' :: "u8 \<Rightarrow> loxbudget_op_profile" where
  "storm_profile' op = (loxbudget_op_profile_default op)
     \<lparr>p_action_elevated := u8_of_action LOXBUDGET_ALLOW_DEGRADED,
      p_action_critical := u8_of_action LOXBUDGET_WAIT,
      p_action_survival := u8_of_action LOXBUDGET_REJECT,
      p_action_lockdown := u8_of_action LOXBUDGET_LOCKDOWN\<rparr>"

text \<open>One \<open>set_pressure\<close> with the check that follows it.\<close>

definition storm_step :: "build \<Rightarrow> loxbudget_pressure \<Rightarrow> loxbudget \<times> u32 \<Rightarrow>
     loxbudget_decision option \<times> loxbudget \<times> u32" where
  "storm_step B p s =
     (case snd (loxbudget_set_pressure storm_platform (fst s) (ucast (u8_of_pressure p)) (snd s)) of (b, e) \<Rightarrow>
        snd (loxbudget_check B storm_platform b 0 True e))"

definition storm_main :: "build \<Rightarrow> u64 \<Rightarrow> u64 \<Rightarrow> ptr \<Rightarrow> loxbudget \<Rightarrow>
     nat \<times> loxbudget_decision option list \<times> loxbudget_decision_record list \<times> loxbudget" where
  "storm_main B ba sa user b0 =
     (let mqtt_pub = storm_profile' 0;
          cfg = (loxbudget_config_simple 2 2)\<lparr>cfg_max_concurrent_leases := 2, cfg_audit_size := 32,
                  cfg_hal_callbacks := Some demo_hal', cfg_hal_user := user\<rparr>
      in case loxbudget_init B storm_platform ba sa (storage_bytes B 2 2 32) (Some cfg) b0 0 of (st, b, e) \<Rightarrow>
         if st \<noteq> LOXBUDGET_OK then (1, [], [], b)
         else let b = snd (loxbudget_set_resource b 0 8 (ucast (u8_of_kind LOXBUDGET_RES_REUSABLE)));
                  b = snd (loxbudget_register_op b (Some mqtt_pub));
                  b = snd (loxbudget_op_set_need b 0 0 4)
              in case storm_step B LOXBUDGET_PRESSURE_NORMAL (b, e) of (d1, s) \<Rightarrow>
                 case storm_step B LOXBUDGET_PRESSURE_ELEVATED s of (d2, s) \<Rightarrow>
                 case storm_step B LOXBUDGET_PRESSURE_CRITICAL s of (d3, s) \<Rightarrow>
                   (0, [d1, d2, d3],
                    if audit_on B then fst (snd (snd (loxbudget_audit_get_recent storm_platform (fst s) True 8 True (snd s)))) else [],
                    snd (loxbudget_deinit (fst s))))"

subsection \<open>\<open>03_esp_idf_flash_budget\<close>\<close>

definition flash_profile' :: "u8 \<Rightarrow> loxbudget_op_profile" where
  "flash_profile' op = (loxbudget_op_profile_default op)
     \<lparr>p_action_critical := u8_of_action LOXBUDGET_ALLOW_DEGRADED,
      p_action_survival := u8_of_action LOXBUDGET_REJECT,
      p_action_lockdown := u8_of_action LOXBUDGET_LOCKDOWN\<rparr>"

text \<open>The instance when the operation has been configured; \<open>rate_on B\<close> is the preprocessor's test.\<close>

definition flash_configure :: "build \<Rightarrow> 'e platform \<Rightarrow> loxbudget \<times> 'e \<Rightarrow> loxbudget \<times> 'e" where
  "flash_configure B P s =
     (case s of (b, e) \<Rightarrow>
      let b = snd (loxbudget_set_resource b 0 100 (ucast (u8_of_kind LOXBUDGET_RES_CONSUMABLE)));
          (b, e) = (if rate_on B
            then (case snd (loxbudget_set_rate_limit B P b 0 1 60 e) of
                    (b, e) \<Rightarrow> (snd (loxbudget_set_lifetime_limit b 0 1000), e))
            else (b, e));
          b = snd (loxbudget_register_op b (Some (flash_profile' 0)))
      in (snd (loxbudget_op_set_need b 0 0 10), e))"

definition flash_main ::
    "build \<Rightarrow> 'e platform \<Rightarrow> u64 \<Rightarrow> u64 \<Rightarrow> loxbudget \<Rightarrow> 'e \<Rightarrow>
     nat \<times> loxbudget_status list \<times> loxbudget \<times> 'e" where
  "flash_main B P ba sa b0 e =
     (let cfg = (loxbudget_config_simple 2 2)\<lparr>cfg_max_concurrent_leases := 1, cfg_audit_size := 32\<rparr>
      in case loxbudget_init B P ba sa (storage_bytes B 2 2 32) (Some cfg) b0 e of (st, b, e) \<Rightarrow>
         if st \<noteq> LOXBUDGET_OK then (1, [], b, e)
         else case flash_configure B P (b, e) of (b, e) \<Rightarrow>
           case loxbudget_enter B P b 0 True e of (st, lease, b, e) \<Rightarrow>
           if st = LOXBUDGET_OK
           then (case loxbudget_leave P b (the lease) e of (st', b, e) \<Rightarrow>
                   (0, [st, st'], snd (loxbudget_deinit b), e))
           else (0, [st], snd (loxbudget_deinit b), e))"

section \<open>A fresh instance\<close>

lemma storage_bytes_enough:
  assumes "unat r \<le> 8" and "unat n \<le> 16"
  shows "unat (storage_bytes B r n a) < 4294967296"
    and "unat (LOXBUDGET_REQUIRED_SIZE B r n a) \<le> unat (storage_bytes B r n a)"
proof -
  let ?s = "unat (LOXBUDGET_REQUIRED_SIZE B r n a)"
  have s: "?s \<le> 20000"
  proof -
    have "(unat n + 7) div 8 \<le> 2" using assms(2) by simp
    then show ?thesis using assms unat_u8_bound [of a] by (auto simp: required_size_unat)
  qed
  then have "unat (LOXBUDGET_REQUIRED_SIZE B r n a + 3) = ?s + 3"
    by (intro unat_add_small [THEN trans]) auto
  then have q: "unat ((LOXBUDGET_REQUIRED_SIZE B r n a + 3) div 4) = (?s + 3) div 4"
    by (simp add: unat_div)
  with s have u: "unat (ucast ((LOXBUDGET_REQUIRED_SIZE B r n a + 3) div 4) :: u64) = (?s + 3) div 4"
    by (simp add: unat_ucast_mod)
  then have "unat (storage_bytes B r n a) = 4 * ((?s + 3) div 4)"
    using s by (simp add: storage_bytes_def unat_word_ariths)
  with s show "unat (storage_bytes B r n a) < 4294967296"
    and "?s \<le> unat (storage_bytes B r n a)" by auto
qed

text \<open>The instance that \<open>loxbudget_init\<close> leaves, in the terms of its configuration maps.\<close>

definition fresh_inst :: "build \<Rightarrow> loxbudget_config \<Rightarrow> loxbudget \<Rightarrow> bool" where
  "fresh_inst B c b \<longleftrightarrow>
     inst_ok B b \<and> live_edges b = [] \<and> slots_ok b [] \<and> configured b = Map.empty \<and>
     loxbudget_profile_c b = Map.empty \<and> need_table b = Map.empty \<and> b_pressure b = 0 \<and>
     b_max_resources b = cfg_max_resources c \<and> b_max_ops b = cfg_max_ops c \<and>
     b_max_leases b = cfg_max_concurrent_leases c \<and> b_hal_cb b = cfg_hal_callbacks c \<and>
     b_hal_strict b = (if cfg_hal_strict c \<noteq> 0 then 1 else 0) \<and>
     (rate_on B \<longrightarrow> (\<forall>rs\<in>set (t_rate b). rs = zero_rate)) \<and> b_audit_size b = cfg_audit_size c \<and> audit_log b = []"

lemma init_fresh:
  assumes "loxbudget_validate_init_args ba sa n (Some c) = LOXBUDGET_OK" and "n = storage_bytes B r m a"
    and "cfg_max_resources c = r" and "cfg_max_ops c = m" and "cfg_audit_size c = a"
  shows "\<exists>b e'. loxbudget_init B P ba sa n (Some c) b0 e = (LOXBUDGET_OK, b, e') \<and> fresh_inst B c b"
proof -
  have "unat r \<le> 8" "unat m \<le> 16" using assms by (auto simp: valid_args_cfg)
  note size = storage_bytes_enough [OF this, of B a]
  obtain x e' where init: "loxbudget_init B P ba sa n (Some c) b0 e =
      (LOXBUDGET_OK, (init_tables B (init_struct B n c))\<lparr>b_lease_magic_base := x\<rparr>, e')" "x \<noteq> 0"
    using init_returns [OF assms(1), of B P b0 e] size assms(2-5) by auto
  define b where "b = (init_tables B (init_struct B n c))\<lparr>b_lease_magic_base := x\<rparr>"
  have ok: "inst_ok B b" using init_ok [OF init(1)] by (simp add: live_ok_def b_def)
  have r: "unat r \<le> 8" "unat m \<le> 16" by fact+
  have "configured b = Map.empty" "loxbudget_profile_c b = Map.empty"
    using assms(3,4) r by (auto simp: configured_def loxbudget_profile_c_def b_def fun_eq_iff word_less_nat_alt not_le)
  moreover have "need_table b = Map.empty"
  proof -
    have "need_map (op_needs b op) = Map.empty" if "op < b_max_ops b" for op
      using inst_okD(2) [OF ok] that dom_need_map [of "op_needs b op"] r assms(4)
      by (auto simp: config_ok_def op_config_ok_def b_def word_less_nat_alt)
    then show ?thesis by (auto simp: need_table_def fun_eq_iff)
  qed
  moreover have "slots_ok b []" by (simp add: slots_ok_def b_def zero_slot_def)
  ultimately have "fresh_inst B c b"
    using ok by (simp add: fresh_inst_def) (auto simp: b_def live_edges_def audit_log_def init_tables_def Let_def
        init_struct_def zero_budget_def)
  with init(1) show ?thesis unfolding b_def by blast
qed


text \<open>The three calls that configure operation 0 with one need of resource 0.\<close>

definition one_op :: "build \<Rightarrow> loxbudget \<Rightarrow> loxbudget_op_profile \<Rightarrow> loxbudget_resource \<Rightarrow> u16 \<Rightarrow> bool" where
  "one_op B b p res a \<longleftrightarrow>
     inst_ok B b \<and> live_edges b = [] \<and> slots_ok b [] \<and> configured b 0 = Some res \<and>
     loxbudget_profile_c b 0 = Some p \<and> (\<forall>r. need_table b (0, r) = (if r = 0 then Some a else None))"

lemma configure_op:
  assumes "inst_ok B b" and "live_edges b = []" and "slots_ok b []" and "configured b 0 = Some res"
    and "loxbudget_profile_c b = Map.empty" and "need_table b = Map.empty"
    and "0 < b_max_ops b" and "p_op_id p = 0" and "p_priority p \<le> 3" and "profile_in_range p" and "p_flags p = 0"
    and "a \<noteq> 0" and c: "c = snd (loxbudget_op_set_need (snd (loxbudget_register_op b (Some p))) 0 0 a)"
  shows "one_op B c p res a" and "t_rate c = t_rate b" and "b_pressure c = b_pressure b" and "b_max_leases c = b_max_leases b"
    and "b_audit_size c = b_audit_size b" and "audit_log c = audit_log b"
proof -
  define b2 where "b2 = b\<lparr>t_ops := (t_ops b)[0 := p], t_op_cfg := (t_op_cfg b)[0 := 1],
     t_needs := set_chunk LOXBUDGET_MAX_NEEDS_PER_OP 0 (replicate LOXBUDGET_MAX_NEEDS_PER_OP zero_need) (t_needs b)\<rparr>"
  have m: "b_magic b = LOXBUDGET_MAGIC_INIT" by (rule shape_magic [OF inst_okD(1) [OF assms(1)]])
  note s = inst_okD(5) [OF assms(1)]
  note len = size_shape_lengths [OF s]
  have t: "t_op_cfg b ! 0 = 0" using fun_cong [OF assms(5), of 0] assms(7) by (auto simp: loxbudget_profile_c_def split: if_splits)
  have miss: "\<not> strict_hal_missing b 0" by (simp add: strict_hal_missing_def has_flag_def)
  have reg: "loxbudget_register_op b (Some p) = (LOXBUDGET_OK, b2)"
    unfolding register_op_OK b2_def using assms(7-11) m t miss by (intro exI [of _ p]) simp
  have r0: "0 < b_max_resources b" "t_res_cfg b ! 0 \<noteq> 0"
    using assms(4) by (auto simp: configured_def split: if_splits)
  have needs: "op_needs b2 0 = replicate LOXBUDGET_MAX_NEEDS_PER_OP zero_need"
    using op_needs_set [OF s assms(7,7), of "replicate LOXBUDGET_MAX_NEEDS_PER_OP zero_need"]
    by (simp add: op_needs_def b2_def del: replicate.simps)
  obtain xs where xs: "need_insert 0 a (op_needs b2 0) = Some xs"
    by (simp add: needs need_insert_def zero_need_def eval_nat_numeral)
  have l1: "0 < length (t_op_cfg b)" using assms(7) len by (auto simp: word_less_nat_alt)
  have "\<exists>c'. loxbudget_op_set_need b2 0 0 a = (LOXBUDGET_OK, c')"
    unfolding op_set_need_OK using xs r0 l1 assms(7,12) m by (auto simp: b2_def)
  then have set: "loxbudget_op_set_need b2 0 0 a = (LOXBUDGET_OK, c)" using c reg by auto
  have ok2: "inst_ok B b2" using config_inst(2) [OF assms(1), of "Some p"] reg by simp
  then have ok: "inst_ok B c" using config_inst(3) [OF ok2, of 0 0 a] set by simp
  obtain ns where cns: "c = b2\<lparr>t_needs := ns\<rparr>" using set unfolding op_set_need_OK by auto
  show same: "t_rate c = t_rate b" "b_pressure c = b_pressure b" "b_max_leases c = b_max_leases b"
    "b_audit_size c = b_audit_size b" by (simp_all add: cns b2_def)
  show "audit_log c = audit_log b" by (rule audit_log_cong) (simp_all add: cns b2_def)
  have "live_edges c = []" "slots_ok c []"
    using assms(2,3) by (simp_all add: cns b2_def live_edges_def slots_ok_def)
  with ok show "one_op B c p res a"
    using register_op_writes [OF assms(1) reg] op_set_need_writes [OF ok2 set] assms(4-6,8)
    by (simp add: one_op_def)
qed


text \<open>Without edges the causal walk adds nothing.\<close>

lemma no_edges_npr: "live_edges b = [] \<Longrightarrow> snd (snd (lb__causality_add_scaled_needs B b op npr)) = npr"
  by (simp add: lb__causality_add_scaled_needs_def walk_fuel_def eval_nat_numeral Let_def split: option.splits)

lemma one_op_admissible:
  assumes one: "one_op B b p res a" and "p_flags p = 0" and "pressure_allows b p"
    and "r_kind res \<noteq> 2" and "unat a \<le> room res"
    and rate: "rated B p res \<Longrightarrow> \<not> lifetime_exceeded (t_rate b ! 0) a \<and> windows_accept B (check_clock B P b e) (t_rate b ! 0) a"
  shows "admissible B P b 0 e"
proof -
  have ok: "inst_ok B b" and prof: "loxbudget_profile_c b 0 = Some p" and conf: "configured b 0 = Some res"
    and tab: "\<And>r. need_table b (0, r) = (if r = 0 then Some a else None)" and no: "live_edges b = []"
    using one by (simp_all add: one_op_def)
  have op: "0 < b_max_ops b" using prof by (auto simp: loxbudget_profile_c_def word_neq_0_conv split: if_splits)
  have map: "need_map (op_needs b 0) r = (if r = 0 then Some a else None)" for r
    using tab [of r] op by (simp add: need_table_def)
  have r: "0 < b_max_resources b" "t_res_cfg b ! 0 \<noteq> 0" "t_resources b ! 0 = res"
    using conf by (auto simp: configured_def split: if_splits)
  have keys: "distinct (need_keys (op_needs b 0))" using inst_needs [OF ok, of 0] prof by simp
  have need: "n_resource n = 0 \<and> n_amount n = a" if "n \<in> set (op_needs b 0)" "live n" for n
  proof -
    have "need_map (op_needs b 0) (n_resource n) = Some (n_amount n)"
      unfolding need_map_def using that keys by (intro map_of_is_SomeI) (auto simp: need_keys_def comp_def)
    then show ?thesis by (auto simp: map split: if_splits)
  qed
  then have "need_ok B b (check_clock B P b e) p (t_rate b) n" if "n \<in> set (op_needs b 0)" "live n" for n
    using that r assms(4,5) rate by (simp add: need_ok_def)
  moreover have "fits b i (own_needs b 0 ! i)" if i: "i < unat (b_max_resources b)" for i
  proof -
    have "i < 8" using i size_shape_lengths(7) [OF inst_okD(5) [OF ok]] by simp
    then have "own_needs b 0 ! i = (if i = 0 \<and> r_kind res \<noteq> 2 then a else 0)"
      using i r by (auto simp: own_needs_def map of_nat_eq_0_iff word_of_nat_eq_0_iff)
    then show ?thesis using r assms(4,5) by (simp add: fits_def)
  qed
  then have "cascade_fits B b 0"
    using no_edges_npr [OF no, of B 0 "own_needs b 0"] by (simp add: cascade_fits_def total_needs_def split_def)
  ultimately show ?thesis
    using assms(2,3) prof by (simp add: admissible_def hal_gate_def hal_queries_def has_flag_def)
qed


text \<open>The first call of all three programs.\<close>

definition plain_resource :: "u16 \<Rightarrow> u8 \<Rightarrow> loxbudget_resource" where
  "plain_resource l k = \<lparr>r_limit = l, r_used = 0, r_reserved = 0, r_high_watermark = 0, r_kind = k, r_flags = 1\<rparr>"

lemma fresh_set_resource:
  assumes f: "fresh_inst B cfg b" and "0 < cfg_max_resources cfg" and k: "k \<le> 2"
    and c: "c = snd (loxbudget_set_resource b 0 l (ucast k))"
  shows "inst_ok B c" and "configured c = [0 \<mapsto> plain_resource l k]" and "live_edges c = []" and "slots_ok c []"
    and "loxbudget_profile_c c = Map.empty" and "need_table c = Map.empty" and "t_rate c = t_rate b"
    and "b_pressure c = b_pressure b" and "b_max_ops c = b_max_ops b" and "b_audit_size c = b_audit_size b"
    and "audit_log c = audit_log b" and "b_max_leases c = b_max_leases b"
proof -
  have ok: "inst_ok B b" using f by (simp add: fresh_inst_def)
  have set: "loxbudget_set_resource b 0 l (ucast k) = (LOXBUDGET_OK, c)"
    using shape_magic [OF inst_okD(1) [OF ok]] f assms(2) k unfolding c
    by (auto simp: loxbudget_set_resource_def fresh_inst_def kind_byte Let_def not_less)
  show "inst_ok B c" using config_inst(1) [OF ok, of 0 l "ucast k"] by (simp add: c)
  have w: "configured c = (configured b)(0 \<mapsto> plain_resource l k)"
      "loxbudget_profile_c c = loxbudget_profile_c b" "need_table c = need_table b"
    using set_resource_writes [OF ok, of "\<lparr>mr_id = 0, mr_limit = l, mr_kind = k\<rparr>" c] set
    by (simp_all add: fresh_resource_def plain_resource_def)
  with f show "configured c = [0 \<mapsto> plain_resource l k]" "loxbudget_profile_c c = Map.empty" "need_table c = Map.empty"
    by (simp_all add: fresh_inst_def)
  from set obtain rs rc where e: "c = b\<lparr>t_resources := rs, t_res_cfg := rc\<rparr>" unfolding set_resource_OK by blast
  from f show "live_edges c = []" "slots_ok c []" by (simp_all add: e fresh_inst_def live_edges_def slots_ok_def)
  show "t_rate c = t_rate b" "b_pressure c = b_pressure b" "b_max_ops c = b_max_ops b" "b_audit_size c = b_audit_size b"
    "b_max_leases c = b_max_leases b" by (simp_all add: e)
  show "audit_log c = audit_log b" by (rule audit_log_cong) (simp_all add: e)
qed

section \<open>What a check of the configured operation decides\<close>

lemma check_granted:
  assumes "inst_ok B b" and "admissible B P b op e" and "loxbudget_profile_c b op = Some p"
  obtains d b' e' where "loxbudget_check B P b op True e = (LOXBUDGET_OK, Some d, b', e')"
    "d_action d = action_of_u8 (loxbudget_mapped_action p (b_pressure b))" "d_reason d = LOXBUDGET_REASON_OK"
proof -
  note ok = inst_okD(1,2) [OF assms(1)]
  obtain d g b1 e1 where v: "check_verdict B P b op e = (d, g, b1, e1)"
    and c: "loxbudget_check B P b op True e = (LOXBUDGET_OK, Some d, check_finish B P b1 op d g e1)"
    by (rule check_run [OF shape_magic [OF ok(1)], of B P op e])
  have "d_reason d = LOXBUDGET_REASON_OK" "d_action d = action_of_u8 (loxbudget_mapped_action p (b_pressure b))"
    using verdict_explained [OF ok v] verdict_admissible [OF ok v] assms(2,3) by (auto simp: explained_def)
  with c show thesis by (metis prod.collapse that)
qed

lemma check_blocked:
  assumes "inst_ok B b" and "loxbudget_profile_c b op = Some p" and "b_pressure b < 4"
    and "loxbudget_mapped_action p (b_pressure b) \<in> {2, 3}"
  obtains d b' e' where "loxbudget_check B P b op True e = (LOXBUDGET_OK, Some d, b', e')"
    "d_action d = action_of_u8 (loxbudget_mapped_action p (b_pressure b))" "d_reason d = LOXBUDGET_REASON_PRESSURE_BLOCK"
proof -
  obtain d g b1 e1 where v: "check_verdict B P b op e = (d, g, b1, e1)"
    and c: "loxbudget_check B P b op True e = (LOXBUDGET_OK, Some d, check_finish B P b1 op d g e1)"
    by (rule check_run [OF shape_magic [OF inst_okD(1) [OF assms(1)]], of B P op e])
  have "d_reason d = LOXBUDGET_REASON_PRESSURE_BLOCK \<and> d_action d = action_of_u8 (loxbudget_mapped_action p (b_pressure b))"
  proof -
    let ?a = "action_of_u8 (loxbudget_mapped_action p (b_pressure b))"
    have "b_pressure b \<noteq> 4" "?a = LOXBUDGET_WAIT \<or> ?a = LOXBUDGET_REJECT"
      using assms(3,4) by (auto simp: action_of_u8_def)
    then have "check_pressure b p (x\<lparr>d_action := ?a\<rparr>) = Some (x\<lparr>d_action := ?a, d_reason := LOXBUDGET_REASON_PRESSURE_BLOCK\<rparr>)" for x
      by (auto simp: check_pressure_def)
    with v assms(2) show ?thesis by (auto simp: check_verdict_def Let_def)
  qed
  with c show thesis by (metis prod.collapse that)
qed

lemma one_op_checked:
  assumes "one_op B b p res a"
  shows "one_op B (checked B P b op e) p res a"
proof -
  note f = checked_frame [of b B P op e]
  note acc = check_frame_accessors [OF f] and fld = check_frame_fields [OF f]
  have "configured (checked B P b op e) = configured b" "need_table (checked B P b op e) = need_table b"
    by (simp_all add: configured_def need_table_def fun_eq_iff fld acc)
  with assms show ?thesis
    by (simp add: one_op_def checked_inst acc fld slots_check_frame [OF f] live_edges_def)
qed

lemma one_op_pressure:
  assumes "one_op B b p res a" and "x \<le> 4"
    and s: "loxbudget_set_pressure P b (ucast (x :: u8)) e = (st, b', e')"
  shows "one_op B b' p res a" and "b' = b\<lparr>b_pressure := x\<rparr>" and "st = LOXBUDGET_OK"
proof -
  have m: "b_magic b = LOXBUDGET_MAGIC_INIT" using assms(1) shape_magic inst_okD(1) by (auto simp: one_op_def)
  show b': "b' = b\<lparr>b_pressure := x\<rparr>" and "st = LOXBUDGET_OK"
    using s m assms(2) by (auto simp: loxbudget_set_pressure_def kind_byte Let_def not_less [symmetric] split: if_splits)
  have "inst_ok B b'" using set_pressure_inst(1) [of B b P "ucast x" e] s assms(1) by (simp add: one_op_def)
  then show "one_op B b' p res a"
    using assms(1) by (simp add: one_op_def b' configured_def need_table_def op_needs_def loxbudget_profile_c_def
        live_edges_def slots_ok_def cong: if_cong)
qed


lemma valid_storage:
  assumes "ba \<noteq> 0" "sa \<noteq> 0" "loxbudget_is_aligned_u32 sa"
    and "cfg_max_resources c \<in> {1, 2}" "cfg_max_ops c \<in> {1, 2}" "cfg_max_concurrent_leases c \<in> {1, 2, 4}"
    and "cfg_audit_size c \<in> {0, 32}"
  shows "loxbudget_validate_init_args ba sa (storage_bytes B (cfg_max_resources c) (cfg_max_ops c) (cfg_audit_size c)) (Some c) = LOXBUDGET_OK"
proof -
  let ?r = "cfg_max_resources c" and ?n = "cfg_max_ops c" and ?a = "cfg_audit_size c"
  have "unat ?r \<le> 8" "unat ?n \<le> 16" using assms(4,5) by auto
  moreover have "80 \<le> unat (LOXBUDGET_REQUIRED_SIZE B ?r ?n ?a)" by (simp add: required_size_unat)
  ultimately have "storage_bytes B ?r ?n ?a \<noteq> 0"
    using storage_bytes_enough(2) [of ?r ?n B ?a] by (auto simp del: required_size_unat)
  then show ?thesis
    using assms by (auto simp: valid_args_cfg loxbudget_is_pow2_or_zero_u8_def)
qed

text \<open>The initialisation of a program, with storage for its own configuration, succeeds.\<close>

lemma init_program:
  assumes "ba \<noteq> 0" "sa \<noteq> 0" "loxbudget_is_aligned_u32 sa"
    and "cfg_max_resources c = r" "cfg_max_ops c = n" "cfg_audit_size c = a"
    and "r \<in> {1, 2}" "n \<in> {1, 2}" "a \<in> {0, 32}" "cfg_max_concurrent_leases c \<in> {1, 2, 4}"
  obtains b e' where "loxbudget_init B P ba sa (storage_bytes B r n a) (Some c) b0 e = (LOXBUDGET_OK, b, e')" "fresh_inst B c b"
proof -
  have v: "loxbudget_validate_init_args ba sa (storage_bytes B r n a) (Some c) = LOXBUDGET_OK"
    using valid_storage [OF assms(1-3), of c B] assms(4-10) by simp
  from init_fresh [OF v refl assms(4-6), of P b0 e] show thesis using that by blast
qed

text \<open>The configuration calls of 01 and 02 on the fresh instance.\<close>

lemma fresh_one_op:
  assumes f: "fresh_inst B cfg b" and "0 < cfg_max_resources cfg" and "0 < cfg_max_ops cfg" and "k \<le> 2"
    and p: "p_op_id p = 0" "p_priority p \<le> 3" "profile_in_range p" "p_flags p = 0" and "a \<noteq> 0"
    and c: "c = snd (loxbudget_op_set_need (snd (loxbudget_register_op (snd (loxbudget_set_resource b 0 l (ucast k))) (Some p))) 0 0 a)"
  shows "one_op B c p (plain_resource l k) a" and "b_pressure c = 0" and "b_audit_size c = b_audit_size b"
    and "audit_log c = []"
proof -
  let ?b = "snd (loxbudget_set_resource b 0 l (ucast k))"
  note r = fresh_set_resource [OF f assms(2,4) refl, of l]
  have "configured ?b 0 = Some (plain_resource l k)" "0 < b_max_ops ?b"
    using r(2,9) f assms(3) by (simp_all add: fresh_inst_def)
  note o = configure_op [OF r(1,3,4) this(1) r(5,6) this(2) p assms(9) c]
  show "one_op B c p (plain_resource l k) a" by (rule o(1))
  show "b_pressure c = 0" "b_audit_size c = b_audit_size b" "audit_log c = []"
    using o r f by (simp_all add: fresh_inst_def)
qed

lemma minimal_exit:
  assumes "ba \<noteq> 0" "sa \<noteq> 0" "loxbudget_is_aligned_u32 sa"
  shows "fst (minimal_main B P ba sa b0 e) = 0"
proof -
  let ?cfg = "loxbudget_config_simple 2 2" and ?p = "loxbudget_op_profile_default 0"
  have cfg: "cfg_max_resources ?cfg = 2" "cfg_max_ops ?cfg = 2" "cfg_audit_size ?cfg = 0" "cfg_max_concurrent_leases ?cfg = 4"
    by (simp_all add: loxbudget_config_simple_def)
  obtain b e1 where init: "loxbudget_init B P ba sa (storage_bytes B 2 2 0) (Some ?cfg) b0 e = (LOXBUDGET_OK, b, e1)"
    and f: "fresh_inst B ?cfg b"
    by (rule init_program [OF assms cfg(1-3), of B P b0 e]) (simp_all add: cfg)
  define c where "c = snd (loxbudget_op_set_need (snd (loxbudget_register_op (snd (loxbudget_set_resource b 0 10 (ucast (0 :: u8)))) (Some ?p))) 0 0 5)"
  have one: "one_op B c ?p (plain_resource 10 0) 5" and pr: "b_pressure c = 0"
    using fresh_one_op [OF f, of 0 ?p 5 c 10]
    by (simp_all add: cfg c_def loxbudget_op_profile_default_def profile_in_range_def)
  have "admissible B P c 0 e1"
    by (rule one_op_admissible [OF one])
      (simp_all add: pressure_allows_def pr loxbudget_mapped_action_def loxbudget_op_profile_default_def
        pressure_of_u8_def plain_resource_def room_def rated_def)
  moreover have "inst_ok B c" "loxbudget_profile_c c 0 = Some ?p" using one by (simp_all add: one_op_def)
  ultimately obtain d b' e' where check: "loxbudget_check B P c 0 True e1 = (LOXBUDGET_OK, Some d, b', e')"
      and "d_action d = action_of_u8 (loxbudget_mapped_action ?p (b_pressure c))"
    by (metis check_granted)
  then have "d_action d = LOXBUDGET_ALLOW_FULL"
    by (simp add: pr loxbudget_mapped_action_def loxbudget_op_profile_default_def pressure_of_u8_def action_of_u8_def)
  then show ?thesis
    using init check [unfolded c_def] by (simp add: minimal_main_def loxbudget_init_simple_def)
qed

text \<open>The storm: each pressure step decides what the profile maps the pressure to, and is recorded.\<close>

lemma storm_profile_fields:
  "p_op_id (storm_profile' 0) = 0" "p_priority (storm_profile' 0) \<le> 3" "profile_in_range (storm_profile' 0)"
  "p_flags (storm_profile' 0) = 0"
  by (simp_all add: storm_profile'_def loxbudget_op_profile_default_def profile_in_range_def)

definition storm_ok :: "build \<Rightarrow> loxbudget \<Rightarrow> bool" where
  "storm_ok B b \<longleftrightarrow> one_op B b (storm_profile' 0) (plain_resource 8 0) 4 \<and> b_audit_size b = 32"

lemma storm_step_decides:
  assumes "storm_ok B b" and x: "x = u8_of_pressure pr" "x \<in> {0, 1, 2}"
  shows "\<exists>d c e'. storm_step B pr (b, e) = (Some d, c, e') \<and> storm_ok B c \<and> d_action d = action_of_u8 x \<and>
    d_reason d = (if x < 2 then LOXBUDGET_REASON_OK else LOXBUDGET_REASON_PRESSURE_BLOCK) \<and>
    (audit_on B \<longrightarrow> (\<exists>now. audit_log c = take 32 (audit_entry now 0 d # audit_log b)))"
proof -
  let ?p = "storm_profile' 0" and ?r = "plain_resource 8 0"
  obtain st b1 e1 where s: "loxbudget_set_pressure storm_platform b (ucast x) e = (st, b1, e1)" by (metis prod.exhaust)
  have "x \<le> 4" using x(2) by auto
  note one_op_pressure [OF _ this s, of B ?p ?r 4]
  then have one: "one_op B b1 ?p ?r 4" and b1: "b1 = b\<lparr>b_pressure := x\<rparr>" using assms(1) by (simp_all add: storm_ok_def)
  have ok: "inst_ok B b1" "loxbudget_profile_c b1 0 = Some ?p" using one by (simp_all add: one_op_def)
  have act: "loxbudget_mapped_action ?p (b_pressure b1) = x"
    using x(2) by (auto simp: b1 loxbudget_mapped_action_def pressure_of_u8_def storm_profile'_def loxbudget_op_profile_default_def)
  have "\<exists>d c e'. loxbudget_check B storm_platform b1 0 True e1 = (LOXBUDGET_OK, Some d, c, e') \<and> d_action d = action_of_u8 x \<and>
      d_reason d = (if x < 2 then LOXBUDGET_REASON_OK else LOXBUDGET_REASON_PRESSURE_BLOCK)"
  proof (cases "x < 2")
    case True
    have "admissible B storm_platform b1 0 e1"
      by (rule one_op_admissible [OF one storm_profile_fields(4)])
        (use True x(2) act in \<open>auto simp: pressure_allows_def b1 plain_resource_def room_def rated_def\<close>)
    from check_granted [OF ok(1) this ok(2)] show ?thesis using act True by metis
  next
    case False
    then have "x = 2" using x(2) by auto
    with act have "b_pressure b1 < 4" "loxbudget_mapped_action ?p (b_pressure b1) \<in> {2, 3}" by (simp_all add: b1)
    from check_blocked [OF ok this, of storm_platform e1] show ?thesis using act False by metis
  qed
  then obtain d c e' where c: "loxbudget_check B storm_platform b1 0 True e1 = (LOXBUDGET_OK, Some d, c, e')"
    and d: "d_action d = action_of_u8 x" "d_reason d = (if x < 2 then LOXBUDGET_REASON_OK else LOXBUDGET_REASON_PRESSURE_BLOCK)"
    by blast
  have step: "storm_step B pr (b, e) = (Some d, c, e')"
    using s c x(1) by (simp add: storm_step_def)
  have cc: "c = checked B storm_platform b1 0 e1" using c by (simp add: checked_def)
  have "storm_ok B c"
    using one_op_checked [OF one, of storm_platform 0 e1] check_frame_fields(20) [OF checked_frame [of b1 B storm_platform 0 e1]] assms(1)
    by (simp add: storm_ok_def cc b1)
  moreover have "\<exists>now. audit_log c = take 32 (audit_entry now 0 d # audit_log b)" if "audit_on B"
    using check_audit_log [OF inst_okD(1) [OF ok(1)] that _ c] assms(1) audit_log_cong [of b1 b]
    by (simp add: storm_ok_def b1)
  ultimately show ?thesis using step d by blast
qed


text \<open>What a record of the audit trail says, without its time stamp.\<close>

definition record_why :: "loxbudget_decision_record \<Rightarrow> u8 \<times> u8 \<times> u8" where
  "record_why r = (a_op_id r, a_action r, a_reason r)"

lemma record_why_entry [simp]:
  "record_why (audit_entry now op d) = (op, u8_of_action (d_action d), u8_of_reason (d_reason d))"
  by (simp add: record_why_def audit_entry_def)

definition storm_actions :: "(loxbudget_action \<times> loxbudget_reason) list" where
  "storm_actions = [(LOXBUDGET_ALLOW_FULL, LOXBUDGET_REASON_OK), (LOXBUDGET_ALLOW_DEGRADED, LOXBUDGET_REASON_OK),
     (LOXBUDGET_WAIT, LOXBUDGET_REASON_PRESSURE_BLOCK)]"

lemma storm_steps:
  assumes "storm_ok B c" and "audit_log c = []"
  obtains d1 d2 d3 c1 c2 c3 x1 x2 x3 where "storm_step B LOXBUDGET_PRESSURE_NORMAL (c, x) = (Some d1, c1, x1)"
    "storm_step B LOXBUDGET_PRESSURE_ELEVATED (c1, x1) = (Some d2, c2, x2)"
    "storm_step B LOXBUDGET_PRESSURE_CRITICAL (c2, x2) = (Some d3, c3, x3)" "storm_ok B c3"
    "map (\<lambda>d. (d_action d, d_reason d)) [d1, d2, d3] = storm_actions"
    "audit_on B \<longrightarrow> map record_why (audit_log c3) = [(0, 2, 4), (0, 1, 0), (0, 0, 0)]"
proof -
  obtain d1 c1 x1 where s1: "storm_step B LOXBUDGET_PRESSURE_NORMAL (c, x) = (Some d1, c1, x1)" "storm_ok B c1"
    "d_action d1 = LOXBUDGET_ALLOW_FULL" "d_reason d1 = LOXBUDGET_REASON_OK"
    "audit_on B \<longrightarrow> (\<exists>now. audit_log c1 = take 32 (audit_entry now 0 d1 # audit_log c))"
    using storm_step_decides [OF assms(1), of 0 LOXBUDGET_PRESSURE_NORMAL x] by (auto simp: action_of_u8_def)
  obtain d2 c2 x2 where s2: "storm_step B LOXBUDGET_PRESSURE_ELEVATED (c1, x1) = (Some d2, c2, x2)" "storm_ok B c2"
    "d_action d2 = LOXBUDGET_ALLOW_DEGRADED" "d_reason d2 = LOXBUDGET_REASON_OK"
    "audit_on B \<longrightarrow> (\<exists>now. audit_log c2 = take 32 (audit_entry now 0 d2 # audit_log c1))"
    using storm_step_decides [OF s1(2), of 1 LOXBUDGET_PRESSURE_ELEVATED x1] by (auto simp: action_of_u8_def)
  obtain d3 c3 x3 where s3: "storm_step B LOXBUDGET_PRESSURE_CRITICAL (c2, x2) = (Some d3, c3, x3)" "storm_ok B c3"
    "d_action d3 = LOXBUDGET_WAIT" "d_reason d3 = LOXBUDGET_REASON_PRESSURE_BLOCK"
    "audit_on B \<longrightarrow> (\<exists>now. audit_log c3 = take 32 (audit_entry now 0 d3 # audit_log c2))"
    using storm_step_decides [OF s2(2), of 2 LOXBUDGET_PRESSURE_CRITICAL x2] by (auto simp: action_of_u8_def)
  have "audit_on B \<longrightarrow> map record_why (audit_log c3) = [(0, 2, 4), (0, 1, 0), (0, 0, 0)]"
    using s1(3-5) s2(3-5) s3(3-5) assms(2) by auto
  moreover have "map (\<lambda>d. (d_action d, d_reason d)) [d1, d2, d3] = storm_actions"
    by (simp add: storm_actions_def s1(3,4) s2(3,4) s3(3,4))
  ultimately show thesis by (intro that [OF s1(1) s2(1) s3(1,2)])
qed

lemma storm_recent:
  assumes "storm_ok B c"
  shows "fst (snd (snd (loxbudget_audit_get_recent storm_platform c True 8 True x))) = take 8 (audit_log c)"
    and "b_magic c = LOXBUDGET_MAGIC_INIT"
proof -
  have ok: "lb_shape B c" "b_audit_size c = 32"
    using assms inst_okD(1) by (auto simp: storm_ok_def one_op_def)
  then have "audit_ok c" using audit_ok_shape [of c] by (simp add: lb_shape_def)
  then show "fst (snd (snd (loxbudget_audit_get_recent storm_platform c True 8 True x))) = take 8 (audit_log c)"
    using ok audit_recent_log [of c 8] shape_magic [OF ok(1)] by (simp add: loxbudget_audit_get_recent_def Let_def)
  show "b_magic c = LOXBUDGET_MAGIC_INIT" by (rule shape_magic [OF ok(1)])
qed

lemma storm_result:
  assumes "ba \<noteq> 0" "sa \<noteq> 0" "loxbudget_is_aligned_u32 sa"
  shows "\<exists>ds rec b. storm_main B ba sa user b0 = (0, map Some ds, rec, b) \<and> b_magic b = 0 \<and>
    map (\<lambda>d. (d_action d, d_reason d)) ds = storm_actions \<and>
    (audit_on B \<longrightarrow> map record_why rec = [(0, 2, 4), (0, 1, 0), (0, 0, 0)])"
proof -
  let ?cfg = "(loxbudget_config_simple 2 2)\<lparr>cfg_max_concurrent_leases := 2, cfg_audit_size := 32,
                  cfg_hal_callbacks := Some demo_hal', cfg_hal_user := user\<rparr>"
  have cfg: "cfg_max_resources ?cfg = 2" "cfg_max_ops ?cfg = 2" "cfg_audit_size ?cfg = 32" "cfg_max_concurrent_leases ?cfg = 2"
    by (simp_all add: loxbudget_config_simple_def)
  obtain b e1 where init: "loxbudget_init B storm_platform ba sa (storage_bytes B 2 2 32) (Some ?cfg) b0 0 = (LOXBUDGET_OK, b, e1)"
    and f: "fresh_inst B ?cfg b"
    by (rule init_program [OF assms cfg(1-3), of B storm_platform b0 0]) (simp_all add: cfg)
  define c where "c = snd (loxbudget_op_set_need (snd (loxbudget_register_op (snd (loxbudget_set_resource b 0 8 (ucast (0 :: u8))))
      (Some (storm_profile' 0)))) 0 0 4)"
  have "storm_ok B c" "audit_log c = []"
    using fresh_one_op [OF f, of 0 "storm_profile' 0" 4 c 8] storm_profile_fields f
    by (simp_all add: cfg c_def storm_ok_def fresh_inst_def)
  from storm_steps [OF this, of e1] obtain d1 d2 d3 c1 c2 c3 x1 x2 x3 where
      steps: "storm_step B LOXBUDGET_PRESSURE_NORMAL (c, e1) = (Some d1, c1, x1)"
      "storm_step B LOXBUDGET_PRESSURE_ELEVATED (c1, x1) = (Some d2, c2, x2)"
      "storm_step B LOXBUDGET_PRESSURE_CRITICAL (c2, x2) = (Some d3, c3, x3)" and ok: "storm_ok B c3"
    and ds: "map (\<lambda>d. (d_action d, d_reason d)) [d1, d2, d3] = storm_actions"
    and log: "audit_on B \<longrightarrow> map record_why (audit_log c3) = [(0, 2, 4), (0, 1, 0), (0, 0, 0)]" .
  let ?rec = "if audit_on B then take 8 (audit_log c3) else []"
  have "storm_main B ba sa user b0 = (0, map Some [d1, d2, d3], ?rec, snd (loxbudget_deinit c3))"
    using init steps(1) [unfolded c_def] steps(2,3) by (simp add: storm_main_def storm_recent(1) [OF ok])
  moreover have "b_magic (snd (loxbudget_deinit c3)) = 0" using storm_recent(2) [OF ok] by (simp add: loxbudget_deinit_def)
  moreover have "audit_on B \<longrightarrow> map record_why ?rec = [(0, 2, 4), (0, 1, 0), (0, 0, 0)]"
    using log by (auto simp: take_map [symmetric])
  ultimately show ?thesis
    using ds by (intro exI [of _ "[d1, d2, d3]"] exI [of _ ?rec] exI [of _ "snd (loxbudget_deinit c3)"] conjI)
qed

text \<open>The flash budget: a new window and the lifetime limit leave room for the first enter.\<close>

lemma new_window_accepts:
  assumes "w_consumed w = (if token_bucket B then 60 * 65536 else 0)" and "w_limit w = 60"
  shows "snd (lb__rate_roll_and_check B w now 10)"
proof (cases "window_off w \<or> \<not> token_bucket B")
  case True
  then show ?thesis
    using assms by (auto simp: lb__rate_roll_and_check_def window_roll_def Let_def word_less_nat_alt)
next
  case False
  then have "bucket_ok w" using assms by (simp add: bucket_ok_def)
  from token_refill_consumed [OF this, of now] False assms show ?thesis
    by (simp add: token_check)
qed

definition flash_rate :: "build \<Rightarrow> rate_state \<Rightarrow> bool" where
  "flash_rate B rs \<longleftrightarrow> rs_limit_lifetime rs = 1000 \<and> rs_consumed_lifetime rs = 0 \<and>
     (\<exists>w. rs_windows rs = [zero_window, w, zero_window, zero_window] \<and> w_limit w = 60 \<and>
        w_consumed w = (if token_bucket B then 60 * 65536 else 0))"

lemma flash_rate_accepts: "flash_rate B rs \<Longrightarrow> \<not> lifetime_exceeded rs 10 \<and> windows_accept B now rs 10"
proof -
  have "snd (lb__rate_roll_and_check B zero_window now a)" for a
    by (simp add: lb__rate_roll_and_check_def window_off_def zero_window_def)
  then show "flash_rate B rs \<Longrightarrow> \<not> lifetime_exceeded rs 10 \<and> windows_accept B now rs 10"
    using new_window_accepts [of _ B now] by (auto simp: flash_rate_def lifetime_exceeded_def windows_accept_def)
qed

lemma flash_limits:
  assumes "inst_ok B b" and "rate_on B" and "configured b 0 = Some (plain_resource 100 1)" and "t_rate b ! 0 = zero_rate"
    and "snd (loxbudget_set_rate_limit B P b 0 1 60 e) = (b2, e2)"
    and "c = snd (loxbudget_set_lifetime_limit b2 0 1000)"
  shows "\<exists>rt. c = b\<lparr>t_rate := rt\<rparr> \<and> flash_rate B (rt ! 0)" and "inst_ok B c"
proof -
  have m: "b_magic b = LOXBUDGET_MAGIC_INIT" by (rule shape_magic [OF inst_okD(1) [OF assms(1)]])
  have r: "0 < b_max_resources b" "t_res_cfg b ! 0 \<noteq> 0" "r_kind (t_resources b ! 0) = 1"
    using assms(3) by (auto simp: configured_def plain_resource_def split: if_splits)
  have len: "0 < length (t_rate b)"
    using inst_okD(1) [OF assms(1)] assms(2) r(1) by (simp add: lb_shape_def feature_shape_def word_less_nat_alt)
  have tokens: "ucast (push_bit 16 (ucast (60 :: u32)) :: u64) = (60 * 65536 :: u32)" by (simp add: push_bit_eq_mult)
  have four: "replicate 4 zero_window = [zero_window, zero_window, zero_window, zero_window]"
    by (simp add: eval_nat_numeral)
  have nz: "b_max_resources b \<noteq> 0" using r(1) by auto
  have two: "b2 = upd_window 0 1 (\<lambda>w. w\<lparr>w_window_duration_ms := 60000,
      w_window_start_ms := fst (loxbudget_hal_now_ms' P b e), w_limit := 60,
      w_consumed := (if token_bucket B then ucast (push_bit 16 (ucast (60 :: u32)) :: u64) else 0)\<rparr>) b"
    using assms(5) m r(2,3) nz by (auto simp: loxbudget_set_rate_limit_def Let_def lb__window_duration_ms_def kind_of_u8_def
        split_def)
  show "\<exists>rt. c = b\<lparr>t_rate := rt\<rparr> \<and> flash_rate B (rt ! 0)"
    using m r(2,3) nz len assms(4)
    by (intro exI [of _ "t_rate c"])
      (simp add: assms(6) two loxbudget_set_lifetime_limit_def kind_of_u8_def Let_def upd_window_def flash_rate_def
        upd_at_def zero_rate_def four tokens)
  show "inst_ok B c"
    unfolding assms(6)
    by (rule rate_only_inst [OF set_lifetime_only], rule rate_only_inst [OF _ assms(1)])
      (use set_rate_limit_only [of b B P 0 1 60 e] assms(5) in simp)
qed


lemma rate_maps:
  "configured (b\<lparr>t_rate := rt\<rparr>) = configured b" "loxbudget_profile_c (b\<lparr>t_rate := rt\<rparr>) = loxbudget_profile_c b"
  "need_table (b\<lparr>t_rate := rt\<rparr>) = need_table b" "live_edges (b\<lparr>t_rate := rt\<rparr>) = live_edges b"
  "slots_ok (b\<lparr>t_rate := rt\<rparr>) [] = slots_ok b []"
  by (simp_all add: fun_eq_iff configured_def loxbudget_profile_c_def need_table_def op_needs_def live_edges_def
      slots_ok_def)

lemma flash_fresh_op:
  assumes f: "fresh_inst B cfg b" and "cfg_max_resources cfg = 2" and "cfg_max_ops cfg = 2"
    and c: "flash_configure B P (b, e) = (c, e')"
  shows "one_op B c (flash_profile' 0) (plain_resource 100 1) 10" and "b_pressure c = 0"
    and "b_max_leases c = cfg_max_concurrent_leases cfg" and "rate_on B \<Longrightarrow> flash_rate B (t_rate c ! 0)"
proof -
  let ?b = "snd (loxbudget_set_resource b 0 100 1)"
  have "?b = snd (loxbudget_set_resource b 0 100 (ucast (1 :: u8)))" "0 < cfg_max_resources cfg" "(1 :: u8) \<le> 2"
    by (simp_all add: assms(2))
  note r = fresh_set_resource [OF f this(2,3,1)]
  have cfg: "configured ?b 0 = Some (plain_resource 100 1)" using r(2) by simp
  obtain b2 x where lim: "snd (loxbudget_set_rate_limit B P ?b 0 1 60 e) = (b2, x)" by fastforce
  define b3 where "b3 = (if rate_on B then snd (loxbudget_set_lifetime_limit b2 0 1000) else ?b)"
  have three: "\<exists>rt. b3 = ?b\<lparr>t_rate := rt\<rparr> \<and> (rate_on B \<longrightarrow> flash_rate B (rt ! 0))" "inst_ok B b3"
  proof -
    have "t_rate ?b ! 0 = zero_rate" if "rate_on B"
    proof -
      have "inst_ok B b" "b_max_resources b = 2" using f assms(2) by (simp_all add: fresh_inst_def)
      then have "0 < length (t_rate b)"
        using inst_okD(1) [of B b] that by (simp add: lb_shape_def feature_shape_def)
      then show ?thesis using f that by (auto simp: fresh_inst_def r(7))
    qed
    then have lims: "\<exists>rt. b3 = ?b\<lparr>t_rate := rt\<rparr> \<and> flash_rate B (rt ! 0)" "inst_ok B b3" if "rate_on B"
      using flash_limits [OF r(1) that cfg _ lim, of b3] that by (simp_all add: b3_def)
    show "\<exists>rt. b3 = ?b\<lparr>t_rate := rt\<rparr> \<and> (rate_on B \<longrightarrow> flash_rate B (rt ! 0))"
    proof (cases "rate_on B")
      case False
      then show ?thesis by (intro exI [of _ "t_rate ?b"]) (simp add: b3_def)
    qed (use lims in blast)
    show "inst_ok B b3" using lims(2) r(1) by (cases "rate_on B") (simp_all add: b3_def)
  qed
  then obtain rt where b3: "b3 = ?b\<lparr>t_rate := rt\<rparr>" and rate: "rate_on B \<Longrightarrow> flash_rate B (rt ! 0)" by blast
  have cc: "c = snd (loxbudget_op_set_need (snd (loxbudget_register_op b3 (Some (flash_profile' 0)))) 0 0 10)"
    using c lim by (cases "rate_on B") (simp_all add: flash_configure_def b3_def)
  have same: "live_edges b3 = []" "slots_ok b3 []" "configured b3 0 = Some (plain_resource 100 1)"
    "loxbudget_profile_c b3 = Map.empty" "need_table b3 = Map.empty" "0 < b_max_ops b3"
    using r(3-6,9) cfg f assms(3)
    by (simp_all add: b3 rate_maps fresh_inst_def)
  have p: "p_op_id (flash_profile' 0) = 0" "p_priority (flash_profile' 0) \<le> 3" "profile_in_range (flash_profile' 0)"
    "p_flags (flash_profile' 0) = 0"
    by (simp_all add: flash_profile'_def loxbudget_op_profile_default_def profile_in_range_def)
  note o = configure_op [OF three(2) same p _ cc]
  show "one_op B c (flash_profile' 0) (plain_resource 100 1) 10" using o(1) by simp
  show "b_pressure c = 0" "b_max_leases c = cfg_max_concurrent_leases cfg"
    using o(3,4) r(8,12) f by (simp_all add: b3 fresh_inst_def)
  show "flash_rate B (t_rate c ! 0)" if "rate_on B" using o(2) rate [OF that] by (simp add: b3)
qed


lemma flash_result:
  assumes "ba \<noteq> 0" "sa \<noteq> 0" "loxbudget_is_aligned_u32 sa"
  shows "\<exists>b e'. flash_main B P ba sa b0 e = (0, [LOXBUDGET_OK, LOXBUDGET_OK], b, e') \<and> b_magic b = 0"
proof -
  let ?cfg = "(loxbudget_config_simple 2 2)\<lparr>cfg_max_concurrent_leases := 1, cfg_audit_size := 32\<rparr>"
  have cfg: "cfg_max_resources ?cfg = 2" "cfg_max_ops ?cfg = 2" "cfg_audit_size ?cfg = 32" "cfg_max_concurrent_leases ?cfg = 1"
    by (simp_all add: loxbudget_config_simple_def)
  obtain b e1 where init: "loxbudget_init B P ba sa (storage_bytes B 2 2 32) (Some ?cfg) b0 e = (LOXBUDGET_OK, b, e1)"
    and f: "fresh_inst B ?cfg b"
    by (rule init_program [OF assms cfg(1-3), of B P b0 e]) (simp_all add: cfg)
  obtain c e2 where c: "flash_configure B P (b, e1) = (c, e2)" by fastforce
  note o = flash_fresh_op [OF f cfg(1,2) c]
  have "admissible B P c 0 e2"
    by (rule one_op_admissible [OF o(1)])
      (use o(2) flash_rate_accepts [OF o(4)] in \<open>simp_all add: pressure_allows_def loxbudget_mapped_action_def
        flash_profile'_def loxbudget_op_profile_default_def pressure_of_u8_def plain_resource_def room_def rated_def\<close>)
  moreover have ok: "inst_ok B c" "slots_ok c []" "0 < unat (b_max_leases c)"
    using o(1,3) by (simp_all add: one_op_def cfg)
  ultimately obtain l b2 e3 where enter: "loxbudget_enter B P c 0 True e2 = (LOXBUDGET_OK, Some l, b2, e3)"
    using idle_enters by metis
  obtain b3 e4 where leave: "loxbudget_leave P b2 l e3 = (LOXBUDGET_OK, b3, e4)" and "inst_ok B b3"
    using enter_leave_idle [OF ok(1,2) enter] by blast
  then have "b_magic (snd (loxbudget_deinit b3)) = 0"
    using shape_magic [OF inst_okD(1)] by (simp add: loxbudget_deinit_def)
  moreover have "flash_main B P ba sa b0 e = (0, [LOXBUDGET_OK, LOXBUDGET_OK], snd (loxbudget_deinit b3), e4)"
    using init c enter leave by (simp add: flash_main_def)
  ultimately show ?thesis by blast
qed

section \<open>Properties\<close>

text \<open>
  C34. The three example programs do what their comments say, in every build and with any address of
  their (aligned) storage: the minimal program exits with 0, on any platform; the storm's checks
  decide ALLOW_FULL, ALLOW_DEGRADED and WAIT as the pressure rises, the last because of
  the pressure, and the audit trail, when it is compiled in, gives these reasons, newest
  first; the flash budget's enter and leave both return OK, within its rate and lifetime
  limits, on any platform. Both leave the instance closed.
\<close>

theorem example_programs_run:
  assumes "ba \<noteq> 0" and "sa \<noteq> 0" and "loxbudget_is_aligned_u32 sa"
  shows "fst (minimal_main B P ba sa b0 e) = 0 \<and>
    (\<exists>ds rec b. storm_main B ba sa user b0 = (0, map Some ds, rec, b) \<and> b_magic b = 0 \<and>
       map (\<lambda>d. (d_action d, d_reason d)) ds =
         [(LOXBUDGET_ALLOW_FULL, LOXBUDGET_REASON_OK), (LOXBUDGET_ALLOW_DEGRADED, LOXBUDGET_REASON_OK),
          (LOXBUDGET_WAIT, LOXBUDGET_REASON_PRESSURE_BLOCK)] \<and>
       (audit_on B \<longrightarrow> map record_why rec = [(0, 2, 4), (0, 1, 0), (0, 0, 0)])) \<and>
    (\<exists>b e'. flash_main B P ba sa b0 e = (0, [LOXBUDGET_OK, LOXBUDGET_OK], b, e') \<and> b_magic b = 0)"
  by (intro conjI minimal_exit [OF assms] storm_result [OF assms, unfolded storm_actions_def] flash_result [OF assms])

theorem example_programs_run_witness:
  "fst (minimal_main fixed_build quiet_platform 0x1000 0x2000 zero_budget 0) = 0 \<and>
   (\<exists>b e'. flash_main fixed_build quiet_platform 0x1000 0x2000 zero_budget 0 = (0, [LOXBUDGET_OK, LOXBUDGET_OK], b, e'))"
  using example_programs_run [of "0x1000" "0x2000" fixed_build quiet_platform zero_budget 0 0]
  by (auto simp: loxbudget_is_aligned_u32_def)

end
