(* ===== verification/LB_Esp32.thy ===== *)
theory LB_Esp32
  imports LB_Examples
begin

text \<open>
  The ESP32 sketch (\<open>examples/esp32_arduino_loxbudget\<close>): a client of the library with one
  resource, one operation and one lease slot, a benchmark loop and a serial console. The Arduino core
  is not part of the repository: the methods of \<open>String\<close> and the functions of the board
  are the parameter \<open>A\<close>. A \<open>String\<close> is the list of its characters, the serial input of one
  call of \<open>loop\<close> the list of what \<open>Serial.read\<close> returns until \<open>Serial.available\<close> is 0, and
  \<open>a_print\<close> writes a line with its numbers. The two floating-point averages of the report
  are left to \<open>a_report\<close>, which is given the counts and times they are computed from.
\<close>

section \<open>The board\<close>

text \<open>The counters of one benchmark pass.\<close>

record bench =
  allow_count :: u32
  deny_count :: u32
  enter_ok :: u32
  enter_fail :: u32
  min_us :: u32
  max_us :: u32
  sum_us :: u64

record 'e arduino =
  s_trim :: "string \<Rightarrow> string"
  s_lower :: "string \<Rightarrow> string"
  s_substring :: "string \<Rightarrow> int \<Rightarrow> int \<Rightarrow> string"
  s_index :: "string \<Rightarrow> char \<Rightarrow> int \<Rightarrow> int"
  s_remove :: "string \<Rightarrow> nat \<Rightarrow> string"
  a_millis :: "'e \<Rightarrow> u32 \<times> 'e"
  a_micros :: "'e \<Rightarrow> u32 \<times> 'e"
  a_no_interrupts :: "'e \<Rightarrow> 'e"
  a_interrupts :: "'e \<Rightarrow> 'e"
  a_delay :: "u32 \<Rightarrow> 'e \<Rightarrow> 'e"
  a_begin :: "u32 \<Rightarrow> 'e \<Rightarrow> 'e"
  a_print :: "string \<Rightarrow> u32 list \<Rightarrow> 'e \<Rightarrow> 'e"
  a_report :: "bench \<Rightarrow> u32 \<Rightarrow> 'e \<Rightarrow> 'e"

definition BENCH_CALLS_PER_PASS :: u32 where "BENCH_CALLS_PER_PASS = 50000"
definition BENCH_YIELD_EVERY :: u32 where "BENCH_YIELD_EVERY = 1000"

text \<open>The callback table and the functions behind its handles; the weak symbols keep their defaults.\<close>

definition HAL_CB :: loxbudget_hal_callbacks where
  "HAL_CB = \<lparr>cb_now_ms = 1, cb_critical_enter = 2, cb_critical_exit = 3,
     cb_boot_proven = 4, cb_voltage_ok = 4, cb_network_up = 4\<rparr>"

definition hal_now_ms' :: "'e arduino \<Rightarrow> ptr \<Rightarrow> 'e \<Rightarrow> u32 \<times> 'e" where
  "hal_now_ms' A user e = a_millis A e"

definition hal_critical_enter' :: "'e arduino \<Rightarrow> ptr \<Rightarrow> 'e \<Rightarrow> 'e" where
  "hal_critical_enter' A user e = a_no_interrupts A e"

definition hal_critical_exit' :: "'e arduino \<Rightarrow> ptr \<Rightarrow> 'e \<Rightarrow> 'e" where
  "hal_critical_exit' A user e = a_interrupts A e"

definition hal_true' :: "ptr \<Rightarrow> 'e \<Rightarrow> u8 \<times> 'e" where
  "hal_true' user e = (1, e)"

definition board :: "'e arduino \<Rightarrow> 'e platform" where
  "board A = (host_platform (\<lambda>_ _ _ _ _ e. e))
     \<lparr>fn_now_ms := (\<lambda>f. hal_now_ms' A),
      fn_void := (\<lambda>f. if f = 2 then hal_critical_enter' A else hal_critical_exit' A),
      fn_bool := (\<lambda>f. hal_true')\<rparr>"

section \<open>Globals and configuration\<close>

datatype sketch_mode = MODE_IDLE | MODE_RUN | MODE_SOAK

record sketch =
  k_B :: loxbudget
  k_OTA :: loxbudget_op_profile
  g_need :: u16
  g_limit :: u16
  g_rate_per_min :: u32
  g_lifetime :: u32
  g_mode :: sketch_mode
  g_passes_left :: u32
  k_line :: string

definition ota_profile' :: "u8 \<Rightarrow> loxbudget_op_profile" where
  "ota_profile' op = (loxbudget_op_profile_default op)
     \<lparr>p_action_critical := u8_of_action LOXBUDGET_ALLOW_DEGRADED,
      p_action_survival := u8_of_action LOXBUDGET_REJECT,
      p_action_lockdown := u8_of_action LOXBUDGET_LOCKDOWN\<rparr>"

text \<open>\<open>rate_on B\<close> is the test \<open>#if LOXBUDGET_ENABLE_RATE_WINDOWS\<close>, 1 in this sketch.\<close>

definition apply_cfg' :: "build \<Rightarrow> 'e arduino \<Rightarrow> sketch \<times> 'e \<Rightarrow> sketch \<times> 'e" where
  "apply_cfg' B A s =
     (case s of (k, e) \<Rightarrow>
        let b = snd (loxbudget_set_resource (k_B k) 0 (g_limit k) (ucast (u8_of_kind LOXBUDGET_RES_CONSUMABLE)));
            (b, e) = (if rate_on B
              then (case snd (loxbudget_set_rate_limit B (board A) b 0 1 (g_rate_per_min k) e) of
                      (b, e) \<Rightarrow> (snd (loxbudget_set_lifetime_limit b 0 (g_lifetime k)), e))
              else (b, e))
        in (k\<lparr>k_B := snd (loxbudget_op_set_need b 0 0 (g_need k))\<rparr>, e))"

section \<open>The console\<close>

definition print_status' :: "build \<Rightarrow> 'e arduino \<Rightarrow> sketch \<times> 'e \<Rightarrow> sketch \<times> 'e" where
  "print_status' B A s =
     (case s of (k, e) \<Rightarrow>
        let e = a_print A ''loxbudget ESP32 demo status:'' [] e;
            e = a_print A (''- mode: '' @ (case g_mode k of MODE_IDLE \<Rightarrow> ''idle'' | MODE_RUN \<Rightarrow> ''run'' | MODE_SOAK \<Rightarrow> ''soak'')) [] e;
            e = a_print A ''- need: %u'' [ucast (g_need k)] e;
            e = a_print A ''- limit: %u'' [ucast (g_limit k)] e;
            e = (if rate_on B
                 then a_print A ''- lifetime: %lu'' [g_lifetime k] (a_print A ''- rate/min: %lu'' [g_rate_per_min k] e)
                 else a_print A ''- rate windows: disabled'' [] e)
        in (k, a_print A ''- bench calls/pass: %lu'' [BENCH_CALLS_PER_PASS] e))"

definition print_help' :: "build \<Rightarrow> 'e arduino \<Rightarrow> 'e \<Rightarrow> 'e" where
  "print_help' B A e =
     fold (\<lambda>l. a_print A l [])
       ([''Commands:'', ''  help'', ''  status'', ''  run [passes]'', ''  soak <passes>'', ''  stop'',
         ''  set need <n>'', ''  set limit <n>''] @
        (if rate_on B then [''  set rate <n>'', ''  set lifetime <n>''] else [])) e"

text \<open>
  \<open>out\<close> and the input that is left; a negative value of \<open>Serial.read\<close> ends the loop.
\<close>

fun read_line' :: "'e arduino \<Rightarrow> int list \<Rightarrow> string \<Rightarrow> bool \<times> string \<times> int list" where
  "read_line' A [] out = (False, out, [])"
| "read_line' A (c # cs) out =
     (if c < 0 then (False, out, cs)
      else if c = 13 then read_line' A cs out
      else if c = 10 then (True, out, cs)
      else let out = out @ [char_of c]
           in read_line' A cs (if length out > 200 then s_remove A out 0 else out))"

text \<open>\<open>strtoul\<close> with base 10: the value, and whether \<open>endp\<close> is past the start. A \<open>long\<close> has 32 bits.\<close>

definition c_space :: "char \<Rightarrow> bool" where
  "c_space c = (of_char c = (32 :: nat) \<or> 9 \<le> (of_char c :: nat) \<and> of_char c \<le> (13 :: nat))"

definition c_digit :: "char \<Rightarrow> bool" where
  "c_digit c = (48 \<le> (of_char c :: nat) \<and> of_char c \<le> (57 :: nat))"

definition strtoul10 :: "string \<Rightarrow> u32 \<times> bool" where
  "strtoul10 s =
     (let t = dropWhile c_space s;
          ds = takeWhile c_digit (if t \<noteq> [] \<and> hd t \<in> {CHR ''+'', CHR ''-''} then tl t else t);
          v = foldl (\<lambda>a c. 10 * a + (of_char c - 48)) (0 :: nat) ds
      in if ds = [] then (0, False)
         else if v > 4294967295 then (0xFFFFFFFF, True)
         else if hd t = CHR ''-'' then (- of_nat v, True)
         else (of_nat v, True))"

definition parse_u32' :: "string \<Rightarrow> u32 \<times> bool" where
  "parse_u32' s = (case strtoul10 s of (v, moved) \<Rightarrow> if \<not> moved then (0, False) else (v, True))"

definition starts_with :: "string \<Rightarrow> string \<Rightarrow> bool" where
  "starts_with s p = (take (length p) s = p)"

text \<open>\<open>s.substring(i)\<close>: up to the end of the string.\<close>

definition s_tail :: "'e arduino \<Rightarrow> string \<Rightarrow> int \<Rightarrow> string" where
  "s_tail A s i = s_substring A s i (int (length s))"

text \<open>The branches \<open>run\<close> and \<open>soak\<close>: the number of passes, 0 when it is refused.\<close>

definition passes_of :: "'e arduino \<Rightarrow> string \<Rightarrow> string \<Rightarrow> u32 \<Rightarrow> u32" where
  "passes_of A s cmd dflt =
     (if starts_with s (cmd @ '' '')
      then (case parse_u32' (s_tail A s (int (length cmd) + 1)) of (v, ok) \<Rightarrow> if \<not> ok then 0 else v)
      else dflt)"

definition handle_cmd' :: "build \<Rightarrow> 'e arduino \<Rightarrow> string \<Rightarrow> sketch \<times> 'e \<Rightarrow> sketch \<times> 'e" where
  "handle_cmd' B A line st =
     (case st of (k, e) \<Rightarrow>
      let s = s_trim A line in
      if length s = 0 then (k, e)
      else let s = s_lower A s in
      if s = ''help'' then (k, print_help' B A e)
      else if s = ''status'' then print_status' B A (k, e)
      else if s = ''stop'' then (k\<lparr>g_mode := MODE_IDLE, g_passes_left := 0\<rparr>, a_print A ''OK: stop'' [] e)
      else if s = ''run'' \<or> starts_with s ''run '' then
        let passes = passes_of A s ''run'' 1 in
        if passes = 0 then (k, a_print A ''ERR: run [passes] (passes>0)'' [] e)
        else (k\<lparr>g_mode := MODE_RUN, g_passes_left := passes\<rparr>, a_print A ''OK: run passes=%lu'' [passes] e)
      else if s = ''soak'' \<or> starts_with s ''soak '' then
        let passes = passes_of A s ''soak'' 10 in
        if passes = 0 then (k, a_print A ''ERR: soak <passes> (passes>0)'' [] e)
        else (k\<lparr>g_mode := MODE_SOAK, g_passes_left := passes\<rparr>, a_print A ''OK: soak passes=%lu'' [passes] e)
      else if starts_with s ''set '' then
        let sp1 = s_index A s (CHR '' '') 0; sp2 = s_index A s (CHR '' '') (sp1 + 1) in
        if sp2 < 0 then (k, a_print A (''ERR: expected '' @ [CHR 0x27] @ ''set <key> <value>'' @ [CHR 0x27]) [] e)
        else let key = s_substring A s (sp1 + 1) sp2; val = s_tail A s (sp2 + 1) in
          (case parse_u32' val of (v, ok) \<Rightarrow>
           if \<not> ok then (k, a_print A ''ERR: invalid number'' [] e)
           else if key = ''need'' then
             (case apply_cfg' B A (k\<lparr>g_need := ucast v\<rparr>, e) of (k, e) \<Rightarrow> (k, a_print A ''OK: need'' [] e))
           else if key = ''limit'' then
             (case apply_cfg' B A (k\<lparr>g_limit := ucast v\<rparr>, e) of (k, e) \<Rightarrow> (k, a_print A ''OK: limit'' [] e))
           else if rate_on B \<and> key = ''rate'' then
             (case apply_cfg' B A (k\<lparr>g_rate_per_min := v\<rparr>, e) of (k, e) \<Rightarrow> (k, a_print A ''OK: rate'' [] e))
           else if rate_on B \<and> key = ''lifetime'' then
             (case apply_cfg' B A (k\<lparr>g_lifetime := v\<rparr>, e) of (k, e) \<Rightarrow> (k, a_print A ''OK: lifetime'' [] e))
           else (k, a_print A ''ERR: unknown key'' [] e))
      else (k, a_print A (''ERR: unknown command (type '' @ [CHR 0x27] @ ''help'' @ [CHR 0x27] @ '')'') [] e))"

section \<open>The benchmark\<close>

definition bench_start :: bench where
  "bench_start = \<lparr>allow_count = 0, deny_count = 0, enter_ok = 0, enter_fail = 0,
     min_us = 0xFFFFFFFF, max_us = 0, sum_us = 0\<rparr>"

text \<open>The check and what follows it.\<close>

definition bench_use :: "build \<Rightarrow> 'e arduino \<Rightarrow> loxbudget \<times> bench \<times> 'e \<Rightarrow> loxbudget \<times> bench \<times> 'e" where
  "bench_use B A s =
     (case s of (b, c, e) \<Rightarrow>
      case loxbudget_check B (board A) b 0 True e of (st, d, b, e) \<Rightarrow>
      if st \<noteq> LOXBUDGET_OK then (b, c\<lparr>deny_count := deny_count c + 1\<rparr>, e)
      else if d_action (the d) = LOXBUDGET_ALLOW_FULL \<or> d_action (the d) = LOXBUDGET_ALLOW_DEGRADED then
        let c = c\<lparr>allow_count := allow_count c + 1\<rparr> in
        (case loxbudget_enter B (board A) b 0 True e of (st, l, b, e) \<Rightarrow>
         if st = LOXBUDGET_OK
         then (case snd (loxbudget_leave (board A) b (the l) e) of
                 (b, e) \<Rightarrow> (b, c\<lparr>enter_ok := enter_ok c + 1\<rparr>, e))
         else (b, c\<lparr>enter_fail := enter_fail c + 1\<rparr>, e))
      else (b, c\<lparr>deny_count := deny_count c + 1\<rparr>, e))"

definition bench_call :: "build \<Rightarrow> 'e arduino \<Rightarrow> nat \<Rightarrow> loxbudget \<times> bench \<times> 'e \<Rightarrow> loxbudget \<times> bench \<times> 'e" where
  "bench_call B A i s =
     (case s of (b, c, e) \<Rightarrow>
      case a_micros A e of (t0, e) \<Rightarrow>
      case bench_use B A (b, c, e) of (b, c, e) \<Rightarrow>
      case a_micros A e of (t1, e) \<Rightarrow>
      let dt = t1 - t0;
          c = (if dt < min_us c then c\<lparr>min_us := dt\<rparr> else c);
          c = (if dt > max_us c then c\<lparr>max_us := dt\<rparr> else c);
          c = c\<lparr>sum_us := sum_us c + ucast dt\<rparr>
      in (b, c, if (of_nat i :: u32) mod BENCH_YIELD_EVERY = 0 then a_delay A 0 e else e))"

definition bench_warmup :: "build \<Rightarrow> 'e arduino \<Rightarrow> loxbudget \<times> 'e \<Rightarrow> loxbudget \<times> 'e" where
  "bench_warmup B A s = ((\<lambda>(b, e). snd (snd (loxbudget_check B (board A) b 0 True e))) ^^ 2000) s"

text \<open>The counters are a result too, besides being reported.\<close>

definition bench_pass' :: "build \<Rightarrow> 'e arduino \<Rightarrow> loxbudget \<times> 'e \<Rightarrow> bench \<times> loxbudget \<times> 'e" where
  "bench_pass' B A s =
     (case bench_warmup B A s of (b, e) \<Rightarrow>
      case a_micros A e of (start, e) \<Rightarrow>
      case fold (bench_call B A) [0..<unat BENCH_CALLS_PER_PASS] (b, bench_start, e) of (b, c, e) \<Rightarrow>
      case a_micros A e of (t, e) \<Rightarrow> (c, b, a_report A c (t - start) e))"

section \<open>Setup and loop\<close>

definition sketch_config :: loxbudget_config where
  "sketch_config = (loxbudget_config_simple 1 1)
     \<lparr>cfg_hal_callbacks := Some HAL_CB, cfg_hal_user := 0, cfg_hal_strict := 1, cfg_audit_size := 0,
      cfg_max_concurrent_leases := 1\<rparr>"

text \<open>The globals at reset: static storage is zero where it has no initialiser.\<close>

definition sketch_reset :: sketch where
  "sketch_reset = \<lparr>k_B = zero_budget, k_OTA = zero_profile, g_need = 10, g_limit = 100,
     g_rate_per_min = 30, g_lifetime = 500, g_mode = MODE_IDLE, g_passes_left = 0, k_line = []\<rparr>"

text \<open>
  \<open>ba\<close> and \<open>sa\<close> are the addresses of \<open>B\<close> and \<open>STORAGE\<close>. When the initialisation fails the
  sketch stays in an endless loop, which is \<open>None\<close>.
\<close>

definition sketch_setup :: "build \<Rightarrow> 'e arduino \<Rightarrow> u64 \<Rightarrow> u64 \<Rightarrow> 'e \<Rightarrow> (sketch \<times> 'e) option" where
  "sketch_setup B A ba sa e =
     (let e = a_delay A 200 (a_begin A 115200 e);
          size = 4 * ucast ((LOXBUDGET_REQUIRED_SIZE B 1 1 0 + 3) div 4)
      in case loxbudget_init B (board A) ba sa size (Some sketch_config) (k_B sketch_reset) e of (st, b, e) \<Rightarrow>
         if st \<noteq> LOXBUDGET_OK then None
         else let ota = ota_profile' 0;
                  k = sketch_reset\<lparr>k_OTA := ota, k_B := snd (loxbudget_register_op b (Some ota))\<rparr>
              in case apply_cfg' B A (k, e) of (k, e) \<Rightarrow>
                   Some (k, print_help' B A (a_print A ''loxbudget ESP32 demo ready.'' [] e)))"

text \<open>One call of \<open>loop\<close>: a line of the console, then a pass or a pause.\<close>

definition sketch_console :: "build \<Rightarrow> 'e arduino \<Rightarrow> int list \<Rightarrow> sketch \<times> 'e \<Rightarrow> sketch \<times> 'e" where
  "sketch_console B A input s =
     (case s of (k, e) \<Rightarrow>
      case read_line' A input (k_line k) of (complete, line, rest) \<Rightarrow>
        if complete
        then (case handle_cmd' B A line (k\<lparr>k_line := line\<rparr>, e) of (k, e) \<Rightarrow> (k\<lparr>k_line := []\<rparr>, e))
        else (k\<lparr>k_line := line\<rparr>, e))"

definition sketch_loop :: "build \<Rightarrow> 'e arduino \<Rightarrow> int list \<Rightarrow> sketch \<times> 'e \<Rightarrow> sketch \<times> 'e" where
  "sketch_loop B A input s =
     (case sketch_console B A input s of (k, e) \<Rightarrow>
      if g_mode k = MODE_RUN \<or> g_mode k = MODE_SOAK then
        if g_passes_left k = 0 then (k\<lparr>g_mode := MODE_IDLE\<rparr>, e)
        else (case bench_pass' B A (k_B k, e) of (c, b, e) \<Rightarrow>
          let k = k\<lparr>k_B := b, g_passes_left := g_passes_left k - 1\<rparr> in
          if g_passes_left k = 0 then (k\<lparr>g_mode := MODE_IDLE\<rparr>, a_print A ''DONE'' [] e)
          else if g_mode k = MODE_SOAK then (k, a_delay A 50 e)
          else (k, e))
      else (k, a_delay A 10 e))"

section \<open>The invariant of the sketch\<close>

text \<open>No lease is held, a slot exists, and operation 0 asks nothing of the platform.\<close>

definition bench_ok :: "build \<Rightarrow> loxbudget \<Rightarrow> bool" where
  "bench_ok B b \<longleftrightarrow>
     inst_ok B b \<and> slots_ok b [] \<and> 0 < unat (b_max_leases b) \<and>
     (\<forall>p. loxbudget_profile_c b 0 = Some p \<longrightarrow> p_flags p = 0)"

lemma bench_ok_check_frame:
  assumes "bench_ok B b" and "inst_ok B c" and "check_frame b c"
  shows "bench_ok B c"
  using assms check_frame_accessors(1) [OF assms(3)] check_frame_fields [OF assms(3)]
  by (simp add: bench_ok_def slots_check_frame)

lemma bench_ok_checked: "bench_ok B b \<Longrightarrow> bench_ok B (fst (snd (snd (loxbudget_check B P b op True e))))"
  by (rule bench_ok_check_frame [OF _ check_inst check_frame_holds]) (simp_all add: bench_ok_def)

text \<open>A granted check, the enter and the leave.\<close>

lemma bench_enter:
  assumes "\<not> token_bucket B" and "bench_ok B b"
    and c: "loxbudget_check B P b 0 True e = (LOXBUDGET_OK, Some d, b1, e1)" and "allows (d_action d)"
  obtains l b2 e2 b3 e3 where "loxbudget_enter B P b1 0 True e1 = (LOXBUDGET_OK, Some l, b2, e2)"
    "loxbudget_leave P b2 l e2 = (LOXBUDGET_OK, b3, e3)" "bench_ok B b3"
proof -
  have ok: "inst_ok B b" "rates_ok B b" using assms(1,2) by (simp_all add: bench_ok_def rates_ok_def)
  have "admissible B P b 0 e" using check_allows [OF inst_okD(1,2) [OF ok(1)] c] assms(4) by simp
  then obtain p where p: "loxbudget_profile_c b 0 = Some p" "p_flags p = 0"
    using assms(2) by (auto simp: admissible_def bench_ok_def split: option.splits)
  have "fst (hal_gate P b1 p e1)" by (simp add: hal_gate_free p(2))
  note granted = granted_admissible [OF ok c assms(4) p(1) this]
  note b1 = bench_ok_check_frame [OF assms(2) granted(2,3)]
  obtain l b2 e2 where enter: "loxbudget_enter B P b1 0 True e1 = (LOXBUDGET_OK, Some l, b2, e2)"
    using idle_enters [OF granted(2) _ _ granted(1)] b1 by (auto simp: bench_ok_def)
  have "slots_ok b1 []" using b1 by (simp add: bench_ok_def)
  from enter_leave_idle [OF granted(2) this enter] b1 show ?thesis
    by (auto simp: bench_ok_def intro: that [OF enter])
qed


section \<open>Counting\<close>

text \<open>The counters after \<open>n\<close> calls: each is granted and entered, or denied.\<close>

definition tally :: "nat \<Rightarrow> bench \<Rightarrow> bool" where
  "tally n c \<longleftrightarrow> unat (allow_count c) + unat (deny_count c) = n \<and> enter_ok c = allow_count c \<and> enter_fail c = 0"

lemma tally_step:
  assumes "tally n c" and "n < 4294967295"
  shows "tally (Suc n) (c\<lparr>deny_count := deny_count c + 1\<rparr>)"
    and "tally (Suc n) (c\<lparr>allow_count := allow_count c + 1, enter_ok := enter_ok c + 1\<rparr>)"
proof -
  have "unat (deny_count c + 1) = unat (deny_count c) + 1" "unat (allow_count c + 1) = unat (allow_count c) + 1"
    using assms by (auto simp: tally_def unat_word_ariths)
  with assms show "tally (Suc n) (c\<lparr>deny_count := deny_count c + 1\<rparr>)"
    and "tally (Suc n) (c\<lparr>allow_count := allow_count c + 1, enter_ok := enter_ok c + 1\<rparr>)"
    by (simp_all add: tally_def)
qed

lemma bench_use_tally:
  assumes "\<not> token_bucket B" and "bench_ok B b" and "tally n c" and "n < 4294967295"
    and "bench_use B A (b, c, e) = (b', c', e')"
  shows "bench_ok B b' \<and> tally (Suc n) c' \<and> min_us c' = min_us c \<and> max_us c' = max_us c"
proof -
  have ok: "inst_ok B b" using assms(2) by (simp add: bench_ok_def)
  obtain d b1 e1 where check: "loxbudget_check B (board A) b 0 True e = (LOXBUDGET_OK, Some d, b1, e1)"
    using check_returns [OF shape_magic [OF inst_okD(1) [OF ok]], of B "board A" 0 e] by blast
  have b1: "bench_ok B b1" using bench_ok_checked [OF assms(2), of "board A" 0 e] by (simp add: check)
  show ?thesis
  proof (cases "allows (d_action d)")
    case True
    obtain l b2 e2 b3 e3 where "loxbudget_enter B (board A) b1 0 True e1 = (LOXBUDGET_OK, Some l, b2, e2)"
      "loxbudget_leave (board A) b2 l e2 = (LOXBUDGET_OK, b3, e3)" "bench_ok B b3"
      by (rule bench_enter [OF assms(1,2) check True])
    then show ?thesis
      using assms(5) check True tally_step(2) [OF assms(3,4)] by (auto simp: bench_use_def allows_def)
  next
    case False
    then show ?thesis
      using assms(5) check b1 tally_step(1) [OF assms(3,4)] by (auto simp: bench_use_def allows_def)
  qed
qed


definition bench_inv :: "build \<Rightarrow> nat \<Rightarrow> loxbudget \<times> bench \<times> 'e \<Rightarrow> bool" where
  "bench_inv B n s \<longleftrightarrow>
     bench_ok B (fst s) \<and> tally n (fst (snd s)) \<and> (0 < n \<longrightarrow> min_us (fst (snd s)) \<le> max_us (fst (snd s)))"

lemma bench_call_inv:
  assumes "\<not> token_bucket B" and "bench_inv B n s" and "n < 4294967295"
  shows "bench_inv B (Suc n) (bench_call B A i s)"
proof -
  obtain b c e where s: "s = (b, c, e)" by (metis prod.exhaust)
  obtain t0 e1 where t0: "a_micros A e = (t0, e1)" by fastforce
  obtain b' c' e2 where use: "bench_use B A (b, c, e1) = (b', c', e2)" by (metis prod.exhaust)
  obtain t1 e3 where t1: "a_micros A e2 = (t1, e3)" by fastforce
  have "bench_ok B b" "tally n c" using assms(2) by (simp_all add: bench_inv_def s)
  from bench_use_tally [OF assms(1) this assms(3) use] show ?thesis
    by (auto simp: bench_inv_def bench_call_def s t0 use t1 Let_def tally_def not_less)
qed

lemma bench_calls_inv:
  assumes "\<not> token_bucket B" and "bench_inv B 0 s"
  shows "n < 4294967295 \<Longrightarrow> bench_inv B n (fold (bench_call B A) [0..<n] s)"
proof (induction n)
  case 0
  then show ?case using assms(2) by simp
next
  case (Suc n)
  then have "bench_inv B n (fold (bench_call B A) [0..<n] s)" by simp
  from bench_call_inv [OF assms(1) this, of A n] Suc.prems show ?case by simp
qed

lemma bench_warmup_ok: "bench_ok B b \<Longrightarrow> bench_ok B (fst (bench_warmup B A (b, e)))"
proof -
  assume ok: "bench_ok B b"
  have "bench_ok B (fst (((\<lambda>(b, e). snd (snd (loxbudget_check B (board A) b 0 True e))) ^^ n) (b, e)))" for n
    by (induction n) (simp_all add: ok split_def bench_ok_checked)
  then show ?thesis by (simp add: bench_warmup_def)
qed

lemma bench_pass_ok:
  assumes "\<not> token_bucket B" and "bench_ok B b" and "bench_pass' B A (b, e) = (c, b', e')"
  shows "bench_ok B b' \<and> tally 50000 c \<and> min_us c \<le> max_us c"
proof -
  obtain b1 e1 where w: "bench_warmup B A (b, e) = (b1, e1)" by fastforce
  obtain t0 e2 where t0: "a_micros A e1 = (t0, e2)" by fastforce
  let ?n = "unat BENCH_CALLS_PER_PASS"
  have n: "?n = 50000" by (simp add: BENCH_CALLS_PER_PASS_def)
  obtain b2 c2 e3 where run: "fold (bench_call B A) [0..<?n] (b1, bench_start, e2) = (b2, c2, e3)" by (metis prod.exhaust)
  obtain t1 e4 where t1: "a_micros A e3 = (t1, e4)" by fastforce
  have "bench_ok B b1" using bench_warmup_ok [OF assms(2), of A e] by (simp add: w)
  then have "bench_inv B 0 (b1, bench_start, e2)" by (simp add: bench_inv_def tally_def bench_start_def)
  from bench_calls_inv [OF assms(1) this, of ?n A] have "bench_inv B 50000 (b2, c2, e3)" unfolding run by (simp add: n)
  moreover have "c = c2" "b' = b2" using assms(3) by (simp_all add: bench_pass'_def w t0 run t1)
  ultimately show ?thesis by (simp add: bench_inv_def)
qed

section \<open>The console keeps the invariant\<close>

lemma bench_ok_update:
  assumes "bench_ok B b" and "inst_ok B c" and "t_lease_slots c = t_lease_slots b" and "b_max_leases c = b_max_leases b"
    and "loxbudget_profile_c c = loxbudget_profile_c b"
  shows "bench_ok B c"
  using assms by (simp add: bench_ok_def slots_ok_def)

lemma config_keeps:
  "t_lease_slots (snd (loxbudget_set_resource b r l k)) = t_lease_slots b"
  "b_max_leases (snd (loxbudget_set_resource b r l k)) = b_max_leases b"
  "loxbudget_profile_c (snd (loxbudget_set_resource b r l k)) = loxbudget_profile_c b"
  "t_lease_slots (snd (loxbudget_op_set_need b op r a)) = t_lease_slots b"
  "b_max_leases (snd (loxbudget_op_set_need b op r a)) = b_max_leases b"
  "loxbudget_profile_c (snd (loxbudget_op_set_need b op r a)) = loxbudget_profile_c b"
  by (simp_all add: fun_eq_iff loxbudget_profile_c_def loxbudget_set_resource_def loxbudget_op_set_need_def Let_def
      split: option.splits)

lemma bench_ok_resource: "bench_ok B b \<Longrightarrow> bench_ok B (snd (loxbudget_set_resource b r l k))"
  by (rule bench_ok_update [of B b]) (simp_all add: bench_ok_def config_inst config_keeps)

lemma bench_ok_need: "bench_ok B b \<Longrightarrow> bench_ok B (snd (loxbudget_op_set_need b op r a))"
  by (rule bench_ok_update [of B b]) (simp_all add: bench_ok_def config_inst config_keeps)

lemma bench_ok_rates:
  assumes "rate_only b c" and "bench_ok B b"
  shows "bench_ok B c"
proof -
  obtain rt where c: "c = b\<lparr>t_rate := rt\<rparr>" using assms(1) by (auto simp: rate_only_def)
  have "inst_ok B c" using assms by (simp add: rate_only_inst bench_ok_def)
  then show ?thesis by (rule bench_ok_update [OF assms(2)]) (simp_all add: c rate_maps)
qed

lemma bench_ok_limits:
  "bench_ok B b \<Longrightarrow> bench_ok B (fst (snd (loxbudget_set_rate_limit B P b r w l e)))"
  "bench_ok B b \<Longrightarrow> bench_ok B (snd (loxbudget_set_lifetime_limit b r m))"
  by (rule bench_ok_rates [OF set_rate_limit_only] bench_ok_rates [OF set_lifetime_only], assumption)+

lemma apply_cfg_ok:
  assumes "bench_ok B (k_B (fst s))"
  shows "bench_ok B (k_B (fst (apply_cfg' B A s)))"
proof -
  obtain k e where s: "s = (k, e)" by fastforce
  let ?b = "snd (loxbudget_set_resource (k_B k) 0 (g_limit k) (ucast (u8_of_kind LOXBUDGET_RES_CONSUMABLE)))"
  obtain st b2 e2 where r: "loxbudget_set_rate_limit B (board A) ?b 0 1 (g_rate_per_min k) e = (st, b2, e2)"
    by (metis prod.exhaust)
  have "bench_ok B ?b" using assms by (simp only: s fst_conv bench_ok_resource)
  moreover from this have "bench_ok B b2"
    using bench_ok_limits(1) [of B ?b "board A" 0 1 "g_rate_per_min k" e] by (simp only: r fst_conv snd_conv)
  ultimately show ?thesis
    using r by (cases "rate_on B") (simp_all add: s apply_cfg'_def bench_ok_need bench_ok_limits(2))
qed

lemma handle_cmd_ok: "bench_ok B (k_B (fst s)) \<Longrightarrow> bench_ok B (k_B (fst (handle_cmd' B A line s)))"
proof -
  assume ok: "bench_ok B (k_B (fst s))"
  have "bench_ok B (k_B (fst (apply_cfg' B A (k, e))))" if "k_B k = k_B (fst s)" for k e
    using apply_cfg_ok [of B "(k, e)" A] ok that by simp
  then show ?thesis
    using ok by (simp add: handle_cmd'_def print_status'_def split_def Let_def)
qed

lemma sketch_console_ok: "bench_ok B (k_B (fst s)) \<Longrightarrow> bench_ok B (k_B (fst (sketch_console B A input s)))"
  by (simp add: sketch_console_def split_def Let_def handle_cmd_ok)

lemma sketch_loop_ok:
  assumes "\<not> token_bucket B" and "bench_ok B (k_B (fst s))"
  shows "bench_ok B (k_B (fst (sketch_loop B A input s)))"
proof -
  obtain k e where c: "sketch_console B A input s = (k, e)" by fastforce
  have k: "bench_ok B (k_B k)" using sketch_console_ok [OF assms(2), of A input] by (simp add: c)
  obtain cn b e' where pass: "bench_pass' B A (k_B k, e) = (cn, b, e')" by (metis prod.exhaust)
  have "bench_ok B b" using bench_pass_ok [OF assms(1) k pass] by simp
  with k show ?thesis by (simp add: sketch_loop_def c pass Let_def)
qed

lemma sketch_run_ok:
  "\<not> token_bucket B \<Longrightarrow> bench_ok B (k_B (fst s)) \<Longrightarrow> bench_ok B (k_B (fst (fold (sketch_loop B A) inputs s)))"
  by (induction inputs arbitrary: s) (simp_all add: sketch_loop_ok)

lemma bench_ok_registered:
  assumes f: "fresh_inst B sketch_config b" and c: "c = snd (loxbudget_register_op b (Some (ota_profile' 0)))"
  shows "bench_ok B c"
proof -
  have fr: "inst_ok B b" "slots_ok b []" "b_max_leases b = 1" "loxbudget_profile_c b = Map.empty"
    using f by (simp_all add: fresh_inst_def sketch_config_def)
  have "p_flags p = 0" if "loxbudget_profile_c c 0 = Some p" for p
  proof (cases "fst (loxbudget_register_op b (Some (ota_profile' 0))) = LOXBUDGET_OK")
    case True
    then have "loxbudget_register_op b (Some (ota_profile' 0)) = (LOXBUDGET_OK, c)" by (simp add: c prod_eq_iff)
    from register_op_writes(1) [OF fr(1) this] that fr(4) show ?thesis
      by (auto simp: ota_profile'_def loxbudget_op_profile_default_def)
  next
    case False
    then have "c = b" unfolding c by (rule register_op_err)
    with that fr(4) show ?thesis by simp
  qed
  moreover have "inst_ok B c" unfolding c by (rule config_inst(2) [OF fr(1)])
  moreover have "t_lease_slots c = t_lease_slots b" "b_max_leases c = b_max_leases b"
    by (simp_all add: c loxbudget_register_op_def Let_def split: option.splits)
  ultimately show ?thesis using fr(2,3) by (simp add: bench_ok_def slots_ok_def)
qed

lemma sketch_setup_ok:
  assumes "ba \<noteq> 0" and "sa \<noteq> 0" and "loxbudget_is_aligned_u32 sa"
  shows "\<exists>k e'. sketch_setup B A ba sa e = Some (k, e') \<and> bench_ok B (k_B k)"
proof -
  let ?e = "a_delay A 200 (a_begin A 115200 e)" and ?ota = "ota_profile' 0"
  have cfg: "cfg_max_resources sketch_config = 1" "cfg_max_ops sketch_config = 1" "cfg_audit_size sketch_config = 0"
    "cfg_max_concurrent_leases sketch_config = 1"
    by (simp_all add: sketch_config_def loxbudget_config_simple_def)
  obtain b e1 where init: "loxbudget_init B (board A) ba sa (storage_bytes B 1 1 0) (Some sketch_config) (k_B sketch_reset) ?e =
      (LOXBUDGET_OK, b, e1)" and f: "fresh_inst B sketch_config b"
    by (rule init_program [OF assms cfg(1-3), of B "board A" "k_B sketch_reset" ?e]) (simp_all add: cfg)
  let ?k = "sketch_reset\<lparr>k_OTA := ?ota, k_B := snd (loxbudget_register_op b (Some ?ota))\<rparr>"
  obtain k e2 where app: "apply_cfg' B A (?k, e1) = (k, e2)" by fastforce
  have "bench_ok B (k_B k)" using apply_cfg_ok [of B "(?k, e1)" A] bench_ok_registered [OF f refl] app by simp
  moreover have "\<exists>x. sketch_setup B A ba sa e = Some (k, x)"
    using init app by (simp add: sketch_setup_def storage_bytes_def Let_def)
  ultimately show ?thesis by blast
qed

text \<open>
  The console accepts \<open>set need 0\<close> (and any multiple of 65536, which is cut to 16 bits): it answers OK and
  shows a need of 0, but \<open>loxbudget_op_set_need\<close> refuses the amount and its status is
  ignored, so the instance goes on asking for the old need.
\<close>

lemma set_need_zero_ignored:
  "op_needs (k_B (fst (apply_cfg' B A (k\<lparr>g_need := 0\<rparr>, e)))) 0 = op_needs (k_B k) 0"
proof -
  have res: "op_needs (snd (loxbudget_set_resource b r l kd)) 0 = op_needs b 0" for b r l kd
    by (simp add: loxbudget_set_resource_def op_needs_def Let_def)
  have need: "snd (loxbudget_op_set_need b 0 0 0) = b" for b
    by (simp add: loxbudget_op_set_need_def Let_def split: option.splits)
  have rate: "op_needs c 0 = op_needs b 0" if "rate_only b c" for b c
    using that by (auto simp: rate_only_def op_needs_def)
  show ?thesis
    by (simp add: apply_cfg'_def split_def Let_def res need rate [OF set_lifetime_only] rate [OF set_rate_limit_only])
qed

section \<open>Properties\<close>

text \<open>
  C33. The sketch on the board, with the fixed windows the header selects: the setup succeeds with any
  address of its static (aligned) storage, and whatever is typed on the console and however often
  \<open>loop\<close> has run, with any clock, the next benchmark pass counts each of its 50000 calls once, as
  granted or denied; every granted call also enters (\<open>enter_fail\<close> is 0), the
  shortest call is not longer than the longest, and after the pass no lease is held.
\<close>

theorem sketch_bench_counts:
  assumes "\<not> token_bucket B" and "ba \<noteq> 0" and "sa \<noteq> 0" and "loxbudget_is_aligned_u32 sa"
  shows "\<exists>k e1. sketch_setup B A ba sa e = Some (k, e1) \<and>
    (\<forall>inputs. case fold (sketch_loop B A) inputs (k, e1) of (k', e2) \<Rightarrow>
       case bench_pass' B A (k_B k', e2) of (c, b, e3) \<Rightarrow>
         unat (allow_count c) + unat (deny_count c) = 50000 \<and> enter_ok c = allow_count c \<and> enter_fail c = 0 \<and>
         min_us c \<le> max_us c \<and> inst_ok B b \<and> slots_ok b [])"
proof -
  obtain k e1 where start: "sketch_setup B A ba sa e = Some (k, e1)" and ok: "bench_ok B (k_B k)"
    using sketch_setup_ok [OF assms(2-4), of B A e] by blast
  have "case fold (sketch_loop B A) inputs (k, e1) of (k', e2) \<Rightarrow> case bench_pass' B A (k_B k', e2) of (c, b, e3) \<Rightarrow>
         unat (allow_count c) + unat (deny_count c) = 50000 \<and> enter_ok c = allow_count c \<and> enter_fail c = 0 \<and>
         min_us c \<le> max_us c \<and> inst_ok B b \<and> slots_ok b []" for inputs
  proof -
    obtain k' e2 where run: "fold (sketch_loop B A) inputs (k, e1) = (k', e2)" by fastforce
    obtain c b e3 where pass: "bench_pass' B A (k_B k', e2) = (c, b, e3)" by (metis prod.exhaust)
    have "bench_ok B (k_B k')" using sketch_run_ok [OF assms(1), of "(k, e1)" A inputs] ok by (simp add: run)
    from bench_pass_ok [OF assms(1) this pass] show ?thesis by (simp add: run pass tally_def bench_ok_def)
  qed
  with start show ?thesis by blast
qed

text \<open>A board whose clocks stand still; its strings are those of the Arduino core on lower-case text.\<close>

definition quiet_board :: "nat arduino" where
  "quiet_board = \<lparr>s_trim = (\<lambda>s. rev (dropWhile c_space (rev (dropWhile c_space s)))), s_lower = (\<lambda>s. s),
     s_substring = (\<lambda>s i j. take (nat (j - i)) (drop (nat i) s)),
     s_index = (\<lambda>s c i. case first_index (\<lambda>x. x = c) (drop (nat i) s) of None \<Rightarrow> -1 | Some j \<Rightarrow> i + int j),
     s_remove = (\<lambda>s i. take i s), a_millis = (\<lambda>e. (0, e)), a_micros = (\<lambda>e. (0, e)),
     a_no_interrupts = (\<lambda>e. e), a_interrupts = (\<lambda>e. e), a_delay = (\<lambda>d e. e), a_begin = (\<lambda>d e. e),
     a_print = (\<lambda>l ns e. e + 1), a_report = (\<lambda>c t e. e + 1)\<rparr>"

theorem sketch_bench_counts_witness:
  "\<exists>k e1. sketch_setup fixed_build quiet_board 0x1000 0x2000 0 = Some (k, e1) \<and>
    (case fold (sketch_loop fixed_build quiet_board) [[114, 117, 110, 10], []] (k, e1) of (k', e2) \<Rightarrow>
       case bench_pass' fixed_build quiet_board (k_B k', e2) of (c, b, e3) \<Rightarrow> enter_fail c = 0)"
proof -
  have "\<not> token_bucket fixed_build" "(0x1000 :: u64) \<noteq> 0" "(0x2000 :: u64) \<noteq> 0" "loxbudget_is_aligned_u32 0x2000"
    by (simp_all add: fixed_build_def loxbudget_is_aligned_u32_def)
  from sketch_bench_counts [OF this, of quiet_board 0] obtain k e1 where
    k: "sketch_setup fixed_build quiet_board 0x1000 0x2000 0 = Some (k, e1)"
    and run: "\<forall>inputs. case fold (sketch_loop fixed_build quiet_board) inputs (k, e1) of (k', e2) \<Rightarrow>
       case bench_pass' fixed_build quiet_board (k_B k', e2) of (c, b, e3) \<Rightarrow>
         unat (allow_count c) + unat (deny_count c) = 50000 \<and> enter_ok c = allow_count c \<and> enter_fail c = 0 \<and>
         min_us c \<le> max_us c \<and> inst_ok fixed_build b \<and> slots_ok b []" by blast
  from k spec [OF run, of "[[114, 117, 110, 10], []]"] show ?thesis
    by (intro exI [of _ k] exI [of _ e1]) (simp only: split_def simp_thms)
qed

end
