(* ===== verification/Spec2Isabelle.thy ===== *)
theory Spec2Isabelle
  imports LB_Cascade_Check LB_Concurrency LB_Export LB_Strings LB_Balance LB_Recorder LB_Esp32
begin

text \<open>
  A model of loxbudget, an admission-control library for microcontrollers in C99. An
  application registers resources with limits and operations with the amounts they need; before an
  operation it asks the library (\<open>loxbudget_check\<close>, \<open>loxbudget_enter\<close>), which answers from the
  pressure, the platform's preconditions, the free amounts, the rate windows and the operations
  that may follow. The development translates \<open>include/loxbudget.h\<close>, the six files of \<open>src/\<close>,
  the six adapters and the four example programs function by function and proves what a user
  relies on.

  \<^bold>\<open>State.\<close> An instance (\<open>loxbudget_t\<close> together with the storage buffer it points to) is the
  record \<open>loxbudget\<close>: the \<open>b_\<close> fields are those of the struct, the \<open>t_\<close> fields the tables of the
  buffer (resources, operation profiles, four needs per operation, lease slots, rate states,
  may-trigger edges, audit ring, calibration slots). Machine integers are words of their width;
  enums that live in a byte are read through \<open>action_of_u8\<close>, \<open>pressure_of_u8\<close> and \<open>kind_of_u8\<close>. The
  feature macros are the record \<open>build\<close>, an argument \<open>B\<close>; a theorem over \<open>B\<close> holds of every
  configuration. The application's callbacks (clock, critical sections, predicates, decision
  hook) are the record \<open>platform\<close>, an argument \<open>P\<close>, and act on an environment \<open>e\<close> of any type
  that is threaded through every call in the order of the C statements. A C pointer that may be
  NULL is an option or, where only its being NULL matters, a boolean or a handle.

  \<^bold>\<open>Theories\<close>, in the order of their imports:
  \<^item> \<open>LB_Prelude\<close>: word types, saturating addition, the collections \<open>frame\<close> and \<open>wordnat\<close>, lemmas
    on lists cut into chunks and on searching loops.
  \<^item> \<open>LB_Types\<close>: the enums and structs; \<open>LB_Hal\<close>: the callbacks, the weak defaults of
    \<open>loxbudget_hal.c\<close> and the wrappers of \<open>loxbudget_core.c\<close> that choose between them.
  \<^item> \<open>LB_Layout\<close>: the offsets of the tables in the buffer, in 32-bit arithmetic; \<open>LB_Instance\<close>:
    init, deinit, snapshot, pressure, hook and the inline constructors of the header.
  \<^item> \<open>LB_Audit\<close>: the ring buffer (locale \<open>bounded_log\<close>); \<open>LB_Config\<close>: resources, profiles and
    needs (locale \<open>bounded_map\<close>), and \<open>config_ok\<close>, what registration guarantees.
  \<^item> \<open>LB_Rate\<close>: both window algorithms (locale \<open>rate_limiter\<close>, interpreted for each);
    \<open>LB_Rate_Api\<close>: installing limits, lifetime budgets, the burn-rate report.
  \<^item> \<open>LB_Causality\<close>: edge registration and its cycle check (locale \<open>visit_set\<close>); \<open>LB_Cascade\<close>: the
    depth-limited walk that adds the scaled needs of the operations that may follow.
  \<^item> \<open>LB_Decision\<close>: \<open>loxbudget_check\<close>, one definition per stage; \<open>LB_Admission\<close>: the predicate
    \<open>admissible\<close>, which states its outcome without its loops, the predicate \<open>explained\<close>, which
    determines the decision and its reason from the state at the call, and the facts on frames
    and audit entries; \<open>LB_Cascade_Check\<close>: what the cascade check buys.
  \<^item> \<open>LB_Lease\<close>: enter (\<open>enter_prepare\<close> before, \<open>enter_commit\<close> inside the critical section), leave
    and yield; \<open>LB_Ledger\<close>: the books of an instance and the invariant \<open>inst_ok\<close>; \<open>LB_Clients\<close>: runs
    of any number of clients (locale \<open>accounts\<close>); \<open>LB_Lease_Props\<close>, \<open>LB_Rate_Effect\<close>: the
    properties of the lease protocol and what entering does to the rate table; \<open>LB_Recheck\<close>: why an
    operation that a check granted can be entered afterwards.
  \<^item> \<open>LB_Concurrency\<close>: the step relation that interleaves the two halves of enters with leaves.
  \<^item> \<open>LB_P2\<close>, \<open>LB_Calibration\<close>, \<open>LB_Export\<close>: the quantile estimator, calibration sessions, and the
    binary export with a decoder of the documented format; \<open>LB_Strings\<close>: the diagnostic names.
  \<^item> \<open>LB_Api\<close>, \<open>LB_Balance\<close>: runs of arbitrary calls of all functions that change an instance or call
    the HAL, with deinit at any place in \<open>LB_Balance\<close>; the contract of one call is a locale
    (\<open>api_function\<close>, \<open>balanced_function\<close>) interpreted on each function.
  \<^item> \<open>LB_Hooks\<close>: what a call does to a part of the environment that only the hook and the critical
    sections can change, used by \<open>LB_Balance\<close> (the nesting depth) and by the adapters (their sinks).
  \<^item> \<open>LB_Microlog\<close>, \<open>LB_Adapters\<close>: the adapters of \<open>adapters/\<close>; the services they talk to are
    parameters. The loops of the configuration loader are instances of the locale \<open>map_loader\<close>.
    \<open>LB_Recorder\<close>: the adapters and the library together; the contract of an attached sink is the
    locale \<open>decision_sink\<close>, interpreted for loxguard, nvlog and microbus.
  \<^item> \<open>LB_Examples\<close>, \<open>LB_Esp32\<close>: the programs of \<open>examples/\<close> as clients: three \<open>main\<close> functions, and the
    sketch with its console, its benchmark and the invariant of its \<open>loop\<close>.

  \<^bold>\<open>What is shown.\<close> The decision engine grants exactly the admissible
  operations, and its decision is the only one the state explains (C3, C6, C12, C13, C20); what it
  granted can be entered (C10); a lease takes exactly the needs of its operation and gives back what
  it reserved, over any run of clients (C1, C2, C4, C9, C11); every run of API calls keeps the
  instance well formed and the critical sections balanced (C5, C15); rate limits are enforced in
  both implementations (C16, C17), and fixed windows and lifetime budgets are charged exactly by an
  enter (C7); the may-trigger graph stays acyclic and the walks over it end (C8, C19); tables do not
  overlap, initialisation succeeds on the documented size, needs form a map, the audit ring keeps
  the newest entries (C18, C21 to C23); calibration, its export, the sorting network and the
  adapters do what they document, also composed with the library (C24 to C32); the example programs
  run as intended (C33, C34); slots are safe under interleaving (C14). A held lease gets the yield
  hint of the current pressure (C39). The diagnostic strings, the burn-rate report, the extreme
  token-bucket limit and the children that the depth limit of the cascade loses have theorems of
  their own beside these. C35 to C38 and C40 show the limits of these statements: what stale and
  reconfigured leases do on any instance, what interleaved enters and large graphs can do, and what
  token buckets polled too often do.

  \<^bold>\<open>Bounds and fuel.\<close> The two graph walks are loops over a stack and take fuel; \<open>walk_fuel\<close> is 300
  and is enough: a round either drops an entry or marks one of at most 16 operations and
  pushes at most 16, so 17 rounds per operation and one for the start are 273. Both walks are shown
  to return. All other loops are structural or have a termination proof. Estimators are followed for
  fewer than \<open>2 ^ 31\<close> samples. A benchmark pass of the sketch is 2000 and 50000 rounds, the numbers of the
  source; its counters do not wrap below \<open>2 ^ 32\<close> rounds.

  \<^bold>\<open>Not modelled.\<close> The numeric limits (16 operations, 8 resources, 4 needs per operation, 4
  leases and so on) are the header's defaults. A decision hook acts on the environment and does
  not call back into the instance. The padding of structs and the bytes of the tables have no
  counterpart, except where the code reads bytes (the needs read by the cascade walk, with the byte
  order a member of \<open>build\<close>) or writes them (the export, the log line). Undefined behaviour of C has
  no model of its own: the signed members of the estimator wrap, as they do on the usual targets,
  although C leaves their overflow (after 32763 samples) undefined; a NULL storage pointer inside an
  initialised instance does not occur. The Arduino core (strings, serial port, clocks) is a parameter of
  the sketch, and its two floating-point averages are not computed. The functions that compute the
  address of a table are the \<open>t_\<close> fields, with the offsets in \<open>LB_Layout\<close>; the header's stubs for features
  that are compiled out only return a constant and have no counterpart. Tests, benchmarks, the Python
  tools and the build files are not part of the model.
\<close>

end
